(* ===== verification/CoreVPN_Prelude.thy ===== *)
theory CoreVPN_Prelude
  imports Complex_Main "HOL-Library.Word" "HOL-Library.AList"
begin

text \<open>
  Shared vocabulary of the development.

  \<^item> Rust's fixed-width integers are words, \<open>usize\<close> lengths and offsets are \<open>nat\<close>
    (a length never exceeds \<open>isize::MAX\<close>, so the sums the code forms do not overflow), byte
    buffers (\<open>Bytes\<close>, \<open>BytesMut\<close>, \<open>Vec<u8>\<close>, \<open>&[u8]\<close>) are lists of 8-bit words and
    \<open>Instant\<close> and \<open>Duration\<close> are nanosecond counts.
  \<^item> \<open>Result\<close> is a sum type whose left summand is either an error the function returns or
    a panic (an index out of range, a failed \<open>unwrap\<close>), so that absence of panics is a
    theorem and not a convention.
  \<^item> Plain \<open>+\<close> on integers wraps, as in the release profile of the workspace.
  \<^item> \<open>BTreeMap\<close> is an association list kept in key order; \<open>HashMap\<close> is an association
    list with distinct keys, whose order stands for the unspecified iteration order. Both
    implement the interface \<open>map_store\<close>.
\<close>

unbundle bit_operations_syntax

named_theorems res_simps \<open>inversion of results\<close>
named_theorems no_panic_intros \<open>absence of panics, rule by rule\<close>
named_theorems layout_simps \<open>lengths and slices of byte layouts\<close>

type_synonym u8 = "8 word"
type_synonym u16 = "16 word"
type_synonym u32 = "32 word"
type_synonym u64 = "64 word"
type_synonym u128 = "128 word"
type_synonym bytes = "u8 list"
type_synonym instant = nat
type_synonym duration = nat

section \<open>Results\<close>

datatype 'e exn = Err 'e | Panic

type_synonym ('e, 'a) res = "'e exn + 'a"

text \<open>The \<open>?\<close> operator: stop at the first error, else go on with the value.\<close>

fun and_then :: "('e, 'a) res \<Rightarrow> ('a \<Rightarrow> ('e, 'b) res) \<Rightarrow> ('e, 'b) res" where
  "and_then (Inl e) f = Inl e"
| "and_then (Inr x) f = f x"

text \<open>\<open>if !cond { return Err(e) }\<close>.\<close>

definition ensure :: "bool \<Rightarrow> 'e \<Rightarrow> ('e, unit) res" where
  "ensure c e = (if c then Inr () else Inl (Err e))"

text \<open>\<open>Result::map_err\<close>; also the \<open>From\<close> conversion that \<open>?\<close> applies.\<close>

fun map_err :: "('e \<Rightarrow> 'f) \<Rightarrow> ('e, 'a) res \<Rightarrow> ('f, 'a) res" where
  "map_err f (Inl (Err e)) = Inl (Err (f e))"
| "map_err f (Inl Panic) = Inl Panic"
| "map_err f (Inr x) = Inr x"

definition no_panic :: "('e, 'a) res \<Rightarrow> bool" where
  "no_panic r \<longleftrightarrow> r \<noteq> Inl Panic"

definition is_ok :: "('e, 'a) res \<Rightarrow> bool" where
  "is_ok r \<longleftrightarrow> (\<exists>x. r = Inr x)"

lemma and_then_Inr_iff [res_simps]:
  "and_then m f = Inr y \<longleftrightarrow> (\<exists>x. m = Inr x \<and> f x = Inr y)"
  by (cases m) auto

lemma and_then_Inl_iff [res_simps]:
  "and_then m f = Inl e \<longleftrightarrow> m = Inl e \<or> (\<exists>x. m = Inr x \<and> f x = Inl e)"
  by (cases m) auto

lemma ensure_Inr_iff [res_simps]: "ensure c e = Inr u \<longleftrightarrow> c"
  by (simp add: ensure_def)

lemma ensure_Inl_iff [res_simps]: "ensure c e = Inl x \<longleftrightarrow> \<not> c \<and> x = Err e"
  by (auto simp: ensure_def)

lemma ensure_True [simp]: "c \<Longrightarrow> ensure c e = Inr ()"
  by (simp add: ensure_def)

lemma ensure_False [simp]: "\<not> c \<Longrightarrow> ensure c e = Inl (Err e)"
  by (simp add: ensure_def)

lemma map_err_Inr_iff [res_simps]: "map_err f m = Inr x \<longleftrightarrow> m = Inr x"
  by (cases "(f, m)" rule: map_err.cases) auto

lemma map_err_Panic_iff [res_simps]: "map_err f m = Inl Panic \<longleftrightarrow> m = Inl Panic"
  by (cases "(f, m)" rule: map_err.cases) auto

lemma no_panic_iff: "no_panic r \<longleftrightarrow> (\<exists>x. r = Inr x) \<or> (\<exists>e. r = Inl (Err e))"
proof (cases r)
  case (Inl e)
  then show ?thesis by (cases e) (simp_all add: no_panic_def)
qed (simp add: no_panic_def)

lemma no_panic_Inr [simp, no_panic_intros]: "no_panic (Inr x)"
  by (simp add: no_panic_def)

lemma no_panic_Err [simp, no_panic_intros]: "no_panic (Inl (Err e))"
  by (simp add: no_panic_def)

lemma no_panic_ensure [simp, no_panic_intros]: "no_panic (ensure c e)"
  by (simp add: ensure_def)

lemma no_panic_and_then [no_panic_intros]:
  "no_panic m \<Longrightarrow> (\<And>x. m = Inr x \<Longrightarrow> no_panic (f x)) \<Longrightarrow> no_panic (and_then m f)"
  by (cases m) (auto simp: no_panic_def)

lemma no_panic_map_err [simp]: "no_panic (map_err f m) \<longleftrightarrow> no_panic m"
  by (simp add: no_panic_def res_simps)

lemma no_panic_if [no_panic_intros]:
  "(c \<Longrightarrow> no_panic a) \<Longrightarrow> (\<not> c \<Longrightarrow> no_panic b) \<Longrightarrow> no_panic (if c then a else b)"
  by simp

lemma is_ok_Inr [simp]: "is_ok (Inr x)"
  by (simp add: is_ok_def)

lemma is_ok_Inl [simp]: "\<not> is_ok (Inl e)"
  by (simp add: is_ok_def)

section \<open>Byte buffers\<close>

text \<open>\<open>data[i]\<close> and \<open>data[a..b]\<close>: out of range is a panic.\<close>

definition byte_at :: "bytes \<Rightarrow> nat \<Rightarrow> ('e, u8) res" where
  "byte_at d i = (if i < length d then Inr (d ! i) else Inl Panic)"

definition byte_range :: "bytes \<Rightarrow> nat \<Rightarrow> nat \<Rightarrow> ('e, bytes) res" where
  "byte_range d a b =
     (if a \<le> b \<and> b \<le> length d then Inr (take (b - a) (drop a d)) else Inl Panic)"

lemma byte_at_ok [simp]: "i < length d \<Longrightarrow> byte_at d i = Inr (d ! i)"
  by (simp add: byte_at_def)

lemma byte_range_ok [simp]:
  "a \<le> b \<Longrightarrow> b \<le> length d \<Longrightarrow> byte_range d a b = Inr (take (b - a) (drop a d))"
  by (simp add: byte_range_def)

lemma byte_at_Inr_iff [res_simps]: "byte_at d i = Inr x \<longleftrightarrow> i < length d \<and> x = d ! i"
  by (auto simp: byte_at_def)

lemma byte_at_Inl_iff [res_simps]: "byte_at d i = Inl x \<longleftrightarrow> length d \<le> i \<and> x = Panic"
  by (auto simp: byte_at_def)

lemma byte_range_Inr_iff [res_simps]:
  "byte_range d a b = Inr x \<longleftrightarrow> a \<le> b \<and> b \<le> length d \<and> x = take (b - a) (drop a d)"
  by (auto simp: byte_range_def)

lemma byte_range_Inl_iff [res_simps]:
  "byte_range d a b = Inl x \<longleftrightarrow> \<not> (a \<le> b \<and> b \<le> length d) \<and> x = Panic"
  by (auto simp: byte_range_def)

text \<open>Adjacent ranges of a buffer join.\<close>

lemma range_join: "j = i + a \<Longrightarrow> take a (drop i xs) @ take b (drop j xs) = take (a + b) (drop i xs)"
  by (simp add: take_add add.commute)

lemma range_join_append:
  "j = i + a \<Longrightarrow> take a (drop i xs) @ take b (drop j xs) @ ys = take (a + b) (drop i xs) @ ys"
  by (simp add: range_join flip: append_assoc)

lemma range_join_rest: "j = i + a \<Longrightarrow> take a (drop i xs) @ drop j xs = drop i xs"
  by (metis add.commute append_take_drop_id drop_drop)

lemma take_join: "take a xs @ take b (drop a xs) = take (a + b) xs"
  by (simp add: take_add)

lemma take_join_append: "take a xs @ take b (drop a xs) @ ys = take (a + b) xs @ ys"
  by (simp add: take_add)

lemmas range_joins = range_join range_join_append range_join_rest take_join take_join_append

section \<open>Big-endian integers\<close>

definition u16_to_be_bytes :: "u16 \<Rightarrow> bytes" where
  "u16_to_be_bytes w = [ucast (drop_bit 8 w), ucast w]"

definition u16_from_be_bytes :: "u8 \<Rightarrow> u8 \<Rightarrow> u16" where
  "u16_from_be_bytes a b = push_bit 8 (ucast a) OR ucast b"

definition u32_to_be_bytes :: "u32 \<Rightarrow> bytes" where
  "u32_to_be_bytes w = [ucast (drop_bit 24 w), ucast (drop_bit 16 w), ucast (drop_bit 8 w), ucast w]"

definition u32_from_be_bytes :: "bytes \<Rightarrow> u32" where
  "u32_from_be_bytes bs = foldl (\<lambda>acc b. push_bit 8 acc OR ucast b) 0 bs"

lemma bit_u8_beyond [simp]: "8 \<le> n \<Longrightarrow> \<not> bit (b :: u8) n"
  using bit_imp_le_length [of b n] by auto

lemma length_u16_to_be_bytes [simp, layout_simps]: "length (u16_to_be_bytes w) = 2"
  by (simp add: u16_to_be_bytes_def)

lemma length_u32_to_be_bytes [simp, layout_simps]: "length (u32_to_be_bytes w) = 4"
  by (simp add: u32_to_be_bytes_def)

lemma u32_to_be_bytes_neq_Nil [simp]: "u32_to_be_bytes w \<noteq> []"
  by (simp add: u32_to_be_bytes_def)

lemma u16_from_to_be_bytes [simp]:
  "u16_from_be_bytes (u16_to_be_bytes w ! 0) (u16_to_be_bytes w ! Suc 0) = w"
proof (rule bit_word_eqI)
  fix n assume "n < LENGTH(16)"
  then have n: "n < 16" by simp
  consider "n < 8" | "8 \<le> n" by linarith
  then show "bit (u16_from_be_bytes (u16_to_be_bytes w ! 0) (u16_to_be_bytes w ! Suc 0)) n = bit w n"
    using n by cases (auto simp add: u16_to_be_bytes_def u16_from_be_bytes_def bit_simps)
qed

lemma u32_from_to_be_bytes [simp]: "u32_from_be_bytes (u32_to_be_bytes w) = w"
proof (rule bit_word_eqI)
  fix n assume "n < LENGTH(32)"
  then have n: "n < 32" by simp
  consider "n < 8" | "8 \<le> n" "n < 16" | "16 \<le> n" "n < 24" | "24 \<le> n" by linarith
  then show "bit (u32_from_be_bytes (u32_to_be_bytes w)) n = bit w n"
    using n by cases (auto simp add: u32_to_be_bytes_def u32_from_be_bytes_def bit_simps)
qed

lemma u32_to_from_be_bytes_list:
  "u32_to_be_bytes (u32_from_be_bytes [a, b, c, d]) = [a, b, c, d]"
  by (simp add: u32_to_be_bytes_def u32_from_be_bytes_def)
     (intro conjI; rule bit_word_eqI; simp add: bit_simps)

lemma length_4_cases:
  assumes "length xs = 4"
  obtains a b c d where "xs = [a, b, c, d]"
proof -
  from assms obtain a b c d where "xs = [a, b, c, d]"
    by (auto simp: numeral_eq_Suc length_Suc_conv)
  then show thesis by (rule that)
qed

lemma u32_to_from_be_bytes [simp]:
  "length bs = 4 \<Longrightarrow> u32_to_be_bytes (u32_from_be_bytes bs) = bs"
  by (erule length_4_cases) (simp add: u32_to_from_be_bytes_list)

lemma u32_range_id:
  "i + 4 \<le> length d \<Longrightarrow>
     u32_to_be_bytes (u32_from_be_bytes (take 4 (drop i d))) = take 4 (drop i d)"
  by (rule u32_to_from_be_bytes) simp

lemma u32_to_be_bytes_inject [simp]: "u32_to_be_bytes a = u32_to_be_bytes b \<longleftrightarrow> a = b"
  by (metis u32_from_to_be_bytes)

lemma unat_bound: "unat (w :: 'a::len word) < 2 ^ LENGTH('a)"
  by (rule unsigned_less)

lemma word_add_one_le: "n < k \<Longrightarrow> n + 1 \<le> (k :: 'a::len word)"
  by (metis add.commute inc_le)

lemma unat_add_one: "unat n + 1 < 2 ^ LENGTH('a) \<Longrightarrow> unat (n + 1 :: 'a::len word) = unat n + 1"
  by (simp add: unat_word_ariths)

lemma unat_u8_of_nat: "n < 256 \<Longrightarrow> unat (of_nat n :: u8) = n"
  by (simp add: unat_of_nat)

lemma unat_u16_of_nat: "n < 65536 \<Longrightarrow> unat (of_nat n :: u16) = n"
  by (simp add: unat_of_nat)

section \<open>Checked and saturating arithmetic\<close>

text \<open>\<open>checked_add\<close>, \<open>saturating_add\<close> and \<open>saturating_sub\<close> of the unsigned integers.\<close>

definition checked_add :: "'a::len word \<Rightarrow> 'a word \<Rightarrow> 'a word option" where
  "checked_add a b = (if uint a + uint b < 2 ^ LENGTH('a) then Some (a + b) else None)"

definition saturating_add :: "'a::len word \<Rightarrow> 'a word \<Rightarrow> 'a word" where
  "saturating_add a b = (if uint a + uint b < 2 ^ LENGTH('a) then a + b else - 1)"

definition saturating_sub :: "'a::len word \<Rightarrow> 'a word \<Rightarrow> 'a word" where
  "saturating_sub a b = (if b \<le> a then a - b else 0)"

lemma no_overflow_iff:
  "uint a + uint b < 2 ^ LENGTH('a) \<longleftrightarrow> unat a + unat (b :: 'a::len word) < 2 ^ LENGTH('a)"
proof -
  have "uint a + uint b = int (unat a + unat b)" by simp
  also have "\<dots> < 2 ^ LENGTH('a) \<longleftrightarrow> unat a + unat b < 2 ^ LENGTH('a)"
    by (metis of_nat_less_iff of_nat_numeral of_nat_power)
  finally show ?thesis .
qed

lemma checked_add_Some: "checked_add a b = Some c \<Longrightarrow> unat c = unat a + unat b"
  by (auto simp: checked_add_def no_overflow_iff unat_word_ariths split: if_splits)

lemma checked_add_None: "checked_add a b = None \<longleftrightarrow> 2 ^ LENGTH('a) \<le> unat a + unat (b :: 'a::len word)"
  by (auto simp: checked_add_def no_overflow_iff)

lemma unat_saturating_sub [simp]: "unat (saturating_sub a b) = unat a - unat b"
  by (simp add: saturating_sub_def unat_sub word_le_nat_alt)

section \<open>Decimal printing of unsigned integers\<close>

fun string_of_nat :: "nat \<Rightarrow> string" where
  "string_of_nat n =
     (if n < 10 then [char_of (48 + n)]
      else string_of_nat (n div 10) @ [char_of (48 + n mod 10)])"

declare string_of_nat.simps [simp del]

section \<open>Maps\<close>

text \<open>What the components rely on: lookups after updates, and the number of entries.\<close>

locale map_store =
  fixes lookup :: "'m \<Rightarrow> 'k \<Rightarrow> 'v option"
    and put :: "'k \<Rightarrow> 'v \<Rightarrow> 'm \<Rightarrow> 'm"
    and remove :: "'k \<Rightarrow> 'm \<Rightarrow> 'm"
    and size_of :: "'m \<Rightarrow> nat"
    and wf :: "'m \<Rightarrow> bool"
  assumes lookup_put: "wf m \<Longrightarrow> lookup (put k v m) = (lookup m)(k \<mapsto> v)"
    and lookup_remove: "wf m \<Longrightarrow> lookup (remove k m) = (lookup m)(k := None)"
    and wf_put: "wf m \<Longrightarrow> wf (put k v m)"
    and wf_remove: "wf m \<Longrightarrow> wf (remove k m)"
    and finite_lookup: "wf m \<Longrightarrow> finite (dom (lookup m))"
    and size_dom: "wf m \<Longrightarrow> size_of m = card (dom (lookup m))"
begin

lemma size_put_fresh: "wf m \<Longrightarrow> lookup m k = None \<Longrightarrow> size_of (put k v m) = Suc (size_of m)"
  by (simp add: size_dom wf_put lookup_put finite_lookup card_insert_if domIff)

lemma size_put_present: "wf m \<Longrightarrow> lookup m k \<noteq> None \<Longrightarrow> size_of (put k v m) = size_of m"
  by (simp add: size_dom wf_put lookup_put finite_lookup card_insert_if domIff)

lemma size_put_le: "wf m \<Longrightarrow> size_of (put k v m) \<le> Suc (size_of m)"
  by (cases "lookup m k") (simp_all add: size_put_fresh size_put_present)

lemma size_remove_present:
  assumes "wf m" and "lookup m k \<noteq> None"
  shows "Suc (size_of (remove k m)) = size_of m"
proof -
  have "card (dom (lookup m)) = Suc (card (dom (lookup m) - {k}))"
    using assms by (intro card.remove finite_lookup) auto
  then show ?thesis
    using assms by (simp add: size_dom wf_remove lookup_remove)
qed

lemma size_remove_le: "wf m \<Longrightarrow> size_of (remove k m) \<le> size_of m"
  by (simp add: size_dom wf_remove lookup_remove finite_lookup card_mono)

lemma lookup_remove_absent: "wf m \<Longrightarrow> lookup m k = None \<Longrightarrow> lookup (remove k m) = lookup m"
  by (simp add: lookup_remove fun_upd_idem)

end

text \<open>\<open>std::collections::BTreeMap\<close>: entries in increasing key order.\<close>

fun bt_insert :: "'k::linorder \<Rightarrow> 'v \<Rightarrow> ('k \<times> 'v) list \<Rightarrow> ('k \<times> 'v) list" where
  "bt_insert k v [] = [(k, v)]"
| "bt_insert k v ((k', v') # m) =
     (if k < k' then (k, v) # (k', v') # m
      else if k = k' then (k, v) # m
      else (k', v') # bt_insert k v m)"

definition bt_remove :: "'k::linorder \<Rightarrow> ('k \<times> 'v) list \<Rightarrow> ('k \<times> 'v) list" where
  "bt_remove k m = filter (\<lambda>e. fst e \<noteq> k) m"

definition bt_wf :: "('k::linorder \<times> 'v) list \<Rightarrow> bool" where
  "bt_wf m \<longleftrightarrow> sorted_wrt (<) (map fst m)"

lemma bt_wf_distinct: "bt_wf m \<Longrightarrow> distinct (map fst m)"
  by (auto simp: bt_wf_def strict_sorted_iff)

lemma keys_bt_insert: "set (map fst (bt_insert k v m)) = insert k (set (map fst m))"
  by (induction k v m rule: bt_insert.induct) auto

lemma bt_wf_insert: "bt_wf m \<Longrightarrow> bt_wf (bt_insert k v m)"
proof (induction k v m rule: bt_insert.induct)
  case (1 k v)
  then show ?case by (simp add: bt_wf_def)
next
  case (2 k v k' v' m)
  then show ?case
    using keys_bt_insert [of k v m] by (fastforce simp: bt_wf_def)
qed

lemma bt_wf_remove: "bt_wf m \<Longrightarrow> bt_wf (bt_remove k m)"
  unfolding bt_wf_def bt_remove_def
  by (induction m) auto

lemma map_of_bt_insert: "bt_wf m \<Longrightarrow> map_of (bt_insert k v m) = (map_of m)(k \<mapsto> v)"
  by (induction k v m rule: bt_insert.induct) (auto simp: bt_wf_def fun_eq_iff)

lemma map_of_bt_remove: "map_of (bt_remove k m) = (map_of m)(k := None)"
  by (induction m) (auto simp: bt_remove_def fun_eq_iff)

lemma vals_bt_insert: "snd ` set (bt_insert k v m) \<subseteq> insert v (snd ` set m)"
  by (induction k v m rule: bt_insert.induct) auto

lemma ball_bt_insert:
  "\<forall>p \<in> snd ` set m. P p \<Longrightarrow> P v \<Longrightarrow> \<forall>p \<in> snd ` set (bt_insert k v m). P p"
  using vals_bt_insert [of k v m] by blast

lemma vals_bt_remove: "snd ` set (bt_remove k m) \<subseteq> snd ` set m"
  by (auto simp: bt_remove_def)

lemma ball_bt_remove:
  "\<forall>p \<in> snd ` set m. P p \<Longrightarrow> \<forall>p \<in> snd ` set (bt_remove k m). P p"
  using vals_bt_remove [of k m] by blast

lemma length_bt_remove_le: "length (bt_remove k m) \<le> length m"
  by (simp add: bt_remove_def)

lemma length_card_map_of: "distinct (map fst m) \<Longrightarrow> length m = card (dom (map_of m))"
  by (metis dom_map_of_conv_image_fst distinct_card length_map list.set_map)

interpretation bt: map_store map_of bt_insert bt_remove length bt_wf
proof unfold_locales
  fix m :: "('k::linorder \<times> 'v) list"
  assume "bt_wf m"
  then show "length m = card (dom (map_of m))"
    by (intro length_card_map_of bt_wf_distinct)
qed (simp_all add: map_of_bt_insert map_of_bt_remove bt_wf_insert bt_wf_remove finite_dom_map_of)

text \<open>\<open>std::collections::HashMap\<close>.\<close>

definition hm_wf :: "('k \<times> 'v) list \<Rightarrow> bool" where
  "hm_wf m \<longleftrightarrow> distinct (map fst m)"

text \<open>\<open>HashMap::retain\<close>.\<close>

definition hm_retain :: "('k \<Rightarrow> 'v \<Rightarrow> bool) \<Rightarrow> ('k \<times> 'v) list \<Rightarrow> ('k \<times> 'v) list" where
  "hm_retain P m = filter (\<lambda>(k, v). P k v) m"

interpretation hm: map_store map_of AList.update AList.delete length hm_wf
proof unfold_locales
  fix m :: "('k \<times> 'v) list"
  assume "hm_wf m"
  then show "length m = card (dom (map_of m))"
    unfolding hm_wf_def by (rule length_card_map_of)
qed (simp_all add: hm_wf_def update_conv' delete_conv' distinct_update distinct_delete
       finite_dom_map_of)

lemma hm_wf_retain: "hm_wf m \<Longrightarrow> hm_wf (hm_retain P m)"
  by (induction m) (auto simp: hm_wf_def hm_retain_def)

lemma map_of_hm_retain:
  "hm_wf m \<Longrightarrow> map_of (hm_retain P m) k =
     (case map_of m k of None \<Rightarrow> None | Some v \<Rightarrow> if P k v then Some v else None)"
proof (induction m)
  case Nil
  then show ?case by (simp add: hm_retain_def)
next
  case (Cons e m)
  then have ih: "map_of (hm_retain P m) k =
     (case map_of m k of None \<Rightarrow> None | Some v \<Rightarrow> if P k v then Some v else None)"
    and fresh: "map_of m (fst e) = None"
    by (auto simp: hm_wf_def map_of_eq_None_iff)
  from ih fresh show ?case
    by (cases e) (auto simp: hm_retain_def)
qed

lemma length_hm_retain_le: "length (hm_retain P m) \<le> length m"
  by (simp add: hm_retain_def)

section \<open>Transition systems\<close>

text \<open>
  A component as a transition system: its initial states, its steps, and an invariant that holds
  initially and that every step keeps. The components below instantiate it with the step relation
  of their operations.
\<close>

locale stepper =
  fixes initial :: "'s \<Rightarrow> bool"
    and step :: "'s \<Rightarrow> 's \<Rightarrow> bool"
    and inv :: "'s \<Rightarrow> bool"
  assumes inv_initial: "initial s \<Longrightarrow> inv s"
    and inv_step: "step s t \<Longrightarrow> inv s \<Longrightarrow> inv t"
begin

lemma inv_steps: "step\<^sup>*\<^sup>* s t \<Longrightarrow> inv s \<Longrightarrow> inv t"
  by (induction rule: rtranclp_induct) (auto intro: inv_step)

lemma inv_reachable: "initial s \<Longrightarrow> step\<^sup>*\<^sup>* s t \<Longrightarrow> inv t"
  by (rule inv_steps [OF _ inv_initial])

text \<open>What one step guarantees from the invariant on, every reachable step guarantees.\<close>

lemma steps_guarantee:
  assumes "\<And>s t. step s t \<Longrightarrow> inv s \<Longrightarrow> R s t" and "\<And>s. R s s" and "\<And>s t u. R s t \<Longrightarrow> R t u \<Longrightarrow> R s u"
  shows "step\<^sup>*\<^sup>* s t \<Longrightarrow> inv s \<Longrightarrow> R s t"
proof (induction rule: rtranclp_induct)
  case base
  show ?case by (rule assms(2))
next
  case (step t u)
  then have "inv t" using inv_steps by blast
  with step show ?case using assms(1,3) by blast
qed

end

section \<open>Durations\<close>

text \<open>
  \<open>Duration::from_secs_f64\<close> on a value given in nanoseconds: rounding to the nearest
  nanosecond, ties to even. Floating-point intermediate results are exact rationals here; for
  durations below \<open>2\<^sup>5\<^sup>0\<close> ns the error of the \<open>f64\<close> computation stays below a nanosecond, and
  doubling, the default backoff, is exact.
\<close>

definition round_ns :: "rat \<Rightarrow> duration" where
  "round_ns x =
     (let n = nat \<lfloor>x\<rfloor>; f = x - of_nat n in
      if f < 1 / 2 \<or> (f = 1 / 2 \<and> even n) then n else n + 1)"

definition from_secs :: "nat \<Rightarrow> duration" where "from_secs n = n * 1000000000"
definition from_millis :: "nat \<Rightarrow> duration" where "from_millis n = n * 1000000"

lemma round_ns_of_nat [simp]: "round_ns (of_nat n) = n"
  by (simp add: round_ns_def)

lemma round_ns_le:
  assumes "x \<le> of_nat m"
  shows "round_ns x \<le> m"
proof -
  have "\<lfloor>x\<rfloor> \<le> int m" using assms by (simp add: floor_le_iff)
  then consider "\<lfloor>x\<rfloor> = int m" | "0 \<le> \<lfloor>x\<rfloor>" "\<lfloor>x\<rfloor> < int m" | "\<lfloor>x\<rfloor> < 0" by linarith
  then show ?thesis
  proof cases
    case 1
    then have "of_nat m \<le> x" by (metis of_int_floor_le of_int_of_nat_eq)
    with assms have "x = of_nat m" by simp
    then show ?thesis by simp
  next
    case 2
    then have "nat \<lfloor>x\<rfloor> + 1 \<le> m" by linarith
    then show ?thesis by (simp add: round_ns_def Let_def)
  next
    case 3
    then have "x < 0" by simp
    then show ?thesis using 3 by (simp add: round_ns_def)
  qed
qed

end
