(* ===== verification/Errors.thy ===== *)
theory Errors
  imports CoreVPN_Prelude
begin

text \<open>
  The error enumerations of the crates, with the constructors of the source. An error that
  wraps a foreign error value (\<open>std::io::Error\<close>) carries its message.
\<close>

text \<open>\<open>corevpn_crypto::CryptoError\<close>.\<close>

datatype CryptoError =
    InvalidKeyLength nat nat
  | InvalidSignature
  | DecryptionFailed
  | EncryptionFailed string
  | InvalidNonceLength
  | KeyDerivationFailed string
  | CertificateError string
  | InvalidPem string
  | HmacVerificationFailed
  | ReplayDetected
  | KeyExpired
  | RngFailed

text \<open>\<open>corevpn_core::CoreError\<close>.\<close>

datatype CoreError =
    SessionNotFound string
  | SessionExpired
  | UserNotFound string
  | Unauthorized string
  | AddressPoolExhausted
  | InvalidAddress string
  | ConfigError string
  | CryptoError CryptoError
  | IoError string
  | Internal string

text \<open>\<open>corevpn_protocol::ProtocolError\<close>.\<close>

datatype ProtocolError =
    InvalidPacket string
  | UnknownOpcode u8
  | PacketTooShort nat nat
  | InvalidSessionId
  | SessionNotFound
  | HandshakeFailed string
  | TlsError string
  | AuthFailed string
  | ReplayDetected
  | KeyNotAvailable u8
  | CryptoError CryptoError
  | CoreError CoreError
  | IoError string
  | Timeout
  | ConnectionReset

text \<open>\<open>corevpn_auth::AuthError\<close>.\<close>

datatype AuthError =
    OAuth2Error string
  | TokenValidationFailed string
  | TokenExpired
  | TokenRefreshFailed string
  | InvalidState
  | InvalidNonce
  | ProviderNotConfigured string
  | DiscoveryFailed string
  | UnauthorizedDomain string
  | NotInRequiredGroup
  | UserDisabled
  | SessionNotFound
  | SessionExpired
  | AuthorizationPending
  | DeviceAuthExpired
  | HttpError string
  | SerializationError string
  | ConfigError string

end
