(* ===== verification/Opcode.thy ===== *)
theory Opcode
  imports Errors
begin

text \<open>
  \<open>crates/corevpn-protocol/src/opcode.rs\<close>: the first byte of every packet holds the opcode
  in its high five bits and the key id in its low three.
\<close>

unbundle bit_operations_syntax

datatype OpCode =
    ControlV1
  | AckV1
  | DataV1
  | HardResetClientV2
  | HardResetServerV2
  | SoftResetV1
  | DataV2
  | HardResetClientV3
  | ControlWkcV1

text \<open>The discriminants (\<open>repr(u8)\<close>), that is \<open>self as u8\<close>.\<close>

fun opcode_u8 :: "OpCode \<Rightarrow> u8" where
  "opcode_u8 ControlV1 = 4"
| "opcode_u8 AckV1 = 5"
| "opcode_u8 DataV1 = 6"
| "opcode_u8 HardResetClientV2 = 7"
| "opcode_u8 HardResetServerV2 = 8"
| "opcode_u8 SoftResetV1 = 3"
| "opcode_u8 DataV2 = 9"
| "opcode_u8 HardResetClientV3 = 10"
| "opcode_u8 ControlWkcV1 = 11"

text \<open>\<open>KeyId\<close> is a newtype around \<open>u8\<close>.\<close>

datatype KeyId = KeyId (key_u8: u8)

definition KeyId_new :: "u8 \<Rightarrow> KeyId" where
  "KeyId_new i = KeyId (i AND 0x07)"

definition KeyId_from_byte :: "u8 \<Rightarrow> KeyId" where
  "KeyId_from_byte byte = KeyId (byte AND 0x07)"

definition KeyId_next :: "KeyId \<Rightarrow> KeyId" where
  "KeyId_next k = KeyId ((key_u8 k + 1) AND 0x07)"

definition KeyId_default :: KeyId where
  "KeyId_default = KeyId 0"

definition OpCode_from_byte :: "u8 \<Rightarrow> (ProtocolError, OpCode) res" where
  "OpCode_from_byte byte =
     (let opcode = drop_bit 3 byte in
      if opcode = 3 then Inr SoftResetV1
      else if opcode = 4 then Inr ControlV1
      else if opcode = 5 then Inr AckV1
      else if opcode = 6 then Inr DataV1
      else if opcode = 7 then Inr HardResetClientV2
      else if opcode = 8 then Inr HardResetServerV2
      else if opcode = 9 then Inr DataV2
      else if opcode = 10 then Inr HardResetClientV3
      else if opcode = 11 then Inr ControlWkcV1
      else Inl (Err (UnknownOpcode opcode)))"

definition OpCode_to_byte :: "OpCode \<Rightarrow> KeyId \<Rightarrow> u8" where
  "OpCode_to_byte op k = push_bit 3 (opcode_u8 op) OR (key_u8 k AND 0x07)"

fun is_control :: "OpCode \<Rightarrow> bool" where
  "is_control ControlV1 = True"
| "is_control AckV1 = True"
| "is_control HardResetClientV2 = True"
| "is_control HardResetServerV2 = True"
| "is_control SoftResetV1 = True"
| "is_control HardResetClientV3 = True"
| "is_control ControlWkcV1 = True"
| "is_control _ = False"

fun is_data :: "OpCode \<Rightarrow> bool" where
  "is_data DataV1 = True"
| "is_data DataV2 = True"
| "is_data _ = False"

fun is_hard_reset :: "OpCode \<Rightarrow> bool" where
  "is_hard_reset HardResetClientV2 = True"
| "is_hard_reset HardResetServerV2 = True"
| "is_hard_reset HardResetClientV3 = True"
| "is_hard_reset _ = False"

fun OpCode_fmt :: "OpCode \<Rightarrow> string" where
  "OpCode_fmt ControlV1 = ''P_CONTROL_V1''"
| "OpCode_fmt AckV1 = ''P_ACK_V1''"
| "OpCode_fmt DataV1 = ''P_DATA_V1''"
| "OpCode_fmt HardResetClientV2 = ''P_CONTROL_HARD_RESET_CLIENT_V2''"
| "OpCode_fmt HardResetServerV2 = ''P_CONTROL_HARD_RESET_SERVER_V2''"
| "OpCode_fmt SoftResetV1 = ''P_CONTROL_SOFT_RESET_V1''"
| "OpCode_fmt DataV2 = ''P_DATA_V2''"
| "OpCode_fmt HardResetClientV3 = ''P_CONTROL_HARD_RESET_CLIENT_V3''"
| "OpCode_fmt ControlWkcV1 = ''P_CONTROL_WKC_V1''"

section \<open>Bit layout of the first byte\<close>

lemma mask_0x07: "(0x07 :: u8) = mask 3"
  by (simp add: mask_eq_exp_minus_1)

lemma key_part_cut: "drop_bit 3 (k AND (0x07 :: u8)) = 0"
  by (rule bit_word_eqI) (auto simp: mask_0x07 bit_simps)

lemma opcode_part_fits:
  "drop_bit 3 (push_bit 3 (opcode_u8 op)) = opcode_u8 op"
  by (cases op) simp_all

lemma drop_bit_to_byte: "drop_bit 3 (OpCode_to_byte op k) = opcode_u8 op"
  by (simp only: OpCode_to_byte_def drop_bit_or opcode_part_fits key_part_cut or.right_neutral)

lemma key_of_to_byte: "OpCode_to_byte op k AND 0x07 = key_u8 k AND 0x07"
  by (rule bit_word_eqI) (auto simp: OpCode_to_byte_def mask_0x07 bit_simps)

lemma byte_split: "push_bit 3 (drop_bit 3 b) OR (b AND (0x07 :: u8)) = b"
  by (rule bit_word_eqI) (auto simp: mask_0x07 bit_simps)

lemma OpCode_from_to_byte [simp]: "OpCode_from_byte (OpCode_to_byte op k) = Inr op"
  by (cases op) (simp_all add: OpCode_from_byte_def Let_def drop_bit_to_byte)

lemma KeyId_from_to_byte: "KeyId_from_byte (OpCode_to_byte op k) = KeyId_new (key_u8 k)"
  by (simp only: KeyId_from_byte_def KeyId_new_def key_of_to_byte)

lemma OpCode_from_byte_num:
  "OpCode_from_byte b = Inr op \<Longrightarrow> opcode_u8 op = drop_bit 3 b"
  by (auto simp: OpCode_from_byte_def Let_def split: if_splits)

lemma OpCode_to_from_byte:
  "OpCode_from_byte b = Inr op \<Longrightarrow> OpCode_to_byte op (KeyId_from_byte b) = b"
  by (simp only: OpCode_to_byte_def KeyId_from_byte_def KeyId.sel OpCode_from_byte_num
        and.assoc and.idem byte_split)

lemma OpCode_from_byte_no_panic [simp]: "no_panic (OpCode_from_byte b)"
  by (simp add: OpCode_from_byte_def Let_def)

lemma is_control_iff [simp]: "is_control op \<longleftrightarrow> \<not> is_data op"
  by (cases op) simp_all

text \<open>A key id as the constructors of the module make it.\<close>

definition key_ok :: "KeyId \<Rightarrow> bool" where
  "key_ok k \<longleftrightarrow> key_u8 k < 8"

lemma and_7_less: "(x :: u8) AND 0x07 < 8"
proof -
  have "x AND 0x07 \<le> 0x07" by (rule word_and_le1)
  also have "(0x07 :: u8) < 8" by simp
  finally show ?thesis .
qed

lemma and_7_id: "(x :: u8) < 8 \<Longrightarrow> x AND 0x07 = x"
  by (simp only: mask_0x07 mask_eq_iff) (simp add: word_less_alt)

lemma key_ok_new [simp]: "key_ok (KeyId_new i)"
  by (simp only: key_ok_def KeyId_new_def KeyId.sel and_7_less)

lemma key_ok_from_byte [simp]: "key_ok (KeyId_from_byte b)"
  by (simp only: key_ok_def KeyId_from_byte_def KeyId.sel and_7_less)

lemma key_ok_next [simp]: "key_ok (KeyId_next k)"
  by (simp only: key_ok_def KeyId_next_def KeyId.sel and_7_less)

lemma key_ok_default [simp]: "key_ok KeyId_default"
  by (simp add: key_ok_def KeyId_default_def)

lemma KeyId_new_id [simp]: "key_ok k \<Longrightarrow> KeyId_new (key_u8 k) = k"
  by (cases k) (simp only: key_ok_def KeyId_new_def KeyId.sel and_7_id)

lemma KeyId_from_to_byte_ok [simp]: "key_ok k \<Longrightarrow> KeyId_from_byte (OpCode_to_byte op k) = k"
  by (simp add: KeyId_from_to_byte)

end
