(* ===== verification/Packet.thy ===== *)
theory Packet
  imports Opcode
begin

text \<open>
  \<open>crates/corevpn-protocol/src/packet.rs\<close>: the wire format. Parsers return \<open>Inl Panic\<close>
  where the Rust would index out of range; the lemmas below show that no input reaches that
  case, that a parsed packet serialises back to the bytes it came from, and that every
  well-formed packet survives serialisation.
\<close>

unbundle bit_operations_syntax

section \<open>Data\<close>

type_synonym SessionId = bytes
type_synonym PacketId = u32

record PacketHeader =
  ph_opcode :: OpCode
  ph_key_id :: KeyId
  ph_session_id :: "SessionId option"
  ph_hmac :: "bytes option"
  ph_packet_id :: "PacketId option"
  ph_timestamp :: "u32 option"

record ControlPacketData =
  cp_header :: PacketHeader
  cp_remote_session_id :: "SessionId option"
  cp_acks :: "PacketId list"
  cp_message_packet_id :: "PacketId option"
  cp_payload :: bytes

record DataPacketData =
  dpd_header :: PacketHeader
  dpd_peer_id :: "u32 option"
  dpd_payload :: bytes

datatype Packet = Control ControlPacketData | Data DataPacketData

section \<open>Parsing and serialisation\<close>

text \<open>\<open>PacketHeader::parse\<close>; the offset after the header is the second component.\<close>

definition PacketHeader_parse :: "bytes \<Rightarrow> bool \<Rightarrow> (ProtocolError, PacketHeader \<times> nat) res" where
  "PacketHeader_parse data has_tls_auth =
     (if data = [] then Inl (Err (PacketTooShort 1 0))
      else
        and_then (byte_at data 0) (\<lambda>b0.
        and_then (OpCode_from_byte b0) (\<lambda>opcode.
        let key_id = KeyId_from_byte b0 in
        if is_data opcode then
          Inr (\<lparr>ph_opcode = opcode, ph_key_id = key_id, ph_session_id = None, ph_hmac = None,
                ph_packet_id = None, ph_timestamp = None\<rparr>, 1)
        else
          and_then (ensure (\<not> length data < 9) (PacketTooShort 9 (length data))) (\<lambda>_.
          and_then (byte_range data 1 9) (\<lambda>session_id.
          if has_tls_auth then
            and_then (ensure (\<not> length data < 41) (PacketTooShort 41 (length data))) (\<lambda>_.
            and_then (byte_range data 9 41) (\<lambda>h.
            and_then (ensure (\<not> length data < 45) (PacketTooShort 45 (length data))) (\<lambda>_.
            and_then (byte_range data 41 45) (\<lambda>pid.
            and_then (ensure (\<not> length data < 49) (PacketTooShort 49 (length data))) (\<lambda>_.
            and_then (byte_range data 45 49) (\<lambda>ts.
            Inr (\<lparr>ph_opcode = opcode, ph_key_id = key_id, ph_session_id = Some session_id,
                  ph_hmac = Some h, ph_packet_id = Some (u32_from_be_bytes pid),
                  ph_timestamp = Some (u32_from_be_bytes ts)\<rparr>, 49)))))))
          else
            Inr (\<lparr>ph_opcode = opcode, ph_key_id = key_id, ph_session_id = Some session_id,
                  ph_hmac = None, ph_packet_id = None, ph_timestamp = None\<rparr>, 9))))))"

definition opt_bytes :: "('a \<Rightarrow> bytes) \<Rightarrow> 'a option \<Rightarrow> bytes" where
  "opt_bytes f x = (case x of None \<Rightarrow> [] | Some y \<Rightarrow> f y)"

definition PacketHeader_serialize :: "PacketHeader \<Rightarrow> bytes \<Rightarrow> bytes" where
  "PacketHeader_serialize h buf =
     buf @ [OpCode_to_byte (ph_opcode h) (ph_key_id h)]
         @ opt_bytes id (ph_session_id h)
         @ opt_bytes id (ph_hmac h)
         @ opt_bytes u32_to_be_bytes (ph_packet_id h)
         @ opt_bytes u32_to_be_bytes (ph_timestamp h)"

text \<open>The 24-bit peer id, as shifted together and apart in \<open>packet.rs\<close> and \<open>data.rs\<close>.\<close>

definition peer_id_of :: "u8 \<Rightarrow> u8 \<Rightarrow> u8 \<Rightarrow> u32" where
  "peer_id_of a b c = push_bit 16 (ucast a) OR push_bit 8 (ucast b) OR ucast c"

definition peer_id_bytes :: "u32 \<Rightarrow> bytes" where
  "peer_id_bytes pid = [ucast (drop_bit 16 pid), ucast (drop_bit 8 pid), ucast pid]"

definition MAX_ACK_COUNT :: nat where
  "MAX_ACK_COUNT = 16"

text \<open>The loop \<open>for _ in 0..ack_count\<close>.\<close>

fun parse_acks :: "nat \<Rightarrow> bytes \<Rightarrow> nat \<Rightarrow> (ProtocolError, PacketId list \<times> nat) res" where
  "parse_acks 0 data offset = Inr ([], offset)"
| "parse_acks (Suc n) data offset =
     and_then (ensure (\<not> length data < offset + 4) (PacketTooShort (offset + 4) (length data))) (\<lambda>_.
     and_then (byte_range data offset (offset + 4)) (\<lambda>bs.
     and_then (parse_acks n data (offset + 4)) (\<lambda>(acks, offset').
     Inr (u32_from_be_bytes bs # acks, offset'))))"

definition ack_count_message :: "nat \<Rightarrow> string" where
  "ack_count_message n =
     ''ACK count '' @ string_of_nat n @ '' exceeds maximum '' @ string_of_nat MAX_ACK_COUNT"

definition Packet_parse_data :: "bytes \<Rightarrow> PacketHeader \<Rightarrow> nat \<Rightarrow> (ProtocolError, Packet) res" where
  "Packet_parse_data data header offset =
     and_then
       (if ph_opcode header = DataV2 then
          and_then (ensure (\<not> length data < offset + 3) (PacketTooShort (offset + 3) (length data))) (\<lambda>_.
          and_then (byte_at data offset) (\<lambda>a.
          and_then (byte_at data (offset + 1)) (\<lambda>b.
          and_then (byte_at data (offset + 2)) (\<lambda>c.
          Inr (Some (peer_id_of a b c), offset + 3)))))
        else Inr (None, offset)) (\<lambda>(peer_id, offset).
     and_then (ensure (\<not> offset > length data) (PacketTooShort offset (length data))) (\<lambda>_.
     and_then (byte_range data offset (length data)) (\<lambda>payload.
     Inr (Data \<lparr>dpd_header = header, dpd_peer_id = peer_id, dpd_payload = payload\<rparr>))))"

definition Packet_parse_control :: "bytes \<Rightarrow> PacketHeader \<Rightarrow> nat \<Rightarrow> (ProtocolError, Packet) res" where
  "Packet_parse_control data header offset =
     and_then (ensure (\<not> length data < offset + 1) (PacketTooShort (offset + 1) (length data))) (\<lambda>_.
     and_then (byte_at data offset) (\<lambda>cnt.
     let ack_count = unat cnt in
     and_then (ensure (\<not> ack_count > MAX_ACK_COUNT) (InvalidPacket (ack_count_message ack_count))) (\<lambda>_.
     let offset = offset + 1 in
     and_then
       (if ack_count > 0 then
          and_then (parse_acks ack_count data offset) (\<lambda>(acks, offset).
          and_then (ensure (\<not> length data < offset + 8) (PacketTooShort (offset + 8) (length data))) (\<lambda>_.
          and_then (byte_range data offset (offset + 8)) (\<lambda>rsid.
          Inr (acks, Some rsid, offset + 8))))
        else Inr ([], None, offset)) (\<lambda>(acks, remote_session_id, offset).
     and_then
       (if ph_opcode header \<noteq> AckV1 \<and> length data \<ge> offset + 4 then
          and_then (byte_range data offset (offset + 4)) (\<lambda>bs.
          Inr (Some (u32_from_be_bytes bs), offset + 4))
        else Inr (None, offset)) (\<lambda>(message_packet_id, offset).
     and_then
       (if offset < length data then byte_range data offset (length data) else Inr []) (\<lambda>payload.
     Inr (Control \<lparr>cp_header = header, cp_remote_session_id = remote_session_id, cp_acks = acks,
                   cp_message_packet_id = message_packet_id, cp_payload = payload\<rparr>)))))))"

text \<open>\<open>Packet::parse\<close>, with the two halves of its body above.\<close>

definition Packet_parse :: "bytes \<Rightarrow> bool \<Rightarrow> (ProtocolError, Packet) res" where
  "Packet_parse data has_tls_auth =
     and_then (PacketHeader_parse data has_tls_auth) (\<lambda>(header, offset).
     if is_data (ph_opcode header) then Packet_parse_data data header offset
     else Packet_parse_control data header offset)"

text \<open>\<open>Packet::serialize\<close>; the acknowledgement count is \<open>acks.len() as u8\<close>.\<close>

fun Packet_serialize :: "Packet \<Rightarrow> bytes" where
  "Packet_serialize (Control ctrl) =
     PacketHeader_serialize (cp_header ctrl) []
     @ [of_nat (length (cp_acks ctrl))]
     @ concat (map u32_to_be_bytes (cp_acks ctrl))
     @ (if cp_acks ctrl \<noteq> [] then opt_bytes id (cp_remote_session_id ctrl) else [])
     @ opt_bytes u32_to_be_bytes (cp_message_packet_id ctrl)
     @ cp_payload ctrl"
| "Packet_serialize (Data d) =
     PacketHeader_serialize (dpd_header d) []
     @ opt_bytes peer_id_bytes (dpd_peer_id d)
     @ dpd_payload d"

fun Packet_opcode :: "Packet \<Rightarrow> OpCode" where
  "Packet_opcode (Control c) = ph_opcode (cp_header c)"
| "Packet_opcode (Data d) = ph_opcode (dpd_header d)"

fun Packet_key_id :: "Packet \<Rightarrow> KeyId" where
  "Packet_key_id (Control c) = ph_key_id (cp_header c)"
| "Packet_key_id (Data d) = ph_key_id (dpd_header d)"

section \<open>No input makes the parser panic\<close>

lemma PacketHeader_parse_no_panic: "no_panic (PacketHeader_parse data tls)"
  by (auto simp: PacketHeader_parse_def Let_def res_simps intro!: no_panic_intros)

lemma parse_acks_no_panic: "no_panic (parse_acks n data offset)"
  by (induction n data offset rule: parse_acks.induct)
     (auto simp: res_simps intro!: no_panic_intros split: prod.splits)

lemma Packet_parse_data_no_panic: "no_panic (Packet_parse_data data header offset)"
  by (auto simp: Packet_parse_data_def res_simps intro!: no_panic_intros split: prod.splits)

lemma Packet_parse_control_no_panic: "no_panic (Packet_parse_control data header offset)"
  by (auto simp: Packet_parse_control_def Let_def res_simps parse_acks_no_panic
        intro!: no_panic_intros split: prod.splits)

lemma Packet_parse_no_panic: "no_panic (Packet_parse data tls)"
  by (auto simp: Packet_parse_def PacketHeader_parse_no_panic Packet_parse_data_no_panic
        Packet_parse_control_no_panic intro!: no_panic_intros)

section \<open>Well-formed packets\<close>

text \<open>The fields that the fixed-size arrays and the opcode determine.\<close>

definition header_ok :: "bool \<Rightarrow> PacketHeader \<Rightarrow> bool" where
  "header_ok tls h \<longleftrightarrow> key_ok (ph_key_id h) \<and>
     (if is_data (ph_opcode h) then
        ph_session_id h = None \<and> ph_hmac h = None \<and> ph_packet_id h = None \<and> ph_timestamp h = None
      else
        (\<exists>sid. ph_session_id h = Some sid \<and> length sid = 8) \<and>
        (if tls then
           (\<exists>m. ph_hmac h = Some m \<and> length m = 32) \<and> ph_packet_id h \<noteq> None \<and> ph_timestamp h \<noteq> None
         else ph_hmac h = None \<and> ph_packet_id h = None \<and> ph_timestamp h = None))"

definition control_ok :: "bool \<Rightarrow> ControlPacketData \<Rightarrow> bool" where
  "control_ok tls c \<longleftrightarrow>
     header_ok tls (cp_header c) \<and> \<not> is_data (ph_opcode (cp_header c)) \<and>
     length (cp_acks c) \<le> MAX_ACK_COUNT \<and>
     (if cp_acks c = [] then cp_remote_session_id c = None
      else (\<exists>r. cp_remote_session_id c = Some r \<and> length r = 8)) \<and>
     (if ph_opcode (cp_header c) = AckV1 then cp_message_packet_id c = None
      else cp_message_packet_id c \<noteq> None \<or> length (cp_payload c) < 4)"

definition data_ok :: "DataPacketData \<Rightarrow> bool" where
  "data_ok d \<longleftrightarrow>
     header_ok False (dpd_header d) \<and> is_data (ph_opcode (dpd_header d)) \<and>
     (if ph_opcode (dpd_header d) = DataV2
      then (\<exists>pid. dpd_peer_id d = Some pid \<and> pid < 2 ^ 24)
      else dpd_peer_id d = None)"

fun packet_ok :: "bool \<Rightarrow> Packet \<Rightarrow> bool" where
  "packet_ok tls (Control c) = control_ok tls c"
| "packet_ok tls (Data d) = data_ok d"

section \<open>Parsed bytes are reproduced by serialisation\<close>

lemma PacketHeader_parse_layout:
  assumes "PacketHeader_parse data tls = Inr (h, off)"
  shows "PacketHeader_serialize h [] = take off data" and "off \<le> length data"
    and "header_ok tls h"
proof -
  from assms obtain b0 rest where data: "data = b0 # rest"
    by (cases data) (auto simp: PacketHeader_parse_def)
  show "PacketHeader_serialize h [] = take off data"
    using assms unfolding data
    by (auto simp: PacketHeader_parse_def PacketHeader_serialize_def opt_bytes_def Let_def res_simps
          OpCode_to_from_byte range_joins split: if_splits)
  show "off \<le> length data"
    using assms unfolding data
    by (auto simp: PacketHeader_parse_def Let_def res_simps split: if_splits)
  show "header_ok tls h"
    using assms unfolding data
    by (auto simp: PacketHeader_parse_def header_ok_def Let_def res_simps split: if_splits)
qed

lemma parse_acks_layout:
  "parse_acks n data off = Inr (acks, off') \<Longrightarrow> off \<le> length data \<Longrightarrow>
     length acks = n \<and> off' = off + 4 * n \<and> off' \<le> length data \<and>
     concat (map u32_to_be_bytes acks) = take (4 * n) (drop off data)"
proof (induction n data off arbitrary: acks off' rule: parse_acks.induct)
  case (1 data offset)
  then show ?case by simp
next
  case (2 n data offset)
  from "2.prems" obtain rest where len: "offset + 4 \<le> length data"
    and rest: "parse_acks n data (offset + 4) = Inr (rest, off')"
    and acks: "acks = u32_from_be_bytes (take 4 (drop offset data)) # rest"
    by (auto simp: res_simps split: prod.splits)
  have "length rest = n \<and> off' = offset + 4 + 4 * n \<and> off' \<le> length data \<and>
     concat (map u32_to_be_bytes rest) = take (4 * n) (drop (offset + 4) data)"
    by (rule "2.IH" [OF rest len])
  moreover have "take 4 (drop offset data) @ take (4 * n) (drop (offset + 4) data)
      = take (4 + 4 * n) (drop offset data)"
    by (rule range_join) simp
  ultimately show ?case
    using len by (simp add: acks u32_range_id)
qed

lemma peer_id_bytes_of [simp]: "peer_id_bytes (peer_id_of a b c) = [a, b, c]"
  unfolding peer_id_bytes_def peer_id_of_def list.inject
  by (intro conjI refl; rule bit_word_eqI; simp add: bit_simps)

lemma peer_id_of_less: "peer_id_of a b c < 2 ^ 24"
proof -
  have "peer_id_of a b c AND mask 24 = peer_id_of a b c"
  proof (rule bit_word_eqI)
    fix n
    show "bit (peer_id_of a b c AND mask 24) n = bit (peer_id_of a b c) n"
      by (cases "24 \<le> n") (auto simp: peer_id_of_def bit_simps)
  qed
  then show ?thesis
    by (simp only: mask_eq_iff) (simp add: word_less_alt)
qed

lemma three_bytes: "off + 3 \<le> length d \<Longrightarrow> take 3 (drop off d) = [d ! off, d ! (off + 1), d ! (off + 2)]"
  by (simp add: numeral_3_eq_3 take_Suc_conv_app_nth)

lemma Packet_parse_data_layout:
  assumes "Packet_parse_data data h off = Inr p"
    and "PacketHeader_serialize h [] = take off data"
  shows "Packet_serialize p = data"
proof (cases "ph_opcode h = DataV2")
  case True
  with assms(1) obtain len: "off + 3 \<le> length data"
    and p: "p = Data \<lparr>dpd_header = h,
       dpd_peer_id = Some (peer_id_of (data ! off) (data ! (off + 1)) (data ! (off + 2))),
       dpd_payload = drop (off + 3) data\<rparr>"
    by (auto simp: Packet_parse_data_def res_simps)
  have "Packet_serialize p = take off data @ take 3 (drop off data) @ drop (off + 3) data"
    using len by (simp add: p assms(2) opt_bytes_def three_bytes)
  then show ?thesis
    by (simp add: range_joins)
next
  case False
  with assms show ?thesis
    by (auto simp: Packet_parse_data_def res_simps opt_bytes_def)
qed

lemma drop_at_byte: "off < length d \<Longrightarrow> [d ! off] @ drop (off + 1) d = drop off d"
  by (simp add: Cons_nth_drop_Suc)

lemma Packet_parse_control_layout:
  assumes parse: "Packet_parse_control data h off = Inr p"
    and hdr: "PacketHeader_serialize h [] = take off data"
  shows "Packet_serialize p = data"
proof -
  let ?n = "unat (data ! off)"
  from parse obtain acks rsid off1 mpid off2 payload where
    len: "off < length data" and cnt: "?n \<le> MAX_ACK_COUNT"
    and acks: "(if ?n > 0 then
          and_then (parse_acks ?n data (off + 1)) (\<lambda>(acks, offset).
          and_then (ensure (\<not> length data < offset + 8) (PacketTooShort (offset + 8) (length data))) (\<lambda>_.
          and_then (byte_range data offset (offset + 8)) (\<lambda>rsid. Inr (acks, Some rsid, offset + 8))))
        else Inr ([], None, off + 1)) = Inr (acks, rsid, off1)"
    and mpid: "(if ph_opcode h \<noteq> AckV1 \<and> length data \<ge> off1 + 4 then
          and_then (byte_range data off1 (off1 + 4)) (\<lambda>bs. Inr (Some (u32_from_be_bytes bs), off1 + 4))
        else Inr (None, off1)) = Inr (mpid, off2)"
    and payload: "payload = (if off2 < length data then drop off2 data else [])"
    and p: "p = Control \<lparr>cp_header = h, cp_remote_session_id = rsid, cp_acks = acks,
                   cp_message_packet_id = mpid, cp_payload = payload\<rparr>"
    unfolding Packet_parse_control_def Let_def
    by (auto simp: res_simps split: prod.splits if_splits)
  have acks_bytes: "length acks = ?n \<and> off1 \<le> length data \<and>
     concat (map u32_to_be_bytes acks) @ (if acks \<noteq> [] then opt_bytes id rsid else []) @ drop off1 data
       = drop (off + 1) data"
  proof (cases "?n > 0")
    case True
    with acks obtain o1 where pa: "parse_acks ?n data (off + 1) = Inr (acks, o1)"
      and o1: "o1 + 8 \<le> length data" and r: "rsid = Some (take 8 (drop o1 data))" "off1 = o1 + 8"
      by (auto simp: res_simps split: prod.splits)
    from parse_acks_layout [OF pa] len
    have "length acks = ?n \<and> o1 = off + 1 + 4 * ?n \<and>
        concat (map u32_to_be_bytes acks) = take (4 * ?n) (drop (off + 1) data)"
      by auto
    moreover from this True have "acks \<noteq> []" by auto
    ultimately show ?thesis
      using o1 by (simp add: r opt_bytes_def range_joins)
  next
    case False
    with acks len show ?thesis by auto
  qed
  have tail: "opt_bytes u32_to_be_bytes mpid @ payload = drop off1 data"
    using mpid unfolding payload
    by (auto simp: res_simps opt_bytes_def range_joins u32_range_id split: if_splits)
  have "Packet_serialize p = take off data @ [of_nat ?n] @ drop (off + 1) data"
    using acks_bytes tail by (auto simp: p hdr)
  also have "of_nat ?n = data ! off"
    by simp
  finally show ?thesis
    using len by (simp only: drop_at_byte append_take_drop_id)
qed

lemma Packet_serialize_of_parse:
  assumes "Packet_parse data tls = Inr p"
  shows "Packet_serialize p = data"
proof -
  from assms obtain h off where h: "PacketHeader_parse data tls = Inr (h, off)"
    and p: "(if is_data (ph_opcode h) then Packet_parse_data data h off
             else Packet_parse_control data h off) = Inr p"
    by (auto simp: Packet_parse_def res_simps)
  show ?thesis
    using p PacketHeader_parse_layout(1) [OF h]
    by (auto intro: Packet_parse_data_layout Packet_parse_control_layout split: if_splits)
qed

section \<open>Well-formed packets survive serialisation\<close>

lemma PacketHeader_parse_serialize:
  assumes "header_ok tls h"
  shows "PacketHeader_parse (PacketHeader_serialize h [] @ rest) tls
           = Inr (h, length (PacketHeader_serialize h []))"
proof (cases "is_data (ph_opcode h)")
  case True
  with assms show ?thesis
    by (cases h) (auto simp: header_ok_def PacketHeader_parse_def PacketHeader_serialize_def opt_bytes_def)
next
  case False
  with assms obtain sid where sid: "ph_session_id h = Some sid" "length sid = 8"
    by (auto simp: header_ok_def)
  show ?thesis
  proof (cases tls)
    case True
    with assms False obtain m pid ts where
      "ph_hmac h = Some m" "length m = 32" "ph_packet_id h = Some pid" "ph_timestamp h = Some ts"
      by (auto simp: header_ok_def)
    with True False sid assms show ?thesis
      by (cases h) (auto simp: header_ok_def PacketHeader_parse_def PacketHeader_serialize_def opt_bytes_def)
  next
    case False
    with \<open>\<not> is_data (ph_opcode h)\<close> sid assms show ?thesis
      by (cases h) (auto simp: header_ok_def PacketHeader_parse_def PacketHeader_serialize_def opt_bytes_def)
  qed
qed

lemma parse_acks_serialize:
  "parse_acks (length acks) (pre @ concat (map u32_to_be_bytes acks) @ rest) (length pre)
     = Inr (acks, length pre + 4 * length acks)"
proof (induction acks arbitrary: pre)
  case Nil
  then show ?case by simp
next
  case (Cons a acks)
  from Cons.IH [of "pre @ u32_to_be_bytes a"] show ?case
    by (simp add: add.commute)
qed

lemma length_concat_be [simp, layout_simps]:
  "length (concat (map u32_to_be_bytes acks)) = 4 * length acks"
  by (induction acks) simp_all

lemma peer_id_of_bytes:
  assumes "pid < 2 ^ 24"
  shows "peer_id_of (ucast (drop_bit 16 pid)) (ucast (drop_bit 8 pid)) (ucast pid) = pid"
proof (rule bit_word_eqI)
  fix n
  have "pid AND mask 24 = pid"
    using assms by (simp only: mask_eq_iff) (simp add: word_less_alt)
  then have cut: "bit pid n \<Longrightarrow> n < 24"
    by (metis bit_and_iff bit_mask_iff)
  consider "n < 8" | "8 \<le> n" "n < 16" | "16 \<le> n" "n < 24" | "24 \<le> n" by linarith
  then show "bit (peer_id_of (ucast (drop_bit 16 pid)) (ucast (drop_bit 8 pid)) (ucast pid)) n = bit pid n"
    using cut by cases (auto simp: peer_id_of_def bit_simps)
qed

lemma Packet_parse_data_serialize:
  assumes "data_ok d"
  shows "Packet_parse (Packet_serialize (Data d)) tls = Inr (Data d)"
proof -
  obtain h p pl where d: "d = \<lparr>dpd_header = h, dpd_peer_id = p, dpd_payload = pl\<rparr>"
    by (cases d)
  from assms have h: "header_ok tls h" and op: "is_data (ph_opcode h)"
    by (auto simp: data_ok_def header_ok_def d)
  show ?thesis
  proof (cases "ph_opcode h = DataV2")
    case True
    with assms obtain pid where "p = Some pid" "pid < 2 ^ 24"
      by (auto simp: data_ok_def d)
    with True show ?thesis
      by (simp add: d Packet_parse_def PacketHeader_parse_serialize [OF h] Packet_parse_data_def
            opt_bytes_def peer_id_bytes_def nth_append peer_id_of_bytes)
  next
    case False
    with assms op show ?thesis
      by (simp add: d Packet_parse_def PacketHeader_parse_serialize [OF h] Packet_parse_data_def
            opt_bytes_def data_ok_def)
  qed
qed

text \<open>The acknowledgement block: count, ids and, if there are any, the remote session id.\<close>

definition ack_block :: "PacketId list \<Rightarrow> SessionId option \<Rightarrow> bytes" where
  "ack_block acks rsid =
     [of_nat (length acks)] @ concat (map u32_to_be_bytes acks)
       @ (if acks \<noteq> [] then opt_bytes id rsid else [])"

lemma Packet_serialize_Control:
  "Packet_serialize (Control c) =
     PacketHeader_serialize (cp_header c) [] @ ack_block (cp_acks c) (cp_remote_session_id c)
       @ opt_bytes u32_to_be_bytes (cp_message_packet_id c) @ cp_payload c"
  by (simp add: ack_block_def)

lemma Packet_parse_control_serialize:
  assumes "control_ok tls c"
  shows "Packet_parse (Packet_serialize (Control c)) tls = Inr (Control c)"
proof -
  obtain h rs acks mp pl where c: "c = \<lparr>cp_header = h, cp_remote_session_id = rs, cp_acks = acks,
      cp_message_packet_id = mp, cp_payload = pl\<rparr>"
    by (cases c)
  let ?H = "PacketHeader_serialize h []" and ?M = "opt_bytes u32_to_be_bytes mp"
  from assms have h: "header_ok tls h" and op: "\<not> is_data (ph_opcode h)"
    and n: "length acks \<le> 16"
    by (auto simp: control_ok_def MAX_ACK_COUNT_def c)
  have cnt: "unat (of_nat (length acks) :: u8) = length acks"
    using n by (intro unat_u8_of_nat) simp
  have mp: "if ph_opcode h = AckV1 then mp = None else mp \<noteq> None \<or> length pl < 4"
    using assms by (auto simp: control_ok_def c split: if_splits)
  show ?thesis
  proof (cases "acks = []")
    case True
    with assms mp op show ?thesis
      by (cases mp) (auto simp: c Packet_parse_def PacketHeader_parse_serialize [OF h] Packet_parse_control_def
            opt_bytes_def MAX_ACK_COUNT_def control_ok_def nth_append split: if_splits)
  next
    case False
    with assms obtain r where r: "rs = Some r" "length r = 8"
      by (auto simp: control_ok_def c)
    have pa: "parse_acks (length acks)
        (?H @ of_nat (length acks) # concat (map u32_to_be_bytes acks) @ rest) (Suc (length ?H))
        = Inr (acks, Suc (length ?H) + 4 * length acks)" for rest
      using parse_acks_serialize [of acks "?H @ [of_nat (length acks)]" rest] by simp
    from False r mp op n show ?thesis
      by (cases mp) (auto simp: c Packet_parse_def PacketHeader_parse_serialize [OF h] Packet_parse_control_def
            opt_bytes_def MAX_ACK_COUNT_def Let_def nth_append cnt pa drop_Cons' split: if_splits)
  qed
qed

section \<open>Properties\<close>

text \<open>
  C4. \<open>Packet::parse\<close> is total: on every datagram, with or without tls-auth, it returns a packet
  or a protocol error, and never indexes out of range.
\<close>

theorem packet_parse_total:
  "(\<exists>p. Packet_parse data tls = Inr p) \<or> (\<exists>e. Packet_parse data tls = Inl (Err e))"
  using Packet_parse_no_panic [of data tls] by (simp only: no_panic_iff)

text \<open>
  C2. Parsing loses nothing: a datagram that parses, as a control or as a data packet, is
  reproduced byte for byte by serialising the result.
\<close>

theorem packet_serialize_parse:
  "Packet_parse data tls = Inr p \<Longrightarrow> Packet_serialize p = data"
  by (rule Packet_serialize_of_parse)

definition sample_control :: ControlPacketData where
  "sample_control =
     \<lparr>cp_header = \<lparr>ph_opcode = ControlV1, ph_key_id = KeyId 2,
        ph_session_id = Some [1, 2, 3, 4, 5, 6, 7, 8], ph_hmac = None, ph_packet_id = None,
        ph_timestamp = None\<rparr>,
      cp_remote_session_id = Some [8, 7, 6, 5, 4, 3, 2, 1], cp_acks = [5, 6],
      cp_message_packet_id = Some 258, cp_payload = [22, 3, 1]\<rparr>"

definition sample_control_bytes :: bytes where
  "sample_control_bytes =
     [34, 1, 2, 3, 4, 5, 6, 7, 8, 2, 0, 0, 0, 5, 0, 0, 0, 6, 8, 7, 6, 5, 4, 3, 2, 1, 0, 0, 1, 2, 22, 3, 1]"

theorem packet_serialize_parse_witness:
  "Packet_serialize (Control sample_control) = sample_control_bytes"
proof (rule packet_serialize_parse)
  show "Packet_parse sample_control_bytes False = Inr (Control sample_control)"
    by code_simp
qed

text \<open>
  C3. Every well-formed packet survives the wire: its header fields are those its opcode calls
  for, it has at most 16 acknowledgements, with a remote session id iff there are any, and its
  peer id, if it has one, fits in 24 bits.
\<close>

theorem packet_parse_serialize:
  "packet_ok tls p \<Longrightarrow> Packet_parse (Packet_serialize p) tls = Inr p"
  by (cases p) (simp_all add: Packet_parse_data_serialize Packet_parse_control_serialize
       del: Packet_serialize.simps)

theorem packet_parse_serialize_witness:
  "Packet_parse (Packet_serialize (Control sample_control)) False = Inr (Control sample_control)"
proof (rule packet_parse_serialize)
  show "packet_ok False (Control sample_control)"
    by (simp add: sample_control_def control_ok_def header_ok_def key_ok_def MAX_ACK_COUNT_def)
qed

text \<open>
  The serialiser has no such limit: a control packet with 17 to 255 acknowledgements is
  serialised without error, and the parser of the peer rejects the bytes.
\<close>

theorem packet_too_many_acks_rejected:
  assumes "header_ok tls (cp_header c)" and "\<not> is_data (ph_opcode (cp_header c))"
    and "16 < length (cp_acks c)" and "length (cp_acks c) < 256"
  shows "Packet_parse (Packet_serialize (Control c)) tls
           = Inl (Err (InvalidPacket (ack_count_message (length (cp_acks c)))))"
  using assms
  by (simp add: Packet_parse_def PacketHeader_parse_serialize Packet_parse_control_def
        MAX_ACK_COUNT_def nth_append unat_u8_of_nat)

theorem packet_too_many_acks_rejected_witness:
  "Packet_parse (Packet_serialize (Control (sample_control\<lparr>cp_acks := replicate 17 1\<rparr>))) False
     = Inl (Err (InvalidPacket (ack_count_message 17)))"
  using packet_too_many_acks_rejected [of False "sample_control\<lparr>cp_acks := replicate 17 1\<rparr>"]
  by (simp add: sample_control_def header_ok_def key_ok_def del: Packet_serialize.simps)

end
