(* ===== verification/Replay_Window.thy ===== *)
theory Replay_Window
  imports CoreVPN_Prelude
begin

text \<open>
  The contract of a sliding replay window. Two components have one: the data channel
  (\<open>crates/corevpn-crypto/src/cipher.rs\<close>, 64-bit ids, 128 bits) and the tls-auth layer
  (\<open>crates/corevpn-protocol/src/session.rs\<close>, 32-bit ids, 64 bits).

  The specification is a set of accepted ids: an id is accepted unless it is zero, has been
  accepted before, or lies \<open>W\<close> or more behind the highest accepted one. The locale states what
  one call does to the bitmap; inside it the bitmap is shown to implement the set.
\<close>

section \<open>Specification\<close>

definition spec_check :: "nat \<Rightarrow> nat set \<Rightarrow> nat \<Rightarrow> bool \<times> nat set" where
  "spec_check W A i =
     (if i \<noteq> 0 \<and> i \<notin> A \<and> Max (insert 0 A) < i + W then (True, insert i A) else (False, A))"

fun spec_run :: "nat \<Rightarrow> nat set \<Rightarrow> nat list \<Rightarrow> bool list" where
  "spec_run W A [] = []"
| "spec_run W A (i # is) =
     (let (b, A') = spec_check W A i in b # spec_run W A' is)"

text \<open>The decisions of a window over a sequence of ids.\<close>

fun window_run :: "('w \<Rightarrow> 'i \<Rightarrow> bool \<times> 'w) \<Rightarrow> 'w \<Rightarrow> 'i list \<Rightarrow> bool list" where
  "window_run check w [] = []"
| "window_run check w (i # is) =
     (let (b, w') = check w i in b # window_run check w' is)"

definition accepted :: "bool list \<Rightarrow> 'i list \<Rightarrow> 'i list" where
  "accepted bs is = map snd (filter fst (zip bs is))"

lemma length_spec_run [simp]: "length (spec_run W A is) = length is"
  by (induction "is" arbitrary: A) (auto simp: Let_def split: prod.splits)

lemma length_window_run [simp]: "length (window_run check w is) = length is"
  by (induction "is" arbitrary: w) (auto simp: Let_def split: prod.splits)

lemma accepted_Nil [simp]: "accepted [] [] = []"
  by (simp add: accepted_def)

lemma accepted_Cons [simp]:
  "accepted (b # bs) (i # is) = (if b then i # accepted bs is else accepted bs is)"
  by (simp add: accepted_def)

lemma accepted_map: "accepted bs (map f is) = map f (accepted bs is)"
  by (simp add: accepted_def zip_map2 filter_map comp_def split_beta)

lemma spec_run_fresh:
  "distinct (accepted (spec_run W A is) is) \<and> set (accepted (spec_run W A is) is) \<inter> insert 0 A = {}"
proof (induction "is" arbitrary: A)
  case Nil
  then show ?case by simp
next
  case (Cons i "is")
  from Cons.IH [of "insert i A"] Cons.IH [of A] show ?case
    by (auto simp: spec_check_def)
qed

section \<open>The interface\<close>

locale replay_window =
  fixes check :: "'w \<Rightarrow> 'l::len word \<Rightarrow> bool \<times> 'w"
    and fresh :: 'w
    and top :: "'w \<Rightarrow> nat"
    and mark :: "'w \<Rightarrow> nat \<Rightarrow> bool"
    and W :: nat
  assumes W_pos: "0 < W"
    and fresh_top: "top fresh = 0"
    and fresh_mark: "\<not> mark fresh n"
    and check_zero: "check w 0 = (False, w)"
    and check_ahead: "top w < unat i \<Longrightarrow> \<exists>w'. check w i = (True, w') \<and> top w' = unat i \<and>
      (\<forall>n < W. mark w' n \<longleftrightarrow> n = 0 \<or> unat i - top w \<le> n \<and> mark w (n - (unat i - top w)))"
    and check_behind: "i \<noteq> 0 \<Longrightarrow> unat i \<le> top w \<Longrightarrow> W \<le> top w - unat i \<Longrightarrow> check w i = (False, w)"
    and check_seen: "i \<noteq> 0 \<Longrightarrow> unat i \<le> top w \<Longrightarrow> top w - unat i < W \<Longrightarrow>
      mark w (top w - unat i) \<Longrightarrow> check w i = (False, w)"
    and check_unseen: "i \<noteq> 0 \<Longrightarrow> unat i \<le> top w \<Longrightarrow> top w - unat i < W \<Longrightarrow>
      \<not> mark w (top w - unat i) \<Longrightarrow>
      \<exists>w'. check w i = (True, w') \<and> top w' = top w \<and>
        (\<forall>n < W. mark w' n \<longleftrightarrow> n = top w - unat i \<or> mark w n)"
begin

text \<open>The window represents the set: its top is the maximum, its marks are the recent members.\<close>

definition represents :: "'w \<Rightarrow> nat set \<Rightarrow> bool" where
  "represents w A \<longleftrightarrow> finite A \<and> 0 \<notin> A \<and> top w = Max (insert 0 A) \<and>
     (\<forall>n < W. mark w n \<longleftrightarrow> n \<le> top w \<and> top w - n \<in> A)"

lemma represents_fresh: "represents fresh {}"
  by (simp add: represents_def fresh_top fresh_mark)

lemma represents_bound: "represents w A \<Longrightarrow> a \<in> A \<Longrightarrow> a \<le> top w"
  by (simp add: represents_def)

lemma refine_ahead:
  assumes r: "represents w A" and i: "top w < unat i"
  shows "\<exists>w'. check w i = (True, w') \<and> represents w' (insert (unat i) A)"
proof -
  obtain w' where w': "check w i = (True, w')" "top w' = unat i"
    "\<And>n. n < W \<Longrightarrow> mark w' n \<longleftrightarrow> n = 0 \<or> unat i - top w \<le> n \<and> mark w (n - (unat i - top w))"
    using check_ahead [OF i] by auto
  have fin: "finite A" "0 \<notin> A" and le: "\<And>a. a \<in> A \<Longrightarrow> a \<le> top w"
    and mk: "\<And>n. n < W \<Longrightarrow> mark w n \<longleftrightarrow> n \<le> top w \<and> top w - n \<in> A"
    using r represents_bound [OF r] by (auto simp: represents_def)
  have "Max (insert 0 (insert (unat i) A)) = unat i"
    using fin le i by (intro Max_eqI) (auto intro: less_imp_le order.strict_trans1)
  moreover have "mark w' n \<longleftrightarrow> n \<le> unat i \<and> unat i - n \<in> insert (unat i) A" if n: "n < W" for n
  proof (cases "unat i - top w \<le> n")
    case True
    have "n - (unat i - top w) \<le> top w \<longleftrightarrow> n \<le> unat i"
      using True i by linarith
    moreover have "top w - (n - (unat i - top w)) = unat i - n" if "n \<le> unat i"
      using True i that by linarith
    ultimately show ?thesis
      using w'(3) [OF n] mk [of "n - (unat i - top w)"] True n i by auto
  next
    case False
    then have "unat i - n \<notin> A" if "n \<noteq> 0"
      using le [of "unat i - n"] i by auto
    then show ?thesis
      using w'(3) [OF n] False i fin by auto
  qed
  ultimately show ?thesis
    using w' i fin by (intro exI [of _ w']) (auto simp: represents_def)
qed

lemma refine_unseen:
  assumes r: "represents w A" and i: "i \<noteq> 0" "unat i \<le> top w" "top w - unat i < W" "unat i \<notin> A"
  shows "\<exists>w'. check w i = (True, w') \<and> represents w' (insert (unat i) A)"
proof -
  have mk: "\<And>n. n < W \<Longrightarrow> mark w n \<longleftrightarrow> n \<le> top w \<and> top w - n \<in> A"
    and fin: "finite A" "0 \<notin> A" "top w = Max (insert 0 A)"
    using r by (auto simp: represents_def)
  have "\<not> mark w (top w - unat i)"
    using mk [OF i(3)] i by simp
  then obtain w' where w': "check w i = (True, w')" "top w' = top w"
    "\<And>n. n < W \<Longrightarrow> mark w' n \<longleftrightarrow> n = top w - unat i \<or> mark w n"
    using check_unseen [OF i(1-3)] by auto
  have "Max (insert 0 (insert (unat i) A)) = Max (insert (unat i) (insert 0 A))"
    by (simp add: insert_commute)
  also have "\<dots> = top w"
    using fin i(2) by simp
  finally have "Max (insert 0 (insert (unat i) A)) = top w" .
  moreover have "n = top w - unat i \<longleftrightarrow> n \<le> top w \<and> top w - n = unat i" for n
    using i(2) by linarith
  ultimately show ?thesis
    using w' i(1) fin mk by (intro exI [of _ w']) (auto simp: represents_def unat_eq_0)
qed

text \<open>One call refines the specification.\<close>

lemma check_refines:
  assumes r: "represents w A"
  shows "fst (check w i) = fst (spec_check W A (unat i)) \<and>
    represents (snd (check w i)) (snd (spec_check W A (unat i)))"
proof -
  have top: "Max (insert 0 A) = top w" and mk: "\<And>n. n < W \<Longrightarrow> mark w n \<longleftrightarrow> n \<le> top w \<and> top w - n \<in> A"
    using r by (auto simp: represents_def)
  consider (zero) "i = 0" | (ahead) "top w < unat i"
    | (behind) "i \<noteq> 0" "unat i \<le> top w" "W \<le> top w - unat i"
    | (seen) "i \<noteq> 0" "unat i \<le> top w" "top w - unat i < W" "unat i \<in> A"
    | (unseen) "i \<noteq> 0" "unat i \<le> top w" "top w - unat i < W" "unat i \<notin> A"
    by (meson not_le)
  then show ?thesis
  proof cases
    case zero
    then show ?thesis using r by (simp add: check_zero spec_check_def)
  next
    case ahead
    moreover have "unat i \<notin> A" using ahead represents_bound [OF r] by fastforce
    ultimately show ?thesis
      using refine_ahead [OF r ahead] by (auto simp: spec_check_def top)
  next
    case behind
    then show ?thesis using r by (auto simp: check_behind spec_check_def top)
  next
    case seen
    then have "mark w (top w - unat i)" using mk [OF seen(3)] by simp
    with seen r show ?thesis by (simp add: check_seen spec_check_def)
  next
    case unseen
    then show ?thesis
      using refine_unseen [OF r unseen] by (auto simp: spec_check_def top unat_eq_0)
  qed
qed

text \<open>A jump forward to \<open>i\<close> closes the window for every id that lies \<open>W\<close> or more behind \<open>i\<close>.\<close>

lemma jump_closes:
  assumes "top w < unat i" and "unat j + W \<le> unat i"
  shows "fst (check (snd (check w i)) j) = False"
proof -
  obtain w' where w': "check w i = (True, w')" "top w' = unat i"
    using check_ahead [OF assms(1)] by blast
  show ?thesis
    using check_behind [of j w'] assms(2) by (cases "j = 0") (auto simp: w' check_zero)
qed

lemma run_refines:
  "represents w A \<Longrightarrow> window_run check w is = spec_run W A (map unat is)"
proof (induction "is" arbitrary: w A)
  case Nil
  then show ?case by simp
next
  case (Cons i "is")
  then show ?case
    using check_refines [OF Cons.prems, of i] by (auto simp: Let_def split_beta)
qed

lemma run_from_fresh: "window_run check fresh is = spec_run W {} (map unat is)"
  by (rule run_refines [OF represents_fresh])

lemma run_no_replay: "distinct (accepted (window_run check fresh is) is)"
proof -
  have "distinct (accepted (spec_run W {} (map unat is)) (map unat is))"
    using spec_run_fresh by blast
  then show ?thesis
    by (simp add: run_from_fresh accepted_map distinct_map)
qed

end

end
