(* ===== verification/Packet_Cipher.thy ===== *)
theory Packet_Cipher
  imports Errors Replay_Window
begin

text \<open>
  \<open>crates/corevpn-crypto/src/cipher.rs\<close>: AEAD encryption of data channel packets, the packet
  counter and its replay window. The two AEAD algorithms are third-party code: a value of
  type \<open>aead\<close> stands for the crates \<open>chacha20poly1305\<close> and \<open>aes-gcm\<close> and is an argument of the
  operations; what is relied on is stated by \<open>aead_laws\<close>.
\<close>

unbundle bit_operations_syntax

section \<open>Cipher suites and keys\<close>

datatype CipherSuite = ChaCha20Poly1305 | Aes256Gcm

definition KEY_SIZE :: nat where "KEY_SIZE = 32"
definition NONCE_SIZE :: nat where "NONCE_SIZE = 12"
definition TAG_SIZE :: nat where "TAG_SIZE = 16"

definition key_size :: "CipherSuite \<Rightarrow> nat" where "key_size s = KEY_SIZE"
definition nonce_size :: "CipherSuite \<Rightarrow> nat" where "nonce_size s = NONCE_SIZE"
definition tag_size :: "CipherSuite \<Rightarrow> nat" where "tag_size s = TAG_SIZE"

record DataChannelKey =
  dck_key :: bytes
  dck_implicit_iv :: bytes
  dck_cipher_suite :: CipherSuite

definition DataChannelKey_new :: "bytes \<Rightarrow> CipherSuite \<Rightarrow> DataChannelKey" where
  "DataChannelKey_new key suite =
     \<lparr>dck_key = key, dck_implicit_iv = replicate 12 0, dck_cipher_suite = suite\<rparr>"

definition DataChannelKey_new_with_iv :: "bytes \<Rightarrow> bytes \<Rightarrow> CipherSuite \<Rightarrow> DataChannelKey" where
  "DataChannelKey_new_with_iv key iv suite =
     \<lparr>dck_key = key, dck_implicit_iv = iv, dck_cipher_suite = suite\<rparr>"

text \<open>
  The AEAD algorithms: \<open>encrypt key nonce aad plaintext\<close> gives ciphertext and tag in one
  buffer, and fails only on inputs that are too long.
\<close>

record aead =
  aead_encrypt :: "CipherSuite \<Rightarrow> bytes \<Rightarrow> bytes \<Rightarrow> bytes \<Rightarrow> bytes \<Rightarrow> bytes option"
  aead_decrypt :: "CipherSuite \<Rightarrow> bytes \<Rightarrow> bytes \<Rightarrow> bytes \<Rightarrow> bytes \<Rightarrow> bytes option"

definition aead_laws :: "aead \<Rightarrow> bool" where
  "aead_laws L \<longleftrightarrow>
     (\<forall>s k n a m c. aead_encrypt L s k n a m = Some c \<longrightarrow>
        length c = length m + TAG_SIZE \<and> aead_decrypt L s k n a c = Some m)"

section \<open>Cipher\<close>

text \<open>\<open>CipherInner\<close> is the algorithm with its key.\<close>

record Cipher =
  cipher_key :: bytes
  cipher_suite :: CipherSuite

definition Cipher_new :: "bytes \<Rightarrow> CipherSuite \<Rightarrow> Cipher" where
  "Cipher_new key suite = \<lparr>cipher_key = key, cipher_suite = suite\<rparr>"

definition DataChannelKey_cipher :: "DataChannelKey \<Rightarrow> Cipher" where
  "DataChannelKey_cipher k = Cipher_new (dck_key k) (dck_cipher_suite k)"

definition encryption_failed :: "CipherSuite \<Rightarrow> CryptoError" where
  "encryption_failed s = EncryptionFailed (case s of
     ChaCha20Poly1305 \<Rightarrow> ''ChaCha20-Poly1305 encryption failed''
   | Aes256Gcm \<Rightarrow> ''AES-256-GCM encryption failed'')"

definition Cipher_encrypt :: "aead \<Rightarrow> Cipher \<Rightarrow> bytes \<Rightarrow> bytes \<Rightarrow> bytes \<Rightarrow> (CryptoError, bytes) res" where
  "Cipher_encrypt L c nonce plaintext aad =
     (case aead_encrypt L (cipher_suite c) (cipher_key c) nonce aad plaintext of
        None \<Rightarrow> Inl (Err (encryption_failed (cipher_suite c)))
      | Some ct \<Rightarrow> Inr ct)"

text \<open>\<open>Cipher::encrypt_into\<close>: the number of bytes written and the extended buffer.\<close>

definition Cipher_encrypt_into ::
    "aead \<Rightarrow> Cipher \<Rightarrow> bytes \<Rightarrow> bytes \<Rightarrow> bytes \<Rightarrow> bytes \<Rightarrow> (CryptoError, nat) res \<times> bytes" where
  "Cipher_encrypt_into L c nonce plaintext aad out =
     (let start_len = length out in
      case aead_encrypt L (cipher_suite c) (cipher_key c) nonce aad plaintext of
        None \<Rightarrow> (Inl (Err (encryption_failed (cipher_suite c))), out)
      | Some ct \<Rightarrow> let out = out @ ct in (Inr (length out - start_len), out))"

definition Cipher_decrypt :: "aead \<Rightarrow> Cipher \<Rightarrow> bytes \<Rightarrow> bytes \<Rightarrow> bytes \<Rightarrow> (CryptoError, bytes) res" where
  "Cipher_decrypt L c nonce ciphertext aad =
     (case aead_decrypt L (cipher_suite c) (cipher_key c) nonce aad ciphertext of
        None \<Rightarrow> Inl (Err DecryptionFailed)
      | Some m \<Rightarrow> Inr m)"

section \<open>Replay window\<close>

record ReplayWindow =
  rw_highest :: u64
  rw_bitmap :: u128

definition WINDOW_SIZE :: u64 where "WINDOW_SIZE = 128"

definition ReplayWindow_new :: ReplayWindow where
  "ReplayWindow_new = \<lparr>rw_highest = 0, rw_bitmap = 0\<rparr>"

definition ReplayWindow_check_and_update :: "ReplayWindow \<Rightarrow> u64 \<Rightarrow> bool \<times> ReplayWindow" where
  "ReplayWindow_check_and_update w packet_id =
     (if packet_id = 0 then (False, w)
      else if packet_id > rw_highest w then
        let shift = packet_id - rw_highest w in
        (True, \<lparr>rw_highest = packet_id,
                rw_bitmap = (if shift \<ge> WINDOW_SIZE then 1
                             else push_bit (unat shift) (rw_bitmap w) OR 1)\<rparr>)
      else
        let diff = rw_highest w - packet_id in
        if diff \<ge> WINDOW_SIZE then (False, w)
        else
          let mask = push_bit (unat diff) (1 :: u128) in
          if rw_bitmap w AND mask \<noteq> 0 then (False, w)
          else (True, w\<lparr>rw_bitmap := rw_bitmap w OR mask\<rparr>))"

definition ReplayWindow_reset :: "ReplayWindow \<Rightarrow> ReplayWindow" where
  "ReplayWindow_reset w = w\<lparr>rw_highest := 0, rw_bitmap := 0\<rparr>"

section \<open>PacketCipher\<close>

record PacketCipher =
  pc_cipher :: Cipher
  pc_implicit_iv :: bytes
  pc_tx_counter :: u32
  pc_rx_window :: ReplayWindow
  pc_debug_key_prefix :: bytes

definition PACKET_ID_SIZE :: nat where "PACKET_ID_SIZE = 4"

definition PacketCipher_new :: "DataChannelKey \<Rightarrow> PacketCipher" where
  "PacketCipher_new key =
     \<lparr>pc_cipher = DataChannelKey_cipher key, pc_implicit_iv = dck_implicit_iv key, pc_tx_counter = 0,
      pc_rx_window = ReplayWindow_new, pc_debug_key_prefix = take 8 (dck_key key)\<rparr>"

definition build_nonce :: "PacketCipher \<Rightarrow> bytes \<Rightarrow> bytes" where
  "build_nonce c pid_bytes =
     (let nonce = pc_implicit_iv c;
          nonce = nonce[0 := nonce ! 0 XOR pid_bytes ! 0];
          nonce = nonce[1 := nonce ! 1 XOR pid_bytes ! 1];
          nonce = nonce[2 := nonce ! 2 XOR pid_bytes ! 2]
      in nonce[3 := nonce ! 3 XOR pid_bytes ! 3])"

text \<open>
  \<open>ct_tag[..ct_len]\<close> and \<open>ct_tag[ct_len..]\<close> with \<open>ct_len = ct_tag.len() - TAG_SIZE\<close>; on a shorter
  buffer the subtraction wraps and the slice panics.
\<close>

definition split_tag :: "bytes \<Rightarrow> (CryptoError, bytes \<times> bytes) res" where
  "split_tag ct_tag =
     (if length ct_tag < TAG_SIZE then Inl Panic
      else let ct_len = length ct_tag - TAG_SIZE in Inr (take ct_len ct_tag, drop ct_len ct_tag))"

definition PacketCipher_encrypt ::
    "aead \<Rightarrow> PacketCipher \<Rightarrow> bytes \<Rightarrow> bytes \<Rightarrow> (CryptoError, bytes) res \<times> PacketCipher" where
  "PacketCipher_encrypt L c plaintext ad_prefix =
     (case checked_add (pc_tx_counter c) 1 of
        None \<Rightarrow> (Inl (Err (EncryptionFailed ''packet counter overflow'')), c)
      | Some counter \<Rightarrow>
        let c = c\<lparr>pc_tx_counter := counter\<rparr>;
            pid_bytes = u32_to_be_bytes (pc_tx_counter c);
            nonce = build_nonce c pid_bytes;
            aad = ad_prefix @ pid_bytes
        in (and_then (Cipher_encrypt L (pc_cipher c) nonce plaintext aad) (\<lambda>ct_tag.
            and_then (split_tag ct_tag) (\<lambda>(ciphertext, tag).
            Inr (pid_bytes @ tag @ ciphertext))), c))"

definition PacketCipher_encrypt_into ::
    "aead \<Rightarrow> PacketCipher \<Rightarrow> bytes \<Rightarrow> bytes \<Rightarrow> bytes
       \<Rightarrow> (CryptoError, nat) res \<times> bytes \<times> PacketCipher" where
  "PacketCipher_encrypt_into L c plaintext ad_prefix output =
     (case checked_add (pc_tx_counter c) 1 of
        None \<Rightarrow> (Inl (Err (EncryptionFailed ''packet counter overflow'')), output, c)
      | Some counter \<Rightarrow>
        let c = c\<lparr>pc_tx_counter := counter\<rparr>;
            pid_bytes = u32_to_be_bytes (pc_tx_counter c);
            nonce = build_nonce c pid_bytes;
            aad = ad_prefix @ pid_bytes
        in case and_then (Cipher_encrypt L (pc_cipher c) nonce plaintext aad) (\<lambda>ct_tag.
                and_then (split_tag ct_tag) (\<lambda>(ciphertext, tag). Inr (ct_tag, ciphertext, tag))) of
             Inl e \<Rightarrow> (Inl e, output, c)
           | Inr (ct_tag, ciphertext, tag) \<Rightarrow>
               (Inr (PACKET_ID_SIZE + length ct_tag), output @ pid_bytes @ tag @ ciphertext, c))"

text \<open>
  \<open>PacketCipher::decrypt\<close>: the window is updated before the tag is checked, and both tag
  positions are tried. The diagnostic output is left out.
\<close>

definition PacketCipher_decrypt ::
    "aead \<Rightarrow> PacketCipher \<Rightarrow> bytes \<Rightarrow> bytes \<Rightarrow> (CryptoError, bytes) res \<times> PacketCipher" where
  "PacketCipher_decrypt L c packet ad_prefix =
     (if length packet < PACKET_ID_SIZE + TAG_SIZE then (Inl (Err DecryptionFailed), c)
      else
        let pid_bytes = take 4 packet;
            counter = (ucast (u32_from_be_bytes pid_bytes) :: u64);
            (fresh, window) = ReplayWindow_check_and_update (pc_rx_window c) counter;
            c = c\<lparr>pc_rx_window := window\<rparr>
        in if \<not> fresh then (Inl (Err CryptoError.ReplayDetected), c)
           else
             let nonce = build_nonce c pid_bytes;
                 aad = ad_prefix @ pid_bytes;
                 tag = take TAG_SIZE (drop PACKET_ID_SIZE packet);
                 ct = drop (PACKET_ID_SIZE + TAG_SIZE) packet;
                 ct_tag_reordered = ct @ tag;
                 ct_tag_end = drop PACKET_ID_SIZE packet
             in case Cipher_decrypt L (pc_cipher c) nonce ct_tag_end aad of
                  Inr plaintext \<Rightarrow> (Inr plaintext, c)
                | Inl _ \<Rightarrow> (Cipher_decrypt L (pc_cipher c) nonce ct_tag_reordered aad, c))"

section \<open>The bitmap implements the window\<close>

lemma unat_diff_word: "b \<le> a \<Longrightarrow> unat (a - b) = unat a - unat (b :: 'a::len word)"
  by (simp add: unat_sub word_le_nat_alt)

lemma check_and_update_ahead:
  assumes "unat (rw_highest w) < unat i"
  shows "\<exists>w'. ReplayWindow_check_and_update w i = (True, w') \<and> unat (rw_highest w') = unat i \<and>
    (\<forall>n < 128. bit (rw_bitmap w') n \<longleftrightarrow> n = 0 \<or> unat i - unat (rw_highest w) \<le> n \<and>
       bit (rw_bitmap w) (n - (unat i - unat (rw_highest w))))"
proof -
  have lt: "rw_highest w < i" and i: "i \<noteq> 0" and le: "rw_highest w \<le> i"
    using assms by (auto simp: word_less_nat_alt word_le_nat_alt)
  have sh: "128 \<le> i - rw_highest w \<longleftrightarrow> 128 \<le> unat i - unat (rw_highest w)"
    by (simp add: word_le_nat_alt unat_diff_word [OF le])
  show ?thesis
    using lt i sh
    by (auto simp: ReplayWindow_check_and_update_def WINDOW_SIZE_def Let_def bit_simps
          unat_diff_word [OF le])
qed

interpretation crypto_window: replay_window ReplayWindow_check_and_update ReplayWindow_new
  "\<lambda>w. unat (rw_highest w)" "\<lambda>w. bit (rw_bitmap w)" 128
proof unfold_locales
  fix w :: ReplayWindow and i :: u64
  assume i: "i \<noteq> 0" "unat i \<le> unat (rw_highest w)"
  then have le: "i \<le> rw_highest w" and nlt: "\<not> rw_highest w < i"
    by (auto simp: word_le_nat_alt word_less_nat_alt)
  have sz: "WINDOW_SIZE \<le> rw_highest w - i \<longleftrightarrow> 128 \<le> unat (rw_highest w) - unat i"
    by (simp add: word_le_nat_alt unat_diff_word [OF le] WINDOW_SIZE_def)
  note step = ReplayWindow_check_and_update_def Let_def i nlt sz unat_diff_word [OF le]
    and_exp_eq_0_iff_not_bit
  show "128 \<le> unat (rw_highest w) - unat i \<Longrightarrow> ReplayWindow_check_and_update w i = (False, w)"
    by (simp add: step)
  show "unat (rw_highest w) - unat i < 128 \<Longrightarrow> bit (rw_bitmap w) (unat (rw_highest w) - unat i) \<Longrightarrow>
      ReplayWindow_check_and_update w i = (False, w)"
    by (simp add: step)
  show "unat (rw_highest w) - unat i < 128 \<Longrightarrow> \<not> bit (rw_bitmap w) (unat (rw_highest w) - unat i) \<Longrightarrow>
      \<exists>w'. ReplayWindow_check_and_update w i = (True, w') \<and> unat (rw_highest w') = unat (rw_highest w) \<and>
        (\<forall>n < 128. bit (rw_bitmap w') n \<longleftrightarrow>
           n = unat (rw_highest w) - unat i \<or> bit (rw_bitmap w) n)"
    by (auto simp: step bit_simps)
qed ((rule check_and_update_ahead; assumption)
     | simp add: ReplayWindow_new_def ReplayWindow_check_and_update_def)+

section \<open>Nonces\<close>

lemma length_build_nonce [simp]: "length (build_nonce c p) = length (pc_implicit_iv c)"
  by (simp add: build_nonce_def Let_def)

lemma build_nonce_cong: "pc_implicit_iv c = pc_implicit_iv d \<Longrightarrow> build_nonce c p = build_nonce d p"
  by (simp add: build_nonce_def)

lemma xor_cancel_right: "a XOR b = a XOR c \<longleftrightarrow> b = (c :: 'a::len word)"
  by (metis xor.assoc xor.left_neutral xor_self_eq)

lemma build_nonce_eq_iff:
  assumes "length (pc_implicit_iv c) = 12" and "length p = 4" and "length q = 4"
  shows "build_nonce c p = build_nonce c q \<longleftrightarrow> p = q"
proof -
  obtain a0 a1 a2 a3 where p: "p = [a0, a1, a2, a3]" using assms(2) by (rule length_4_cases)
  obtain b0 b1 b2 b3 where q: "q = [b0, b1, b2, b3]" using assms(3) by (rule length_4_cases)
  have "\<exists>v0 v1 v2 v3 v. pc_implicit_iv c = v0 # v1 # v2 # v3 # v"
    using assms(1) by (auto simp: numeral_eq_Suc length_Suc_conv)
  then show ?thesis
    by (auto simp: p q build_nonce_def Let_def xor_cancel_right)
qed

section \<open>Encryption\<close>

text \<open>Encrypting a sequence of packets (plaintext and header prefix).\<close>

fun encrypt_run ::
    "aead \<Rightarrow> PacketCipher \<Rightarrow> (bytes \<times> bytes) list \<Rightarrow> (CryptoError, bytes) res list \<times> PacketCipher" where
  "encrypt_run L c [] = ([], c)"
| "encrypt_run L c ((m, ad) # ms) =
     (let (r, c') = PacketCipher_encrypt L c m ad; (rs, c'') = encrypt_run L c' ms in (r # rs, c''))"

lemma length_encrypt_run [simp]: "length (fst (encrypt_run L c ms)) = length ms"
  by (induction ms arbitrary: c) (auto simp: Let_def split_beta)

lemma encrypt_keeps:
  "PacketCipher_encrypt L c m ad = (r, c') \<Longrightarrow>
     pc_implicit_iv c' = pc_implicit_iv c \<and> pc_cipher c' = pc_cipher c \<and> pc_rx_window c' = pc_rx_window c"
  by (auto simp: PacketCipher_encrypt_def Let_def split: option.splits)

lemma encrypt_counter:
  "unat (pc_tx_counter (snd (PacketCipher_encrypt L c m ad))) =
     min (unat (pc_tx_counter c) + 1) (2 ^ 32 - 1)"
proof (cases "checked_add (pc_tx_counter c) 1")
  case None
  then have "2 ^ 32 \<le> unat (pc_tx_counter c) + 1"
    using checked_add_None [of "pc_tx_counter c" 1] by simp
  then show ?thesis
    using unat_bound [of "pc_tx_counter c"]
    by (simp add: PacketCipher_encrypt_def None)
next
  case (Some n)
  then have "unat n = unat (pc_tx_counter c) + 1"
    using checked_add_Some by fastforce
  then show ?thesis
    using Some unat_bound [of n] by (simp add: PacketCipher_encrypt_def Let_def)
qed

lemma encrypt_Inr:
  assumes "PacketCipher_encrypt L c m ad = (Inr pkt, c')"
  obtains n ct where "unat n = unat (pc_tx_counter c) + 1" and "pc_tx_counter c' = n"
    and "aead_encrypt L (cipher_suite (pc_cipher c)) (cipher_key (pc_cipher c))
           (build_nonce c (u32_to_be_bytes n)) (ad @ u32_to_be_bytes n) m = Some ct"
    and "TAG_SIZE \<le> length ct"
    and "pkt = u32_to_be_bytes n @ drop (length ct - TAG_SIZE) ct @ take (length ct - TAG_SIZE) ct"
proof -
  from assms obtain n where n: "checked_add (pc_tx_counter c) 1 = Some n"
    by (auto simp: PacketCipher_encrypt_def split: option.splits)
  have bn: "build_nonce (c\<lparr>pc_tx_counter := n\<rparr>) p = build_nonce c p" for p
    by (rule build_nonce_cong) simp
  from n have "unat n = unat (pc_tx_counter c) + 1"
    using checked_add_Some by fastforce
  with that n assms show thesis
    by (auto simp: PacketCipher_encrypt_def Cipher_encrypt_def split_tag_def Let_def bn res_simps
          split: option.splits if_splits)
qed

text \<open>The packet id on the wire is the position in the sequence, counted from the old counter.\<close>

lemma encrypt_run_ids:
  "fst (encrypt_run L c ms) ! k = Inr pkt \<Longrightarrow> k < length ms \<Longrightarrow>
     length pkt \<ge> 4 \<and> unat (u32_from_be_bytes (take 4 pkt)) = unat (pc_tx_counter c) + k + 1"
proof (induction ms arbitrary: c k)
  case Nil
  then show ?case by simp
next
  case (Cons e ms)
  obtain m ad where e: "e = (m, ad)" by (cases e)
  obtain r c' where step: "PacketCipher_encrypt L c m ad = (r, c')" by (cases "PacketCipher_encrypt L c m ad")
  show ?case
  proof (cases k)
    case 0
    with Cons.prems step have "PacketCipher_encrypt L c m ad = (Inr pkt, c')"
      by (simp add: e Let_def split: prod.splits)
    then show ?thesis
      by (rule encrypt_Inr) (simp add: 0)
  next
    case (Suc k')
    with Cons.prems step have "fst (encrypt_run L c' ms) ! k' = Inr pkt" "k' < length ms"
      by (auto simp: e Let_def split: prod.splits)
    note ih = Cons.IH [OF this]
    have "unat (pc_tx_counter c') = min (unat (pc_tx_counter c) + 1) (2 ^ 32 - 1)"
      using encrypt_counter [of L c m ad] by (simp add: step)
    moreover have "unat (u32_from_be_bytes (take 4 pkt)) < 2 ^ 32"
      using unat_bound [of "u32_from_be_bytes (take 4 pkt)"] by simp
    ultimately show ?thesis
      using ih Suc by linarith
  qed
qed

lemma encrypt_run_keeps:
  "encrypt_run L c ms = (rs, c') \<Longrightarrow> pc_implicit_iv c' = pc_implicit_iv c \<and> pc_cipher c' = pc_cipher c"
  by (induction ms arbitrary: c rs c')
     (auto simp: Let_def split: prod.splits dest!: encrypt_keeps)

lemma encrypt_run_aead:
  "fst (encrypt_run L c ms) ! k = Inr pkt \<Longrightarrow> k < length ms \<Longrightarrow>
     \<exists>ct. aead_encrypt L (cipher_suite (pc_cipher c)) (cipher_key (pc_cipher c))
           (build_nonce c (take 4 pkt)) (snd (ms ! k) @ take 4 pkt) (fst (ms ! k)) = Some ct \<and>
         TAG_SIZE \<le> length ct \<and>
         pkt = take 4 pkt @ drop (length ct - TAG_SIZE) ct @ take (length ct - TAG_SIZE) ct"
proof (induction ms arbitrary: c k)
  case Nil
  then show ?case by simp
next
  case (Cons e ms)
  obtain m ad where e: "e = (m, ad)" by (cases e)
  obtain r c' where step: "PacketCipher_encrypt L c m ad = (r, c')" by (cases "PacketCipher_encrypt L c m ad")
  show ?case
  proof (cases k)
    case 0
    with Cons.prems step have "PacketCipher_encrypt L c m ad = (Inr pkt, c')"
      by (simp add: e Let_def split: prod.splits)
    then show ?thesis
      by (rule encrypt_Inr) (simp add: 0 e)
  next
    case (Suc k')
    with Cons.prems step have "fst (encrypt_run L c' ms) ! k' = Inr pkt" "k' < length ms"
      by (auto simp: e Let_def split: prod.splits)
    note ih = Cons.IH [OF this]
    show ?thesis
      using ih Suc encrypt_keeps [OF step] build_nonce_cong [of c' c] by simp
  qed
qed

lemma encrypt_no_panic: "aead_laws L \<Longrightarrow> no_panic (fst (PacketCipher_encrypt L c m ad))"
  by (auto simp: PacketCipher_encrypt_def Cipher_encrypt_def split_tag_def aead_laws_def Let_def
        intro!: no_panic_intros split: option.splits)

text \<open>The buffer variant does the same work.\<close>

lemma encrypt_into_eq:
  "PacketCipher_encrypt_into L c m ad out =
     (case PacketCipher_encrypt L c m ad of
        (Inl e, c') \<Rightarrow> (Inl e, out, c')
      | (Inr pkt, c') \<Rightarrow> (Inr (length pkt), out @ pkt, c'))"
  by (auto simp: PacketCipher_encrypt_into_def PacketCipher_encrypt_def split_tag_def Let_def
        PACKET_ID_SIZE_def res_simps split: option.splits sum.splits if_splits)

section \<open>Decryption\<close>

abbreviation packet_counter :: "bytes \<Rightarrow> u64" where
  "packet_counter packet \<equiv> ucast (u32_from_be_bytes (take 4 packet))"

lemma unat_packet_counter: "unat (packet_counter p) = unat (u32_from_be_bytes (take 4 p))"
  using unat_bound [of "u32_from_be_bytes (take 4 p)"]
  by (simp add: unsigned_ucast_eq take_bit_nat_eq_self)

lemma decrypt_window:
  "pc_rx_window (snd (PacketCipher_decrypt L c packet ad)) =
     (if length packet < 20 then pc_rx_window c
      else snd (ReplayWindow_check_and_update (pc_rx_window c) (packet_counter packet)))"
  by (simp add: PacketCipher_decrypt_def PACKET_ID_SIZE_def TAG_SIZE_def Let_def
        split: prod.split sum.split)

lemma decrypt_keeps:
  "pc_cipher (snd (PacketCipher_decrypt L c packet ad)) = pc_cipher c \<and>
   pc_implicit_iv (snd (PacketCipher_decrypt L c packet ad)) = pc_implicit_iv c \<and>
   pc_tx_counter (snd (PacketCipher_decrypt L c packet ad)) = pc_tx_counter c"
  by (simp add: PacketCipher_decrypt_def Let_def split: prod.split sum.split)

lemma decrypt_Inr_fresh:
  "fst (PacketCipher_decrypt L c packet ad) = Inr m \<Longrightarrow>
     20 \<le> length packet \<and> fst (ReplayWindow_check_and_update (pc_rx_window c) (packet_counter packet))"
  by (auto simp: PacketCipher_decrypt_def PACKET_ID_SIZE_def TAG_SIZE_def Let_def
        split: prod.splits if_splits)

lemma decrypt_replay:
  "20 \<le> length packet \<Longrightarrow>
   \<not> fst (ReplayWindow_check_and_update (pc_rx_window c) (packet_counter packet)) \<Longrightarrow>
     fst (PacketCipher_decrypt L c packet ad) = Inl (Err CryptoError.ReplayDetected)"
  by (auto simp: PacketCipher_decrypt_def PACKET_ID_SIZE_def TAG_SIZE_def Let_def
        split: prod.splits)

lemma decrypt_no_panic: "no_panic (fst (PacketCipher_decrypt L c packet ad))"
  by (auto simp: PacketCipher_decrypt_def Cipher_decrypt_def Let_def
        split: prod.splits sum.splits option.splits)

text \<open>Decrypting a sequence of datagrams; the ids of those that gave a plaintext.\<close>

fun decrypt_run ::
    "aead \<Rightarrow> PacketCipher \<Rightarrow> (bytes \<times> bytes) list \<Rightarrow> (CryptoError, bytes) res list" where
  "decrypt_run L c [] = []"
| "decrypt_run L c ((p, ad) # ps) =
     (let (r, c') = PacketCipher_decrypt L c p ad in r # decrypt_run L c' ps)"

definition delivered_ids :: "(CryptoError, bytes) res list \<Rightarrow> (bytes \<times> bytes) list \<Rightarrow> u32 list" where
  "delivered_ids rs ps = [u32_from_be_bytes (take 4 (fst p)). (r, p) \<leftarrow> zip rs ps, is_ok r]"

lemma decrypt_run_fresh:
  "crypto_window.represents (pc_rx_window c) A \<Longrightarrow>
     distinct (delivered_ids (decrypt_run L c ps) ps) \<and>
     unat ` set (delivered_ids (decrypt_run L c ps) ps) \<inter> A = {}"
proof (induction ps arbitrary: c A)
  case Nil
  then show ?case by (simp add: delivered_ids_def)
next
  case (Cons e ps)
  obtain p ad where e: "e = (p, ad)" by (cases e)
  let ?id = "u32_from_be_bytes (take 4 p)"
  let ?A = "if length p < 20 then A else snd (spec_check 128 A (unat ?id))"
  obtain r c' where step: "PacketCipher_decrypt L c p ad = (r, c')"
    by (cases "PacketCipher_decrypt L c p ad")
  have "crypto_window.represents (pc_rx_window c') ?A"
    using decrypt_window [of L c p ad] Cons.prems crypto_window.check_refines [OF Cons.prems, of "packet_counter p"]
    by (simp add: step unat_packet_counter)
  note ih = Cons.IH [OF this]
  have "A \<subseteq> ?A" by (auto simp: spec_check_def)
  moreover have "unat ?id \<notin> A \<and> unat ?id \<in> ?A" if "is_ok r"
    using that decrypt_Inr_fresh [of L c p ad] crypto_window.check_refines [OF Cons.prems, of "packet_counter p"]
    by (auto simp: is_ok_def step unat_packet_counter spec_check_def split: if_splits)
  ultimately show ?case
    using ih by (fastforce simp: e step delivered_ids_def)
qed

lemma PacketCipher_decrypt_encrypt:
  assumes "aead_laws L" and "PacketCipher_encrypt L c m ad = (Inr pkt, c')"
    and "pc_cipher d = pc_cipher c" and "pc_implicit_iv d = pc_implicit_iv c"
    and "fst (ReplayWindow_check_and_update (pc_rx_window d) (packet_counter pkt))"
    and "aead_decrypt L (cipher_suite (pc_cipher d)) (cipher_key (pc_cipher d))
           (build_nonce d (take 4 pkt)) (ad @ take 4 pkt) (drop 4 pkt) \<in> {None, Some m}"
  shows "fst (PacketCipher_decrypt L d pkt ad) = Inr m"
proof -
  obtain n ct where ct: "aead_encrypt L (cipher_suite (pc_cipher c)) (cipher_key (pc_cipher c))
           (build_nonce c (u32_to_be_bytes n)) (ad @ u32_to_be_bytes n) m = Some ct"
    and len: "16 \<le> length ct"
    and pkt: "pkt = u32_to_be_bytes n @ drop (length ct - 16) ct @ take (length ct - 16) ct"
    using encrypt_Inr [OF assms(2)] by (metis TAG_SIZE_def)
  have nonce: "build_nonce (d\<lparr>pc_rx_window := w\<rparr>) p = build_nonce c p" for w p
    by (rule build_nonce_cong) (simp add: assms(4))
  have nonce_d: "build_nonce d p = build_nonce c p" for p
    by (rule build_nonce_cong) (rule assms(4))
  have dec: "aead_decrypt L (cipher_suite (pc_cipher c)) (cipher_key (pc_cipher c))
           (build_nonce c (u32_to_be_bytes n)) (ad @ u32_to_be_bytes n) ct = Some m"
    using assms(1) ct by (auto simp: aead_laws_def)
  show ?thesis
    using assms(3,5,6) len dec
    by (auto simp: PacketCipher_decrypt_def Cipher_decrypt_def PACKET_ID_SIZE_def TAG_SIZE_def Let_def
          pkt nonce nonce_d split: prod.splits)
qed

section \<open>Properties\<close>

text \<open>A concrete AEAD for the witnesses: no encryption, and a tag that repeats the first nonce byte.\<close>

definition null_tag :: "bytes \<Rightarrow> bytes" where
  "null_tag n = replicate 16 (hd n)"

definition null_aead :: aead where
  "null_aead =
     \<lparr>aead_encrypt = (\<lambda>s k n a m. Some (m @ null_tag n)),
      aead_decrypt = (\<lambda>s k n a c. if 16 \<le> length c \<and> drop (length c - 16) c = null_tag n
                                then Some (take (length c - 16) c) else None)\<rparr>"

definition sample_key :: DataChannelKey where
  "sample_key = DataChannelKey_new (replicate 32 7) ChaCha20Poly1305"

lemma null_aead_laws: "aead_laws null_aead"
  by (simp add: aead_laws_def null_aead_def null_tag_def TAG_SIZE_def)

text \<open>
  C1. The 128-bit replay window of the data channel takes, on every sequence of 64-bit packet
  ids, exactly the decisions of the set specification: an id is accepted iff it is not zero, not
  accepted before and less than 128 behind the highest accepted id.
\<close>

theorem crypto_window_refines_spec:
  "window_run ReplayWindow_check_and_update ReplayWindow_new ids = spec_run 128 {} (map unat ids)"
  by (rule crypto_window.run_from_fresh)

text \<open>
  C5. Nonce uniqueness: two packets encrypted in one run of a \<open>PacketCipher\<close> are AEAD
  encryptions under the same key with different nonces.
\<close>

theorem encrypt_nonces_unique:
  assumes "length (pc_implicit_iv c) = 12" and "k < l" and "l < length ms"
    and "fst (encrypt_run L c ms) ! k = Inr p" and "fst (encrypt_run L c ms) ! l = Inr q"
  shows "\<exists>n n' ct ct'. n \<noteq> n' \<and>
     aead_encrypt L (cipher_suite (pc_cipher c)) (cipher_key (pc_cipher c)) n
       (snd (ms ! k) @ take 4 p) (fst (ms ! k)) = Some ct \<and>
     aead_encrypt L (cipher_suite (pc_cipher c)) (cipher_key (pc_cipher c)) n'
       (snd (ms ! l) @ take 4 q) (fst (ms ! l)) = Some ct' \<and>
     p = take 4 p @ drop (length ct - TAG_SIZE) ct @ take (length ct - TAG_SIZE) ct \<and>
     q = take 4 q @ drop (length ct' - TAG_SIZE) ct' @ take (length ct' - TAG_SIZE) ct'"
proof -
  have k: "k < length ms" using assms(2,3) by simp
  note p = encrypt_run_ids [OF assms(4) k] and q = encrypt_run_ids [OF assms(5,3)]
  from p q assms(2) have "take 4 p \<noteq> take 4 q" by auto
  then have "build_nonce c (take 4 p) \<noteq> build_nonce c (take 4 q)"
    using p q by (subst build_nonce_eq_iff) (simp_all add: assms(1))
  then show ?thesis
    using encrypt_run_aead [OF assms(4) k] encrypt_run_aead [OF assms(5,3)] by blast
qed

theorem encrypt_nonces_unique_witness:
  "\<exists>n n' ct ct'. n \<noteq> n' \<and>
     aead_encrypt null_aead ChaCha20Poly1305 (replicate 32 7) n [9, 0, 0, 0, 1] [1] = Some ct \<and>
     aead_encrypt null_aead ChaCha20Poly1305 (replicate 32 7) n' [9, 0, 0, 0, 2] [2] = Some ct'"
proof -
  let ?c = "PacketCipher_new sample_key" and ?ms = "[([1], [9]), ([2], [9])] :: (bytes \<times> bytes) list"
  let ?p = "[0, 0, 0, 1] @ replicate 16 0 @ [1] :: bytes"
  let ?q = "[0, 0, 0, 2] @ replicate 16 0 @ [2] :: bytes"
  have run: "fst (encrypt_run null_aead ?c ?ms) = [Inr ?p, Inr ?q]" by code_simp
  have c: "cipher_suite (pc_cipher ?c) = ChaCha20Poly1305" "cipher_key (pc_cipher ?c) = replicate 32 7"
    "length (pc_implicit_iv ?c) = 12"
    by (simp_all add: PacketCipher_new_def sample_key_def DataChannelKey_new_def
          DataChannelKey_cipher_def Cipher_new_def)
  show ?thesis
    using encrypt_nonces_unique [of ?c 0 1 ?ms null_aead ?p ?q] unfolding run c by auto
qed

text \<open>
  C6. No packet id is delivered twice: over any sequence of datagrams given to a fresh
  \<open>PacketCipher\<close>, whatever the AEAD accepts, the ids of the datagrams that decrypt are distinct.
\<close>

theorem decrypt_never_delivers_twice:
  "distinct (delivered_ids (decrypt_run L (PacketCipher_new key) ps) ps)"
proof -
  have "crypto_window.represents (pc_rx_window (PacketCipher_new key)) {}"
    by (simp add: PacketCipher_new_def crypto_window.represents_fresh)
  then show ?thesis
    by (rule decrypt_run_fresh [THEN conjunct1])
qed

text \<open>
  The window moves before the tag is checked: any datagram of at least 20 bytes whose id
  lies ahead of the window, authentic or not, makes the receiver refuse every later packet
  whose id is 128 or more behind that id.
\<close>

theorem decrypt_unauthenticated_jump:
  assumes "20 \<le> length forged" and "20 \<le> length pkt"
    and "unat (rw_highest (pc_rx_window c)) < unat (u32_from_be_bytes (take 4 forged))"
    and "unat (u32_from_be_bytes (take 4 pkt)) + 128 \<le> unat (u32_from_be_bytes (take 4 forged))"
  shows "fst (PacketCipher_decrypt L (snd (PacketCipher_decrypt L c forged ad)) pkt ad')
           = Inl (Err CryptoError.ReplayDetected)"
proof (rule decrypt_replay)
  show "\<not> fst (ReplayWindow_check_and_update
      (pc_rx_window (snd (PacketCipher_decrypt L c forged ad))) (packet_counter pkt))"
    using assms crypto_window.jump_closes [of "pc_rx_window c" "packet_counter forged" "packet_counter pkt"]
    by (simp add: decrypt_window unat_packet_counter)
qed (rule assms(2))

theorem decrypt_unauthenticated_jump_witness:
  "fst (PacketCipher_decrypt null_aead (PacketCipher_new sample_key) ([0, 0, 1, 0] @ replicate 16 255) [9])
     = Inl (Err DecryptionFailed) \<and>
   fst (PacketCipher_decrypt null_aead
      (snd (PacketCipher_decrypt null_aead (PacketCipher_new sample_key) ([0, 0, 1, 0] @ replicate 16 255) [9]))
      ([0, 0, 0, 1] @ replicate 16 0 @ [1, 2]) [9]) = Inl (Err CryptoError.ReplayDetected)"
proof
  let ?c = "PacketCipher_new sample_key"
  let ?forged = "[0, 0, 1, 0] @ replicate 16 255 :: bytes"
  let ?pkt = "[0, 0, 0, 1] @ replicate 16 0 @ [1, 2] :: bytes"
  show "fst (PacketCipher_decrypt null_aead ?c ?forged [9]) = Inl (Err DecryptionFailed)"
    by code_simp
  have "unat (rw_highest (pc_rx_window ?c)) < unat (u32_from_be_bytes (take 4 ?forged))"
    and "unat (u32_from_be_bytes (take 4 ?pkt)) + 128 \<le> unat (u32_from_be_bytes (take 4 ?forged))"
    by (simp_all add: PacketCipher_new_def ReplayWindow_new_def u32_from_be_bytes_def)
  then show "fst (PacketCipher_decrypt null_aead (snd (PacketCipher_decrypt null_aead ?c ?forged [9]))
      ?pkt [9]) = Inl (Err CryptoError.ReplayDetected)"
    by (intro decrypt_unauthenticated_jump) simp_all
qed

end
