(* ===== verification/Hmac_Auth.thy ===== *)
theory Hmac_Auth
  imports Packet_Cipher
begin

text \<open>
  \<open>crates/corevpn-crypto/src/hmac_auth.rs\<close>: pre-shared key authentication of the control
  channel. HMAC-SHA256 (crates \<open>hmac\<close>, \<open>sha2\<close>) is the argument \<open>hmac\<close>, a function of key and
  message; \<open>hmac_law\<close> says that its output has 32 bytes. The random nonce of \<open>tls-crypt\<close> is an
  argument. Fixed-size arrays are lists whose length the well-formedness predicates state.
\<close>

type_synonym mac = "bytes \<Rightarrow> bytes \<Rightarrow> bytes"

definition hmac_law :: "mac \<Rightarrow> bool" where
  "hmac_law hmac \<longleftrightarrow> (\<forall>k m. length (hmac k m) = 32)"

abbreviation slice :: "bytes \<Rightarrow> nat \<Rightarrow> nat \<Rightarrow> bytes" where
  "slice d a b \<equiv> take (b - a) (drop a d)"

section \<open>tls-auth\<close>

record HmacAuth =
  ha_tx_key :: bytes
  ha_rx_key :: bytes

definition HMAC_SIZE :: nat where "HMAC_SIZE = 32"

definition HmacAuth_new :: "bytes \<Rightarrow> bytes \<Rightarrow> HmacAuth" where
  "HmacAuth_new tx rx = \<lparr>ha_tx_key = tx, ha_rx_key = rx\<rparr>"

definition from_single_key :: "bytes \<Rightarrow> HmacAuth" where
  "from_single_key key = \<lparr>ha_tx_key = key, ha_rx_key = key\<rparr>"

definition show_key_direction :: "u8 option \<Rightarrow> string" where
  "show_key_direction d =
     (case d of None \<Rightarrow> ''None'' | Some n \<Rightarrow> ''Some('' @ string_of_nat (unat n) @ '')'')"

definition from_ta_key :: "bytes \<Rightarrow> bool \<Rightarrow> u8 option \<Rightarrow> (CryptoError, HmacAuth) res" where
  "from_ta_key ta_key is_server key_direction =
     (let hmac0 = slice ta_key 64 96; hmac1 = slice ta_key 192 224 in
      if is_server \<and> (key_direction = Some 0 \<or> key_direction = None) then
        Inr \<lparr>ha_tx_key = hmac0, ha_rx_key = hmac1\<rparr>
      else if is_server \<and> key_direction = Some 1 then
        Inr \<lparr>ha_tx_key = hmac1, ha_rx_key = hmac0\<rparr>
      else if \<not> is_server \<and> (key_direction = Some 1 \<or> key_direction = None) then
        Inr \<lparr>ha_tx_key = hmac1, ha_rx_key = hmac0\<rparr>
      else if \<not> is_server \<and> key_direction = Some 0 then
        Inr \<lparr>ha_tx_key = hmac0, ha_rx_key = hmac1\<rparr>
      else
        Inl (Err (InvalidPem (''Invalid key direction: is_server=''
          @ (if is_server then ''true'' else ''false'')
          @ '', key_direction='' @ show_key_direction key_direction))))"

definition authenticate :: "mac \<Rightarrow> HmacAuth \<Rightarrow> bytes \<Rightarrow> bytes" where
  "authenticate hmac a data = hmac (ha_tx_key a) data"

definition verify :: "mac \<Rightarrow> HmacAuth \<Rightarrow> bytes \<Rightarrow> bytes \<Rightarrow> (CryptoError, unit) res" where
  "verify hmac a data expected_hmac =
     (if hmac (ha_rx_key a) data = expected_hmac then Inr () else Inl (Err HmacVerificationFailed))"

definition wrap :: "mac \<Rightarrow> HmacAuth \<Rightarrow> bytes \<Rightarrow> bytes" where
  "wrap hmac a data = authenticate hmac a data @ data"

definition unwrap :: "mac \<Rightarrow> HmacAuth \<Rightarrow> bytes \<Rightarrow> (CryptoError, bytes) res" where
  "unwrap hmac a packet =
     (if length packet < HMAC_SIZE then Inl (Err HmacVerificationFailed)
      else
        let mac = take HMAC_SIZE packet; data = drop HMAC_SIZE packet in
        and_then (verify hmac a data mac) (\<lambda>_. Inr data))"

section \<open>tls-crypt\<close>

record TlsCryptKey =
  tc_cipher_key :: bytes
  tc_hmac_key :: bytes

definition TlsCryptKey_new :: "bytes \<Rightarrow> bytes \<Rightarrow> TlsCryptKey" where
  "TlsCryptKey_new ck hk = \<lparr>tc_cipher_key = ck, tc_hmac_key = hk\<rparr>"

definition from_combined :: "bytes \<Rightarrow> TlsCryptKey" where
  "from_combined key = \<lparr>tc_cipher_key = slice key 0 32, tc_hmac_key = slice key 32 64\<rparr>"

definition TlsCryptKey_wrap ::
    "aead \<Rightarrow> mac \<Rightarrow> TlsCryptKey \<Rightarrow> bytes \<Rightarrow> bytes \<Rightarrow> (CryptoError, bytes) res" where
  "TlsCryptKey_wrap L hmac k nonce plaintext =
     and_then (Cipher_encrypt L (Cipher_new (tc_cipher_key k) ChaCha20Poly1305) nonce plaintext [])
       (\<lambda>ciphertext.
          let hmac_input = nonce @ ciphertext in
          Inr (hmac (tc_hmac_key k) hmac_input @ nonce @ ciphertext))"

definition TlsCryptKey_unwrap ::
    "aead \<Rightarrow> mac \<Rightarrow> TlsCryptKey \<Rightarrow> bytes \<Rightarrow> (CryptoError, bytes) res" where
  "TlsCryptKey_unwrap L hmac k packet =
     (if length packet < 32 + 12 + 16 then Inl (Err DecryptionFailed)
      else
        let mac = take 32 packet; rest = drop 32 packet;
            nonce = take 12 rest; ciphertext = drop 12 rest
        in if hmac (tc_hmac_key k) (nonce @ ciphertext) \<noteq> mac then Inl (Err HmacVerificationFailed)
           else Cipher_decrypt L (Cipher_new (tc_cipher_key k) ChaCha20Poly1305) nonce ciphertext [])"

section \<open>Lemmas\<close>

text \<open>Which half of the key is used for sending: the first one for a server unless its direction
  is 1, and for a client only if its direction is 0.\<close>

definition sends_with_first :: "bool \<Rightarrow> u8 option \<Rightarrow> bool" where
  "sends_with_first is_server d \<longleftrightarrow> (if is_server then d \<noteq> Some 1 else d = Some 0)"

lemma from_ta_key_Inr:
  assumes "from_ta_key ta is_server d = Inr a"
  shows "a = (if sends_with_first is_server d
              then \<lparr>ha_tx_key = slice ta 64 96, ha_rx_key = slice ta 192 224\<rparr>
              else \<lparr>ha_tx_key = slice ta 192 224, ha_rx_key = slice ta 64 96\<rparr>)"
proof -
  have "(0::u8) \<noteq> 1" by simp
  with assms show ?thesis
    unfolding from_ta_key_def sends_with_first_def Let_def
    by (cases is_server; cases "d = None"; cases "d = Some 0"; cases "d = Some 1") simp_all
qed

lemma verify_authenticate:
  "ha_rx_key b = ha_tx_key a \<Longrightarrow> verify hmac b d (authenticate hmac a d) = Inr ()"
  by (simp add: verify_def authenticate_def)

lemma verify_Inr_iff: "verify hmac a d m = Inr u \<longleftrightarrow> m = hmac (ha_rx_key a) d"
  by (auto simp: verify_def)

lemma verify_no_panic: "no_panic (verify hmac a d m)"
  by (simp add: verify_def)

lemma unwrap_wrap:
  "hmac_law hmac \<Longrightarrow> ha_rx_key b = ha_tx_key a \<Longrightarrow> unwrap hmac b (wrap hmac a d) = Inr d"
  by (simp add: unwrap_def wrap_def HMAC_SIZE_def verify_authenticate hmac_law_def authenticate_def
        verify_def)

lemma unwrap_Inr_iff:
  "hmac_law hmac \<Longrightarrow> unwrap hmac b p = Inr d \<longleftrightarrow> p = hmac (ha_rx_key b) d @ d"
  by (auto simp: unwrap_def HMAC_SIZE_def verify_def hmac_law_def Let_def res_simps
        split: if_splits intro: append_take_drop_id [symmetric])

lemma tls_crypt_unwrap_wrap:
  assumes "aead_laws L" and "hmac_law hmac" and "length nonce = 12"
    and "TlsCryptKey_wrap L hmac k nonce m = Inr p"
  shows "TlsCryptKey_unwrap L hmac k p = Inr m"
proof -
  from assms(4) obtain ct where
    ct: "aead_encrypt L ChaCha20Poly1305 (tc_cipher_key k) nonce [] m = Some ct"
    and p: "p = hmac (tc_hmac_key k) (nonce @ ct) @ nonce @ ct"
    by (auto simp: TlsCryptKey_wrap_def Cipher_encrypt_def Cipher_new_def Let_def res_simps
          split: option.splits)
  then have "length ct = length m + 16" and "aead_decrypt L ChaCha20Poly1305 (tc_cipher_key k) nonce [] ct = Some m"
    using assms(1) by (auto simp: aead_laws_def TAG_SIZE_def)
  then show ?thesis
    using assms(2,3)
    by (simp add: TlsCryptKey_unwrap_def p hmac_law_def Cipher_decrypt_def Cipher_new_def)
qed

section \<open>Properties\<close>

text \<open>A concrete MAC for the witnesses.\<close>

definition null_mac :: mac where
  "null_mac k m = replicate 31 0 @ [sum_list (take 1 k @ m)]"

lemma null_mac_law: "hmac_law null_mac"
  by (simp add: hmac_law_def null_mac_def)

text \<open>
  C8. The two ends of one \<open>ta.key\<close> agree: with opposite effective key directions (the default
  of a server is 0, of a client 1) each end's receive key is the other end's send key, so what
  one wraps the other unwraps, in both directions.
\<close>

theorem ta_key_ends_agree:
  assumes "hmac_law hmac"
    and "from_ta_key ta True sd = Inr s" and "from_ta_key ta False cd = Inr c"
    and "(sd = Some 1) = (cd = Some 0)"
  shows "unwrap hmac c (wrap hmac s d) = Inr d \<and> unwrap hmac s (wrap hmac c d) = Inr d"
proof -
  have "ha_rx_key c = ha_tx_key s \<and> ha_rx_key s = ha_tx_key c"
    using from_ta_key_Inr [OF assms(2)] from_ta_key_Inr [OF assms(3)] assms(4)
    by (auto simp: sends_with_first_def)
  then show ?thesis
    using assms(1) by (simp add: unwrap_wrap)
qed

theorem ta_key_ends_agree_witness:
  "\<exists>s c. from_ta_key (replicate 128 1 @ replicate 128 2) True None = Inr s \<and>
     from_ta_key (replicate 128 1 @ replicate 128 2) False (Some 1) = Inr c \<and> ha_tx_key s \<noteq> ha_rx_key s \<and>
     unwrap null_mac c (wrap null_mac s [1, 2, 3]) = Inr [1, 2, 3] \<and>
     unwrap null_mac s (wrap null_mac c [1, 2, 3]) = Inr [1, 2, 3]"
proof -
  let ?ta = "replicate 128 1 @ replicate 128 2 :: bytes"
  let ?s = "\<lparr>ha_tx_key = replicate 32 1, ha_rx_key = replicate 32 2\<rparr>"
  let ?c = "\<lparr>ha_tx_key = replicate 32 2, ha_rx_key = replicate 32 1\<rparr>"
  have s: "from_ta_key ?ta True None = Inr ?s" and c: "from_ta_key ?ta False (Some 1) = Inr ?c"
    by (simp_all add: from_ta_key_def Let_def)
  show ?thesis
    using s c ta_key_ends_agree [OF null_mac_law s c, of "[1, 2, 3]"] by (auto simp: replicate_eq_replicate)
qed

end
