(* ===== verification/Kdf.thy ===== *)
theory Kdf
  imports Hmac_Auth
begin

text \<open>
  \<open>crates/corevpn-crypto/src/kdf.rs\<close>: derivation of data channel keys. HKDF-SHA256 (crate
  \<open>hkdf\<close>) and the HMACs of the TLS 1.0 PRF are arguments: a keyed hash gives \<open>None\<close> where
  \<open>new_from_slice\<close> refuses the key. The loop of \<open>p_hash\<close> is a partial function, whose value
  \<open>None\<close> stands for not returning; it is shown to return for every hash with a nonempty output.
\<close>

unbundle bit_operations_syntax

section \<open>Key material\<close>

record KeyMaterial =
  client_write_key :: bytes
  server_write_key :: bytes
  client_hmac_key :: bytes
  server_hmac_key :: bytes
  client_implicit_iv :: bytes
  server_implicit_iv :: bytes

text \<open>\<open>hkdf salt ikm info len\<close>.\<close>

type_synonym hkdf = "bytes \<Rightarrow> bytes \<Rightarrow> bytes \<Rightarrow> nat \<Rightarrow> bytes option"

definition derive_keys ::
    "hkdf \<Rightarrow> bytes \<Rightarrow> bytes \<Rightarrow> bytes \<Rightarrow> bytes \<Rightarrow> (CryptoError, KeyMaterial) res" where
  "derive_keys hkdf shared_secret client_random server_random info =
     (let salt = client_random @ server_random in
      case hkdf salt shared_secret info 128 of
        None \<Rightarrow> Inl (Err (KeyDerivationFailed ''HKDF expansion failed''))
      | Some okm \<Rightarrow> Inr
          \<lparr>client_write_key = slice okm 0 32, server_write_key = slice okm 32 64,
           client_hmac_key = slice okm 64 96, server_hmac_key = slice okm 96 128,
           client_implicit_iv = replicate 12 0, server_implicit_iv = replicate 12 0\<rparr>)"

text \<open>The constructors from a block of bytes panic on a block that is too short.\<close>

definition from_raw_block :: "bytes \<Rightarrow> ('e, KeyMaterial) res" where
  "from_raw_block block =
     and_then (byte_range block 0 32) (\<lambda>cw.
     and_then (byte_range block 32 64) (\<lambda>sw.
     and_then (byte_range block 64 96) (\<lambda>ch.
     and_then (byte_range block 96 128) (\<lambda>sh.
     Inr \<lparr>client_write_key = cw, server_write_key = sw, client_hmac_key = ch, server_hmac_key = sh,
          client_implicit_iv = replicate 12 0, server_implicit_iv = replicate 12 0\<rparr>))))"

definition from_openvpn_aead_key_block :: "bytes \<Rightarrow> ('e, KeyMaterial) res" where
  "from_openvpn_aead_key_block block =
     (if \<not> length block \<ge> 88 then Inl Panic
      else
        and_then (byte_range block 0 32) (\<lambda>cw.
        and_then (byte_range block 32 44) (\<lambda>civ.
        and_then (byte_range block 44 76) (\<lambda>sw.
        and_then (byte_range block 76 88) (\<lambda>siv.
        Inr \<lparr>client_write_key = cw, server_write_key = sw,
             client_hmac_key = replicate 32 0, server_hmac_key = replicate 32 0,
             client_implicit_iv = civ, server_implicit_iv = siv\<rparr>)))))"

definition from_openvpn_key2_block :: "bytes \<Rightarrow> ('e, KeyMaterial) res" where
  "from_openvpn_key2_block block =
     (if \<not> length block \<ge> 256 then Inl Panic
      else
        and_then (byte_range block 0 32) (\<lambda>cw.
        and_then (byte_range block 64 72) (\<lambda>ch.
        and_then (byte_range block 128 160) (\<lambda>sw.
        and_then (byte_range block 192 200) (\<lambda>sh.
        Inr \<lparr>client_write_key = cw, server_write_key = sw,
             client_hmac_key = replicate 32 0, server_hmac_key = replicate 32 0,
             client_implicit_iv = replicate 4 0 @ ch, server_implicit_iv = replicate 4 0 @ sh\<rparr>)))))"

definition client_data_key :: "KeyMaterial \<Rightarrow> CipherSuite \<Rightarrow> DataChannelKey" where
  "client_data_key m suite = DataChannelKey_new_with_iv (client_write_key m) (client_implicit_iv m) suite"

definition server_data_key :: "KeyMaterial \<Rightarrow> CipherSuite \<Rightarrow> DataChannelKey" where
  "server_data_key m suite = DataChannelKey_new_with_iv (server_write_key m) (server_implicit_iv m) suite"

definition derive_single_key :: "hkdf \<Rightarrow> bytes \<Rightarrow> bytes \<Rightarrow> bytes \<Rightarrow> (CryptoError, bytes) res" where
  "derive_single_key hkdf ikm salt info =
     (case hkdf salt ikm info 32 of
        None \<Rightarrow> Inl (Err (KeyDerivationFailed ''HKDF expansion failed''))
      | Some okm \<Rightarrow> Inr okm)"

section \<open>The TLS 1.0 PRF\<close>

type_synonym keyed_hash = "bytes \<Rightarrow> bytes \<Rightarrow> bytes option"

definition keyed :: "keyed_hash \<Rightarrow> bytes \<Rightarrow> bytes \<Rightarrow> (CryptoError, bytes) res" where
  "keyed H secret m =
     (case H secret m of None \<Rightarrow> Inl (Err (KeyDerivationFailed ''Invalid HMAC key'')) | Some d \<Rightarrow> Inr d)"

text \<open>The \<open>while\<close> loop of \<open>p_hash\<close> with its variables \<open>a\<close> and \<open>output\<close>.\<close>

partial_function (option) p_hash_loop ::
    "keyed_hash \<Rightarrow> bytes \<Rightarrow> bytes \<Rightarrow> nat \<Rightarrow> bytes \<Rightarrow> bytes \<Rightarrow> (CryptoError, bytes) res option" where
  "p_hash_loop H secret seed output_len a output =
     (if length output < output_len then
        case keyed H secret a of
          Inl e \<Rightarrow> Some (Inl e)
        | Inr a \<Rightarrow>
            (case keyed H secret (a @ seed) of
               Inl e \<Rightarrow> Some (Inl e)
             | Inr d \<Rightarrow> p_hash_loop H secret seed output_len a (output @ d))
      else Some (Inr output))"

declare p_hash_loop.simps [code]

definition p_hash :: "keyed_hash \<Rightarrow> bytes \<Rightarrow> bytes \<Rightarrow> nat \<Rightarrow> (CryptoError, bytes) res option" where
  "p_hash H secret seed output_len =
     (case p_hash_loop H secret seed output_len seed [] of
        None \<Rightarrow> None
      | Some r \<Rightarrow> Some (and_then r (\<lambda>output. Inr (take output_len output))))"

text \<open>The final loop \<open>output.push(p_md5[i] ^ p_sha1[i])\<close>.\<close>

fun xor_push :: "bytes \<Rightarrow> bytes \<Rightarrow> nat list \<Rightarrow> bytes \<Rightarrow> (CryptoError, bytes) res" where
  "xor_push p q [] output = Inr output"
| "xor_push p q (i # is) output =
     and_then (byte_at p i) (\<lambda>a. and_then (byte_at q i) (\<lambda>b. xor_push p q is (output @ [a XOR b])))"

definition openvpn_prf ::
    "keyed_hash \<Rightarrow> keyed_hash \<Rightarrow> bytes \<Rightarrow> bytes \<Rightarrow> bytes \<Rightarrow> nat \<Rightarrow> (CryptoError, bytes) res option" where
  "openvpn_prf md5 sha1 secret label seed output_len =
     (let combined_seed = label @ seed;
          half = (length secret + 1) div 2;
          s1 = take half secret;
          s2 = drop (length secret div 2) secret
      in case p_hash md5 s1 combined_seed output_len of
           None \<Rightarrow> None
         | Some (Inl e) \<Rightarrow> Some (Inl e)
         | Some (Inr p_md5) \<Rightarrow>
             (case p_hash sha1 s2 combined_seed output_len of
                None \<Rightarrow> None
              | Some (Inl e) \<Rightarrow> Some (Inl e)
              | Some (Inr p_sha1) \<Rightarrow> Some (xor_push p_md5 p_sha1 [0..<output_len] [])))"

section \<open>The RFC 2246 formula\<close>

text \<open>\<open>A(0) = seed\<close>, \<open>A(i) = H(secret, A(i-1))\<close>; the output is the concatenation of the
  blocks \<open>H(secret, A(i) + seed)\<close> for \<open>i = 1, 2, ...\<close>\<close>

definition A_seq :: "(bytes \<Rightarrow> bytes) \<Rightarrow> bytes \<Rightarrow> nat \<Rightarrow> bytes" where
  "A_seq h seed i = (h ^^ i) seed"

definition p_blocks :: "(bytes \<Rightarrow> bytes) \<Rightarrow> bytes \<Rightarrow> nat \<Rightarrow> bytes" where
  "p_blocks h seed k = concat (map (\<lambda>i. h (A_seq h seed (Suc i) @ seed)) [0..<k])"

definition prf_expand :: "(bytes \<Rightarrow> bytes) \<Rightarrow> bytes \<Rightarrow> nat \<Rightarrow> bytes" where
  "prf_expand h seed n = take n (p_blocks h seed n)"

lemma p_blocks_Suc: "p_blocks h seed (Suc k) = p_blocks h seed k @ h (A_seq h seed (Suc k) @ seed)"
  by (simp add: p_blocks_def)

lemma length_p_blocks: "(\<And>m. length (h m) = n) \<Longrightarrow> length (p_blocks h seed k) = n * k"
  by (induction k) (simp_all add: p_blocks_Suc, simp add: p_blocks_def)

lemma take_p_blocks_mono:
  assumes "\<And>m. length (h m) = n" and "j \<le> k" and "len \<le> n * j"
  shows "take len (p_blocks h seed k) = take len (p_blocks h seed j)"
  using assms(2)
proof (induction k rule: dec_induct)
  case (step k)
  have "len \<le> length (p_blocks h seed k)"
    using assms(3) step.hyps by (simp add: length_p_blocks [OF assms(1)] order.trans)
  with step.IH show ?case by (simp add: p_blocks_Suc)
qed simp

text \<open>From round \<open>k\<close> on, the loop returns the blocks up to the first that suffices.\<close>

lemma p_hash_loop_blocks:
  assumes H: "\<And>m. H secret m = Some (h m)" and len: "\<And>m. length (h m) = n" and n: "0 < n"
  shows "\<exists>j. k \<le> j \<and> output_len \<le> n * j \<and>
    p_hash_loop H secret seed output_len (A_seq h seed k) (p_blocks h seed k)
      = Some (Inr (p_blocks h seed j))"
proof (induction "output_len - n * k" arbitrary: k rule: less_induct)
  case less
  show ?case
  proof (cases "n * k < output_len")
    case True
    have step: "p_hash_loop H secret seed output_len (A_seq h seed k) (p_blocks h seed k)
        = p_hash_loop H secret seed output_len (A_seq h seed (Suc k)) (p_blocks h seed (Suc k))"
      by (subst p_hash_loop.simps)
         (simp add: True keyed_def H length_p_blocks [OF len] A_seq_def p_blocks_Suc)
    have "output_len - n * Suc k < output_len - n * k"
      using True n by simp
    from less.hyps [OF this] show ?thesis
      unfolding step by (meson Suc_leD)
  next
    case False
    then show ?thesis
      by (intro exI [of _ k]) (simp add: p_hash_loop.simps length_p_blocks [OF len])
  qed
qed

lemma p_hash_eq:
  assumes H: "\<And>m. H secret m = Some (h m)" and len: "\<And>m. length (h m) = n" and n: "0 < n"
  shows "p_hash H secret seed output_len = Some (Inr (prf_expand h seed output_len))"
proof -
  obtain j where j: "output_len \<le> n * j"
    "p_hash_loop H secret seed output_len (A_seq h seed 0) (p_blocks h seed 0)
       = Some (Inr (p_blocks h seed j))"
    using p_hash_loop_blocks [of H secret h n 0 output_len seed, OF H len n] by blast
  have "take output_len (p_blocks h seed j) = take output_len (p_blocks h seed output_len)"
  proof (cases "j \<le> output_len")
    case True
    then show ?thesis
      using take_p_blocks_mono [of h n j output_len output_len, OF len _ j(1)] by simp
  next
    case False
    moreover have "output_len \<le> n * output_len" using n by simp
    ultimately show ?thesis
      using take_p_blocks_mono [of h n output_len j output_len, OF len] by simp
  qed
  then show ?thesis
    using j(2) by (simp add: p_hash_def prf_expand_def A_seq_def p_blocks_def)
qed

lemma length_prf_expand:
  assumes "\<And>m. length (h m) = n" and "0 < n"
  shows "length (prf_expand h seed k) = k"
  using assms by (simp add: prf_expand_def length_p_blocks)

lemma xor_push_eq:
  "(\<forall>i\<in>set is. i < length p \<and> i < length q) \<Longrightarrow>
     xor_push p q is out = Inr (out @ map (\<lambda>i. p ! i XOR q ! i) is)"
  by (induction "is" arbitrary: out) simp_all

section \<open>Properties\<close>

text \<open>
  C9. The key expansion returns, without panic, the TLS 1.0 PRF of RFC 2246: for keyed hashes
  that accept every key and have outputs of fixed nonzero length, \<open>openvpn_prf\<close> gives exactly
  \<open>output_len\<close> bytes, byte \<open>i\<close> being the exclusive or of the expansions under the two
  (overlapping) halves of the secret.
\<close>

theorem openvpn_prf_is_tls1_prf:
  assumes "\<And>k m. md5 k m = Some (h5 k m)" and "\<And>k m. length (h5 k m) = nm" and "0 < nm"
    and "\<And>k m. sha1 k m = Some (h1 k m)" and "\<And>k m. length (h1 k m) = ns" and "0 < ns"
  shows "openvpn_prf md5 sha1 secret label seed len = Some (Inr (map (\<lambda>i.
     prf_expand (h5 (take ((length secret + 1) div 2) secret)) (label @ seed) len ! i XOR
     prf_expand (h1 (drop (length secret div 2) secret)) (label @ seed) len ! i) [0..<len]))"
proof -
  let ?s1 = "take ((length secret + 1) div 2) secret" and ?s2 = "drop (length secret div 2) secret"
  let ?p = "prf_expand (h5 ?s1) (label @ seed) len" and ?q = "prf_expand (h1 ?s2) (label @ seed) len"
  have "p_hash md5 ?s1 (label @ seed) len = Some (Inr ?p)"
    by (rule p_hash_eq [of md5 ?s1 "h5 ?s1", OF assms(1) assms(2) assms(3)])
  moreover have "p_hash sha1 ?s2 (label @ seed) len = Some (Inr ?q)"
    by (rule p_hash_eq [of sha1 ?s2 "h1 ?s2", OF assms(4) assms(5) assms(6)])
  moreover have "length ?p = len" "length ?q = len"
    using assms by (simp_all add: length_prf_expand [where n = nm] length_prf_expand [where n = ns])
  ultimately show ?thesis
    by (simp add: openvpn_prf_def Let_def xor_push_eq)
qed

definition short_hash :: "u8 \<Rightarrow> bytes \<Rightarrow> bytes \<Rightarrow> bytes" where
  "short_hash c k m = [sum_list k + sum_list m, c + of_nat (length m)]"

theorem openvpn_prf_is_tls1_prf_witness:
  "openvpn_prf (\<lambda>k m. Some (short_hash 1 k m)) (\<lambda>k m. Some (short_hash 2 k m)) [3, 4, 5] [1] [2] 3
     = Some (Inr [11, 3, 8])"
proof -
  let ?s = "[3, 4, 5] :: bytes"
  have "openvpn_prf (\<lambda>k m. Some (short_hash 1 k m)) (\<lambda>k m. Some (short_hash 2 k m)) ?s [1] [2] 3
      = Some (Inr (map (\<lambda>i.
          prf_expand (short_hash 1 (take ((length ?s + 1) div 2) ?s)) ([1] @ [2]) 3 ! i XOR
          prf_expand (short_hash 2 (drop (length ?s div 2) ?s)) ([1] @ [2]) 3 ! i) [0..<3]))"
    by (rule openvpn_prf_is_tls1_prf [where nm = 2 and ns = 2]) (simp_all add: short_hash_def)
  also have "\<dots> = Some (Inr [11, 3, 8])"
    by code_simp
  finally show ?thesis .
qed

text \<open>
  Data channel keys taken from a 256-byte \<open>key2\<close> block give the nonce OpenVPN uses: the
  four packet id bytes followed by the first eight bytes of the direction's HMAC key, bytes
  64..72 for the client's direction and 192..200 for the server's.
\<close>

theorem key2_block_nonces:
  assumes "256 \<le> length block" and "length pid = 4"
  shows "\<exists>m. from_openvpn_key2_block block = Inr m \<and>
     build_nonce (PacketCipher_new (client_data_key m suite)) pid = pid @ slice block 64 72 \<and>
     build_nonce (PacketCipher_new (server_data_key m suite)) pid = pid @ slice block 192 200 \<and>
     length (client_write_key m) = 32 \<and> length (server_write_key m) = 32"
proof -
  obtain a b c d where pid: "pid = [a, b, c, d]" using assms(2) by (rule length_4_cases)
  have r4: "replicate 4 (0 :: u8) = [0, 0, 0, 0]" by (simp add: numeral_eq_Suc)
  show ?thesis
    using assms(1)
    by (simp add: from_openvpn_key2_block_def pid build_nonce_def PacketCipher_new_def
          client_data_key_def server_data_key_def DataChannelKey_new_with_iv_def r4 Let_def)
qed

theorem key2_block_nonces_witness:
  "\<exists>m. from_openvpn_key2_block (replicate 128 1 @ replicate 128 2) = Inr m \<and>
     build_nonce (PacketCipher_new (client_data_key m Aes256Gcm)) [0, 0, 0, 9] = [0, 0, 0, 9] @ replicate 8 1 \<and>
     build_nonce (PacketCipher_new (server_data_key m Aes256Gcm)) [0, 0, 0, 9] = [0, 0, 0, 9] @ replicate 8 2"
  using key2_block_nonces [of "replicate 128 1 @ replicate 128 2" "[0, 0, 0, 9]" Aes256Gcm]
  by auto

end
