(* ===== verification/Data_Channel.thy ===== *)
theory Data_Channel
  imports Packet Packet_Cipher
begin

text \<open>
  \<open>crates/corevpn-protocol/src/data.rs\<close>: data packets, the encrypting channel of one key id,
  and the compression stub.
\<close>

unbundle bit_operations_syntax

section \<open>Data packets\<close>

record DataPacket =
  dp_key_id :: KeyId
  dp_peer_id :: "u32 option"
  dp_payload :: bytes

definition DataPacket_new :: "KeyId \<Rightarrow> bytes \<Rightarrow> DataPacket" where
  "DataPacket_new key_id payload = \<lparr>dp_key_id = key_id, dp_peer_id = None, dp_payload = payload\<rparr>"

definition DataPacket_new_v2 :: "KeyId \<Rightarrow> u32 \<Rightarrow> bytes \<Rightarrow> DataPacket" where
  "DataPacket_new_v2 key_id peer_id payload =
     \<lparr>dp_key_id = key_id, dp_peer_id = Some peer_id, dp_payload = payload\<rparr>"

definition DataPacket_parse :: "bytes \<Rightarrow> (ProtocolError, DataPacket) res" where
  "DataPacket_parse data =
     (if data = [] then Inl (Err (PacketTooShort 1 0))
      else
        and_then (byte_at data 0) (\<lambda>b0.
        and_then (OpCode_from_byte b0) (\<lambda>opcode.
        let key_id = KeyId_from_byte b0 in
        and_then
          (if opcode = DataV2 then
             and_then (ensure (\<not> length data < 4) (PacketTooShort 4 (length data))) (\<lambda>_.
             and_then (byte_at data 1) (\<lambda>a.
             and_then (byte_at data 2) (\<lambda>b.
             and_then (byte_at data 3) (\<lambda>c.
             Inr (Some (peer_id_of a b c), 4)))))
           else Inr (None, 1)) (\<lambda>(peer_id, payload_start).
        and_then (byte_range data payload_start (length data)) (\<lambda>payload.
        Inr \<lparr>dp_key_id = key_id, dp_peer_id = peer_id, dp_payload = payload\<rparr>)))))"

definition DataPacket_serialize :: "DataPacket \<Rightarrow> bytes" where
  "DataPacket_serialize p =
     (let opcode = (if dp_peer_id p \<noteq> None then DataV2 else DataV1) in
      [OpCode_to_byte opcode (dp_key_id p)] @ opt_bytes peer_id_bytes (dp_peer_id p) @ dp_payload p)"

section \<open>The channel\<close>

record DataChannel =
  dc_key_id :: KeyId
  dc_peer_id :: "u32 option"
  dc_encrypt_cipher :: PacketCipher
  dc_decrypt_cipher :: PacketCipher
  dc_use_v2 :: bool
  dc_encrypt_ad_prefix :: bytes

definition DataChannel_new ::
    "KeyId \<Rightarrow> DataChannelKey \<Rightarrow> DataChannelKey \<Rightarrow> bool \<Rightarrow> u32 option \<Rightarrow> DataChannel" where
  "DataChannel_new key_id encrypt_key decrypt_key use_v2 peer_id =
     (let encrypt_ad_prefix =
        (if use_v2 then
           let opcode_byte = OpCode_to_byte DataV2 key_id;
               pid = (case peer_id of None \<Rightarrow> 0 | Some p \<Rightarrow> p)
           in [opcode_byte, ucast (drop_bit 16 pid), ucast (drop_bit 8 pid), ucast pid]
         else [])
      in \<lparr>dc_key_id = key_id, dc_peer_id = peer_id, dc_encrypt_cipher = PacketCipher_new encrypt_key,
          dc_decrypt_cipher = PacketCipher_new decrypt_key, dc_use_v2 = use_v2,
          dc_encrypt_ad_prefix = encrypt_ad_prefix\<rparr>)"

definition decrypt_ad_prefix :: "DataPacket \<Rightarrow> bytes" where
  "decrypt_ad_prefix packet =
     (case dp_peer_id packet of
        Some pid \<Rightarrow> [OpCode_to_byte DataV2 (dp_key_id packet), ucast (drop_bit 16 pid),
                     ucast (drop_bit 8 pid), ucast pid]
      | None \<Rightarrow> [])"

definition DataChannel_encrypt ::
    "aead \<Rightarrow> DataChannel \<Rightarrow> bytes \<Rightarrow> (ProtocolError, DataPacket) res \<times> DataChannel" where
  "DataChannel_encrypt L ch ip_packet =
     (let (r, cipher) = PacketCipher_encrypt L (dc_encrypt_cipher ch) ip_packet (dc_encrypt_ad_prefix ch);
          ch = ch\<lparr>dc_encrypt_cipher := cipher\<rparr>
      in (and_then (map_err ProtocolError.CryptoError r) (\<lambda>encrypted.
          Inr \<lparr>dp_key_id = dc_key_id ch, dp_peer_id = (if dc_use_v2 ch then dc_peer_id ch else None),
               dp_payload = encrypted\<rparr>), ch))"

definition DataChannel_decrypt ::
    "aead \<Rightarrow> DataChannel \<Rightarrow> DataPacket \<Rightarrow> (ProtocolError, bytes) res \<times> DataChannel" where
  "DataChannel_decrypt L ch packet =
     (if dp_key_id packet \<noteq> dc_key_id ch
      then (Inl (Err (KeyNotAvailable (key_u8 (dp_key_id packet)))), ch)
      else
        let ad_prefix = decrypt_ad_prefix packet;
            (r, cipher) = PacketCipher_decrypt L (dc_decrypt_cipher ch) (dp_payload packet) ad_prefix;
            ch = ch\<lparr>dc_decrypt_cipher := cipher\<rparr>
        in (map_err ProtocolError.CryptoError r, ch))"

section \<open>Compression stub\<close>

datatype Compression = CompNone | LzoStub | Lz4Stub

definition is_compressed :: "u8 \<Rightarrow> bool" where
  "is_compressed b \<longleftrightarrow> b = 0xFA \<or> b = 0xFB"

definition strip_header :: "bytes \<Rightarrow> (ProtocolError, bytes) res" where
  "strip_header data =
     (case data of
        [] \<Rightarrow> Inr data
      | b # rest \<Rightarrow>
          if b = 0xFA \<or> b = 0xFB then Inl (Err (InvalidPacket ''compressed data not supported''))
          else if b = 0 then Inr rest
          else Inr data)"

definition add_header :: "bytes \<Rightarrow> Compression \<Rightarrow> bytes" where
  "add_header data c = (case c of CompNone \<Rightarrow> data | _ \<Rightarrow> 0 # data)"

section \<open>Lemmas\<close>

lemma DataPacket_parse_no_panic: "no_panic (DataPacket_parse data)"
  by (auto simp: DataPacket_parse_def Let_def res_simps Suc_le_eq intro!: no_panic_intros split: if_splits)

text \<open>Only the low 24 bits of the peer id reach the wire.\<close>

lemma DataPacket_parse_serialize:
  assumes "key_ok (dp_key_id p)"
  shows "DataPacket_parse (DataPacket_serialize p) =
     Inr (p\<lparr>dp_peer_id := map_option (\<lambda>pid. peer_id_of (ucast (drop_bit 16 pid)) (ucast (drop_bit 8 pid))
                                              (ucast pid)) (dp_peer_id p)\<rparr>)"
proof (cases "dp_peer_id p")
  case None
  with assms show ?thesis
    by (simp add: DataPacket_parse_def DataPacket_serialize_def opt_bytes_def Let_def
          OpCode_from_to_byte KeyId_from_to_byte_ok)
next
  case (Some pid)
  with assms show ?thesis
    by (simp add: DataPacket_parse_def DataPacket_serialize_def opt_bytes_def Let_def
          peer_id_bytes_def OpCode_from_to_byte KeyId_from_to_byte_ok)
qed

text \<open>What every channel made by \<open>DataChannel_new\<close> with a peer id for version 2 satisfies.\<close>

definition channel_ok :: "DataChannel \<Rightarrow> bool" where
  "channel_ok ch \<longleftrightarrow> key_ok (dc_key_id ch) \<and> (dc_use_v2 ch \<longrightarrow> dc_peer_id ch \<noteq> None) \<and>
     dc_encrypt_ad_prefix ch =
       (if dc_use_v2 ch
        then [OpCode_to_byte DataV2 (dc_key_id ch)] @ opt_bytes peer_id_bytes (dc_peer_id ch)
        else [])"

lemma channel_ok_new:
  "key_ok key_id \<Longrightarrow> (use_v2 \<longrightarrow> peer_id \<noteq> None) \<Longrightarrow> channel_ok (DataChannel_new key_id ek dk use_v2 peer_id)"
  by (auto simp: channel_ok_def DataChannel_new_def Let_def opt_bytes_def peer_id_bytes_def)

lemma channel_ok_encrypt: "channel_ok ch \<Longrightarrow> channel_ok (snd (DataChannel_encrypt L ch ip))"
  by (simp add: channel_ok_def DataChannel_encrypt_def Let_def split_beta)

lemma channel_ok_decrypt: "channel_ok ch \<Longrightarrow> channel_ok (snd (DataChannel_decrypt L ch p))"
  by (simp add: channel_ok_def DataChannel_decrypt_def Let_def split_beta)

lemma decrypt_ad_prefix_alt:
  "decrypt_ad_prefix p = opt_bytes (\<lambda>pid. OpCode_to_byte DataV2 (dp_key_id p) # peer_id_bytes pid) (dp_peer_id p)"
  by (simp add: decrypt_ad_prefix_def opt_bytes_def peer_id_bytes_def)

lemma ad_prefix_agrees:
  assumes "channel_ok ch" and "fst (DataChannel_encrypt L ch ip) = Inr p"
    and "DataPacket_parse (DataPacket_serialize p) = Inr p'"
  shows "decrypt_ad_prefix p' = dc_encrypt_ad_prefix ch"
proof -
  from assms(2) have p: "dp_key_id p = dc_key_id ch"
    "dp_peer_id p = (if dc_use_v2 ch then dc_peer_id ch else None)"
    by (auto simp: DataChannel_encrypt_def Let_def split_beta res_simps)
  have ok: "key_ok (dp_key_id p)" using assms(1) p by (simp add: channel_ok_def)
  have p': "dp_key_id p' = dp_key_id p" "dp_peer_id p' = map_option (\<lambda>pid.
      peer_id_of (ucast (drop_bit 16 pid)) (ucast (drop_bit 8 pid)) (ucast pid)) (dp_peer_id p)"
    using assms(3) by (auto simp: DataPacket_parse_serialize [OF ok])
  show ?thesis
  proof (cases "dc_use_v2 ch")
    case True
    with assms(1) obtain pid where "dc_peer_id ch = Some pid" by (auto simp: channel_ok_def)
    with True assms(1) show ?thesis
      by (simp add: decrypt_ad_prefix_alt p p' opt_bytes_def channel_ok_def peer_id_bytes_def [of pid])
  next
    case False
    with assms(1) show ?thesis
      by (simp add: decrypt_ad_prefix_alt p p' opt_bytes_def channel_ok_def)
  qed
qed

text \<open>
  The compression stub: a packet with the stub header added is stripped back to itself,
  and a packet without one passes unchanged iff it does not begin with one of the three marker
  bytes, which no IPv4 or IPv6 packet does.
\<close>

lemma compression_stub_roundtrip:
  "strip_header (add_header d LzoStub) = Inr d \<and> strip_header (add_header d Lz4Stub) = Inr d \<and>
   (strip_header (add_header d CompNone) = Inr d \<longleftrightarrow> d = [] \<or> hd d \<notin> {0, 0xFA, 0xFB})"
  by (cases d) (auto simp: strip_header_def add_header_def)

section \<open>Properties\<close>

text \<open>
  C7. End to end over the wire: the datagram a channel makes of an IP packet parses, and the
  peer's channel with the matching key decrypts it to the IP packet, for version 1 and 2
  packets and every peer id, if the peer's window accepts the id and the tag read at the
  end is not a forgery. The additional data both ends authenticate is the same header.
\<close>

theorem data_channel_delivers:
  assumes "aead_laws L" and "channel_ok s" and "dc_key_id r = dc_key_id s"
    and "pc_cipher (dc_decrypt_cipher r) = pc_cipher (dc_encrypt_cipher s)"
    and "pc_implicit_iv (dc_decrypt_cipher r) = pc_implicit_iv (dc_encrypt_cipher s)"
    and "fst (DataChannel_encrypt L s ip) = Inr p"
    and "fst (ReplayWindow_check_and_update (pc_rx_window (dc_decrypt_cipher r)) (packet_counter (dp_payload p)))"
    and "aead_decrypt L (cipher_suite (pc_cipher (dc_decrypt_cipher r))) (cipher_key (pc_cipher (dc_decrypt_cipher r)))
           (build_nonce (dc_decrypt_cipher r) (take 4 (dp_payload p)))
           (dc_encrypt_ad_prefix s @ take 4 (dp_payload p)) (drop 4 (dp_payload p)) \<in> {None, Some ip}"
  shows "\<exists>p'. DataPacket_parse (DataPacket_serialize p) = Inr p' \<and> fst (DataChannel_decrypt L r p') = Inr ip"
proof -
  obtain c' where enc: "PacketCipher_encrypt L (dc_encrypt_cipher s) ip (dc_encrypt_ad_prefix s)
      = (Inr (dp_payload p), c')" and key: "dp_key_id p = dc_key_id s"
    using assms(6)
    by (cases "PacketCipher_encrypt L (dc_encrypt_cipher s) ip (dc_encrypt_ad_prefix s)")
       (auto simp: DataChannel_encrypt_def Let_def res_simps)
  have "key_ok (dp_key_id p)"
    using assms(2) key by (simp add: channel_ok_def)
  then obtain p' where p': "DataPacket_parse (DataPacket_serialize p) = Inr p'"
    and same: "dp_key_id p' = dp_key_id p" "dp_payload p' = dp_payload p"
    using DataPacket_parse_serialize by force
  have "fst (PacketCipher_decrypt L (dc_decrypt_cipher r) (dp_payload p) (dc_encrypt_ad_prefix s)) = Inr ip"
    by (rule PacketCipher_decrypt_encrypt [OF assms(1) enc assms(4,5,7,8)])
  then have "fst (DataChannel_decrypt L r p') = Inr ip"
    using key same assms(3) ad_prefix_agrees [OF assms(2,6) p']
    by (simp add: DataChannel_decrypt_def Let_def split_beta)
  with p' show ?thesis by blast
qed

definition sample_sender :: DataChannel where
  "sample_sender = DataChannel_new (KeyId 1) sample_key sample_key True (Some 5)"

theorem data_channel_delivers_witness:
  "\<exists>p p'. fst (DataChannel_encrypt null_aead sample_sender [69, 0]) = Inr p \<and>
     DataPacket_parse (DataPacket_serialize p) = Inr p' \<and>
     fst (DataChannel_decrypt null_aead sample_sender p') = Inr [69, 0]"
proof -
  let ?p = "\<lparr>dp_key_id = KeyId 1, dp_peer_id = Some 5,
             dp_payload = [0, 0, 0, 1] @ replicate 16 0 @ [69, 0]\<rparr> :: DataPacket"
  let ?c = "dc_decrypt_cipher sample_sender"
  have ok: "channel_ok sample_sender"
    unfolding sample_sender_def by (rule channel_ok_new) (simp_all add: key_ok_def)
  have enc: "fst (DataChannel_encrypt null_aead sample_sender [69, 0]) = Inr ?p"
    by code_simp
  have same: "pc_cipher ?c = pc_cipher (dc_encrypt_cipher sample_sender)"
    "pc_implicit_iv ?c = pc_implicit_iv (dc_encrypt_cipher sample_sender)"
    by (simp_all add: sample_sender_def DataChannel_new_def)
  have fresh: "fst (ReplayWindow_check_and_update (pc_rx_window ?c) (packet_counter (dp_payload ?p)))"
    by code_simp
  have "aead_decrypt null_aead (cipher_suite (pc_cipher ?c)) (cipher_key (pc_cipher ?c))
      (build_nonce ?c (take 4 (dp_payload ?p)))
      (dc_encrypt_ad_prefix sample_sender @ take 4 (dp_payload ?p)) (drop 4 (dp_payload ?p))
      \<in> {None, Some [69, 0]}"
    by code_simp
  from data_channel_delivers [OF null_aead_laws ok refl same enc fresh this] enc show ?thesis
    by blast
qed

end
