(* ===== verification/Reliable.thy ===== *)
theory Reliable
  imports Errors
begin

text \<open>
  \<open>crates/corevpn-protocol/src/reliable.rs\<close>: acknowledgement, ordering and retransmission of
  control packets. The clock is an argument \<open>now\<close> of the operations that read it. An operation
  that takes \<open>&mut self\<close> and returns a \<open>Result\<close> gives the result and the new state, since what
  it changed before returning an error stays changed.
\<close>

section \<open>Configuration and state\<close>

record ReliableConfig =
  initial_rto :: duration
  max_rto :: duration
  rto_backoff :: rat
  max_retransmits :: u32
  window_size :: u32
  ack_delay :: duration

definition ReliableConfig_default :: ReliableConfig where
  "ReliableConfig_default =
     \<lparr>initial_rto = from_secs 2, max_rto = from_secs 60, rto_backoff = 2, max_retransmits = 10,
      window_size = 8, ack_delay = from_millis 100\<rparr>"

record PendingPacket =
  pp_data :: bytes
  pp_sent_at :: instant
  pp_next_retransmit :: instant
  pp_rto :: duration
  pp_retransmits :: u32

record ReliableTransport =
  rt_config :: ReliableConfig
  rt_next_send_id :: u32
  rt_next_recv_id :: u32
  rt_pending :: "(u32 \<times> PendingPacket) list"
  rt_pending_acks :: "u32 list"
  rt_out_of_order :: "(u32 \<times> bytes) list"
  rt_last_ack_sent :: "instant option"
  rt_srtt :: "duration option"
  rt_rttvar :: duration

definition ReliableTransport_new :: "ReliableConfig \<Rightarrow> ReliableTransport" where
  "ReliableTransport_new config =
     \<lparr>rt_config = config, rt_next_send_id = 0, rt_next_recv_id = 0, rt_pending = [],
      rt_pending_acks = [], rt_out_of_order = [], rt_last_ack_sent = None, rt_srtt = None,
      rt_rttvar = from_millis 500\<rparr>"

section \<open>Operations\<close>

definition calculate_rto :: "ReliableTransport \<Rightarrow> duration" where
  "calculate_rto t =
     (case rt_srtt t of
        Some srtt \<Rightarrow>
          let rto = srtt + rt_rttvar t * 4
          in min (max rto (initial_rto (rt_config t))) (max_rto (rt_config t))
      | None \<Rightarrow> initial_rto (rt_config t))"

definition send :: "ReliableTransport \<Rightarrow> instant \<Rightarrow> bytes \<Rightarrow> (ProtocolError, u32 \<times> bytes) res \<times> ReliableTransport" where
  "send t now data =
     (if length (rt_pending t) \<ge> unat (window_size (rt_config t))
      then (Inl (Err (InvalidPacket ''send window full'')), t)
      else
        let packet_id = rt_next_send_id t;
            t = t\<lparr>rt_next_send_id := rt_next_send_id t + 1\<rparr>;
            rto = calculate_rto t;
            t = t\<lparr>rt_pending := bt_insert packet_id
                    \<lparr>pp_data = data, pp_sent_at = now, pp_next_retransmit = now + rto,
                     pp_rto = rto, pp_retransmits = 0\<rparr> (rt_pending t)\<rparr>
        in (Inr (packet_id, data), t))"

definition MAX_OUT_OF_ORDER :: nat where "MAX_OUT_OF_ORDER = 100"

text \<open>\<open>while let Some(_buffered) = self.out_of_order.remove(&self.next_recv_id)\<close>.\<close>

function skip_buffered :: "u32 \<Rightarrow> (u32 \<times> bytes) list \<Rightarrow> u32 \<times> (u32 \<times> bytes) list" where
  "skip_buffered n ooo =
     (case map_of ooo n of
        Some _ \<Rightarrow> skip_buffered (n + 1) (bt_remove n ooo)
      | None \<Rightarrow> (n, ooo))"
  by pat_completeness auto

lemma length_bt_remove_present: "map_of m k = Some v \<Longrightarrow> length (bt_remove k m) < length m"
  unfolding bt_remove_def by (induction m) (auto split: if_splits intro: le_imp_less_Suc)

termination skip_buffered
  by (relation "measure (length \<circ> snd)") (auto intro: length_bt_remove_present)

declare skip_buffered.simps [simp del]

definition receive :: "ReliableTransport \<Rightarrow> u32 \<Rightarrow> bytes \<Rightarrow> (ProtocolError, bytes option) res \<times> ReliableTransport" where
  "receive t packet_id data =
     (let t = t\<lparr>rt_pending_acks := rt_pending_acks t @ [packet_id]\<rparr> in
      if packet_id = rt_next_recv_id t then
        let (next, ooo) = skip_buffered (rt_next_recv_id t + 1) (rt_out_of_order t)
        in (Inr (Some data), t\<lparr>rt_next_recv_id := next, rt_out_of_order := ooo\<rparr>)
      else if packet_id > rt_next_recv_id t then
        if length (rt_out_of_order t) \<ge> MAX_OUT_OF_ORDER
        then (Inl (Err (InvalidPacket ''too many out-of-order packets'')), t)
        else (Inr None, t\<lparr>rt_out_of_order := bt_insert packet_id data (rt_out_of_order t)\<rparr>)
      else (Inr None, t))"

definition update_rtt :: "ReliableTransport \<Rightarrow> duration \<Rightarrow> ReliableTransport" where
  "update_rtt t rtt =
     (case rt_srtt t of
        Some srtt \<Rightarrow>
          let diff = (if rtt \<ge> srtt then rtt - srtt else srtt - rtt)
          in t\<lparr>rt_rttvar := round_ns (3 / 4 * of_nat (rt_rttvar t) + 1 / 4 * of_nat diff),
               rt_srtt := Some (round_ns (7 / 8 * of_nat srtt + 1 / 8 * of_nat rtt))\<rparr>
      | None \<Rightarrow> t\<lparr>rt_srtt := Some rtt, rt_rttvar := rtt div 2\<rparr>)"

fun process_acks :: "ReliableTransport \<Rightarrow> instant \<Rightarrow> u32 list \<Rightarrow> ReliableTransport" where
  "process_acks t now [] = t"
| "process_acks t now (ack_id # acks) =
     (case map_of (rt_pending t) ack_id of
        Some pending \<Rightarrow>
          let t = t\<lparr>rt_pending := bt_remove ack_id (rt_pending t)\<rparr>;
              t = (if pp_retransmits pending = 0 then update_rtt t (now - pp_sent_at pending) else t)
          in process_acks t now acks
      | None \<Rightarrow> process_acks t now acks)"

definition get_acks :: "ReliableTransport \<Rightarrow> u32 list \<times> ReliableTransport" where
  "get_acks t = (rt_pending_acks t, t\<lparr>rt_pending_acks := []\<rparr>)"

definition should_send_ack :: "ReliableTransport \<Rightarrow> instant \<Rightarrow> bool" where
  "should_send_ack t now =
     (if rt_pending_acks t = [] then False
      else case rt_last_ack_sent t of
             Some sent \<Rightarrow> now - sent \<ge> ack_delay (rt_config t)
           | None \<Rightarrow> True)"

definition ack_sent :: "ReliableTransport \<Rightarrow> instant \<Rightarrow> ReliableTransport" where
  "ack_sent t now = t\<lparr>rt_last_ack_sent := Some now\<rparr>"

text \<open>
  The loop over \<open>self.pending.iter_mut()\<close>: the packets to send again and the updated entries.
  \<open>from_secs_f64\<close> panics on a negative value.
\<close>

fun retransmit_loop ::
    "ReliableConfig \<Rightarrow> instant \<Rightarrow> (u32 \<times> PendingPacket) list
       \<Rightarrow> (ProtocolError, (u32 \<times> bytes) list \<times> (u32 \<times> PendingPacket) list) res" where
  "retransmit_loop cfg now [] = Inr ([], [])"
| "retransmit_loop cfg now ((pid, p) # ps) =
     (if now \<ge> pp_next_retransmit p \<and> \<not> pp_retransmits p \<ge> max_retransmits cfg then
        let x = min (of_nat (pp_rto p) * rto_backoff cfg) (of_nat (max_rto cfg)) in
        if x < 0 then Inl Panic
        else
          let rto = round_ns x;
              p' = p\<lparr>pp_retransmits := pp_retransmits p + 1, pp_rto := rto, pp_next_retransmit := now + rto\<rparr>
          in and_then (retransmit_loop cfg now ps) (\<lambda>(out, ps'). Inr ((pid, pp_data p) # out, (pid, p') # ps'))
      else
        and_then (retransmit_loop cfg now ps) (\<lambda>(out, ps'). Inr (out, (pid, p) # ps')))"

definition get_retransmits ::
    "ReliableTransport \<Rightarrow> instant \<Rightarrow> (ProtocolError, (u32 \<times> bytes) list \<times> ReliableTransport) res" where
  "get_retransmits t now =
     and_then (retransmit_loop (rt_config t) now (rt_pending t)) (\<lambda>(out, pending).
     Inr (out, t\<lparr>rt_pending := pending\<rparr>))"

definition has_pending :: "ReliableTransport \<Rightarrow> bool" where
  "has_pending t \<longleftrightarrow> rt_pending t \<noteq> []"

definition next_timeout :: "ReliableTransport \<Rightarrow> instant \<Rightarrow> duration option" where
  "next_timeout t now =
     (case map (pp_next_retransmit \<circ> snd) (rt_pending t) of
        [] \<Rightarrow> None
      | x # xs \<Rightarrow> Some (fold min xs x - now))"

section \<open>The transport as a transition system\<close>

inductive transport_step :: "ReliableTransport \<Rightarrow> ReliableTransport \<Rightarrow> bool" where
  step_send: "transport_step t (snd (send t now data))"
| step_receive: "transport_step t (snd (receive t packet_id data))"
| step_process_acks: "transport_step t (process_acks t now acks)"
| step_get_acks: "transport_step t (snd (get_acks t))"
| step_ack_sent: "transport_step t (ack_sent t now)"
| step_get_retransmits: "get_retransmits t now = Inr (out, t') \<Longrightarrow> transport_step t t'"

text \<open>
  The invariant: both maps are maps, neither exceeds its bound, buffered packets lie ahead of the
  next expected one, and no pending packet has been sent again more often than allowed or waits
  longer than the configuration permits.
\<close>

definition pending_ok :: "ReliableConfig \<Rightarrow> PendingPacket \<Rightarrow> bool" where
  "pending_ok cfg p \<longleftrightarrow>
     pp_retransmits p \<le> max_retransmits cfg \<and> pp_rto p \<le> max (initial_rto cfg) (max_rto cfg)"

definition transport_inv :: "ReliableTransport \<Rightarrow> bool" where
  "transport_inv t \<longleftrightarrow>
     bt_wf (rt_pending t) \<and> bt_wf (rt_out_of_order t) \<and>
     length (rt_pending t) \<le> unat (window_size (rt_config t)) \<and>
     length (rt_out_of_order t) \<le> MAX_OUT_OF_ORDER \<and>
     (\<forall>id data. map_of (rt_out_of_order t) id = Some data \<longrightarrow> rt_next_recv_id t < id) \<and>
     (\<forall>p \<in> snd ` set (rt_pending t). pending_ok (rt_config t) p)"

section \<open>Every operation keeps the invariant\<close>

lemma skip_buffered_keeps:
  "bt_wf ooo \<Longrightarrow> (\<forall>k d. map_of ooo k = Some d \<longrightarrow> n \<le> k) \<Longrightarrow> skip_buffered n ooo = (n', ooo') \<Longrightarrow>
     bt_wf ooo' \<and> length ooo' \<le> length ooo \<and> (\<forall>k d. map_of ooo' k = Some d \<longrightarrow> n' < k)"
proof (induction n ooo rule: skip_buffered.induct)
  case (1 n ooo)
  show ?case
  proof (cases "map_of ooo n")
    case None
    with 1 show ?thesis by (auto simp: skip_buffered.simps [of n ooo] order.strict_iff_order)
  next
    case (Some d)
    have "n + 1 \<le> k" if "map_of (bt_remove n ooo) k = Some d'" for k d'
      using that "1.prems"(2) by (intro word_add_one_le) (auto simp: map_of_bt_remove order.strict_iff_order split: if_splits)
    with "1.IH" [OF Some] "1.prems" Some show ?thesis
      using length_bt_remove_le [of n ooo] by (auto simp: skip_buffered.simps [of n ooo] bt_wf_remove)
  qed
qed

lemma inv_new: "transport_inv (ReliableTransport_new cfg)"
  by (simp add: transport_inv_def ReliableTransport_new_def bt_wf_def)

lemma calculate_rto_bound: "calculate_rto t \<le> max (initial_rto (rt_config t)) (max_rto (rt_config t))"
  by (auto simp: calculate_rto_def Let_def split: option.splits)

lemma inv_send: "transport_inv t \<Longrightarrow> transport_inv (snd (send t now data))"
proof -
  assume inv: "transport_inv t"
  show ?thesis
  proof (cases "length (rt_pending t) \<ge> unat (window_size (rt_config t))")
    case True
    with inv show ?thesis by (simp add: send_def)
  next
    case False
    let ?p = "\<lparr>pp_data = data, pp_sent_at = now,
        pp_next_retransmit = now + calculate_rto (t\<lparr>rt_next_send_id := rt_next_send_id t + 1\<rparr>),
        pp_rto = calculate_rto (t\<lparr>rt_next_send_id := rt_next_send_id t + 1\<rparr>), pp_retransmits = 0\<rparr>"
    have "length (bt_insert (rt_next_send_id t) ?p (rt_pending t)) \<le> Suc (length (rt_pending t))"
      using inv by (intro bt.size_put_le) (simp add: transport_inv_def)
    moreover have "pending_ok (rt_config t) ?p"
      using calculate_rto_bound [of "t\<lparr>rt_next_send_id := rt_next_send_id t + 1\<rparr>"] by (simp add: pending_ok_def)
    then have "\<forall>p \<in> snd ` set (bt_insert (rt_next_send_id t) ?p (rt_pending t)). pending_ok (rt_config t) p"
      using inv by (intro ball_bt_insert) (simp_all add: transport_inv_def)
    ultimately show ?thesis
      using inv False by (simp add: send_def Let_def transport_inv_def bt_wf_insert)
  qed
qed

lemma inv_receive: "transport_inv t \<Longrightarrow> transport_inv (snd (receive t pid data))"
proof -
  assume inv: "transport_inv t"
  consider (now_due) "pid = rt_next_recv_id t" | (ahead) "pid > rt_next_recv_id t" | (old) "pid < rt_next_recv_id t"
    by (rule linorder_cases)
  then show ?thesis
  proof cases
    case now_due
    obtain n' ooo' where skip: "skip_buffered (rt_next_recv_id t + 1) (rt_out_of_order t) = (n', ooo')"
      by (cases "skip_buffered (rt_next_recv_id t + 1) (rt_out_of_order t)")
    have "\<forall>k d. map_of (rt_out_of_order t) k = Some d \<longrightarrow> rt_next_recv_id t + 1 \<le> k"
      using inv by (auto simp: transport_inv_def intro: word_add_one_le)
    from skip_buffered_keeps [OF _ this skip] inv now_due show ?thesis
      by (auto simp: receive_def skip transport_inv_def)
  next
    case ahead
    have "length (bt_insert pid data (rt_out_of_order t)) \<le> Suc (length (rt_out_of_order t))"
      using inv by (intro bt.size_put_le) (simp add: transport_inv_def)
    with inv ahead show ?thesis
      by (auto simp: receive_def Let_def transport_inv_def bt_wf_insert map_of_bt_insert)
  next
    case old
    with inv show ?thesis by (auto simp: receive_def Let_def transport_inv_def)
  qed
qed

lemma update_rtt_keeps:
  "rt_pending (update_rtt t r) = rt_pending t" "rt_config (update_rtt t r) = rt_config t"
  "rt_out_of_order (update_rtt t r) = rt_out_of_order t" "rt_next_recv_id (update_rtt t r) = rt_next_recv_id t"
  by (simp_all add: update_rtt_def Let_def split: option.split)

lemma inv_process_acks: "transport_inv t \<Longrightarrow> transport_inv (process_acks t now acks)"
proof (induction acks arbitrary: t)
  case (Cons ack acks)
  let ?t = "t\<lparr>rt_pending := bt_remove ack (rt_pending t)\<rparr>"
  have "\<forall>p \<in> snd ` set (bt_remove ack (rt_pending t)). pending_ok (rt_config t) p"
    using Cons.prems by (intro ball_bt_remove) (simp add: transport_inv_def)
  then have t: "transport_inv ?t"
    using Cons.prems order.trans [OF length_bt_remove_le [of ack "rt_pending t"]]
    by (simp add: transport_inv_def bt_wf_remove)
  then have u: "transport_inv (update_rtt ?t r)" for r
    by (simp add: transport_inv_def update_rtt_keeps)
  show ?case
  proof (cases "map_of (rt_pending t) ack")
    case None
    with Cons show ?thesis by simp
  next
    case (Some p)
    with t u show ?thesis by (simp add: Let_def Cons.IH)
  qed
qed simp

text \<open>The retransmission loop keeps the ids and sends each packet at most once.\<close>

lemma retransmit_loop_Cons:
  assumes "retransmit_loop cfg now ((pid, p) # ps) = Inr (out, ps')"
  obtains out1 p1 ps1 where "retransmit_loop cfg now ps = Inr (out1, ps1)" and "ps' = (pid, p1) # ps1"
    and "if now \<ge> pp_next_retransmit p \<and> pp_retransmits p < max_retransmits cfg
         then out = (pid, pp_data p) # out1 \<and> pp_retransmits p1 = pp_retransmits p + 1 \<and>
           pp_rto p1 \<le> max_rto cfg \<and> pp_next_retransmit p1 = now + pp_rto p1 \<and> pp_data p1 = pp_data p
         else out = out1 \<and> p1 = p"
proof -
  let ?x = "min (of_nat (pp_rto p) * rto_backoff cfg) (of_nat (max_rto cfg))"
  have rto: "round_ns ?x \<le> max_rto cfg" by (rule round_ns_le) simp
  show thesis
  proof (cases "now \<ge> pp_next_retransmit p \<and> pp_retransmits p < max_retransmits cfg")
    case True
    with assms obtain out1 ps1 where "retransmit_loop cfg now ps = Inr (out1, ps1)"
      and "ps' = (pid, p\<lparr>pp_retransmits := pp_retransmits p + 1, pp_rto := round_ns ?x,
              pp_next_retransmit := now + round_ns ?x\<rparr>) # ps1" and "out = (pid, pp_data p) # out1"
      by (fastforce simp: Let_def res_simps not_le split: if_splits)
    with True rto show ?thesis by (intro that) auto
  next
    case False
    with assms obtain out1 ps1 where "retransmit_loop cfg now ps = Inr (out1, ps1)"
      and "ps' = (pid, p) # ps1" and "out = out1"
      by (fastforce simp: res_simps not_le split: if_splits)
    with False show ?thesis by (intro that) auto
  qed
qed

lemma retransmit_loop_keeps:
  "retransmit_loop cfg now ps = Inr (out, ps') \<Longrightarrow> \<forall>p \<in> snd ` set ps. pending_ok cfg p \<Longrightarrow>
     map fst ps' = map fst ps \<and> (\<forall>p \<in> snd ` set ps'. pending_ok cfg p)"
proof (induction ps arbitrary: out ps')
  case (Cons e ps)
  obtain pid p where e: "e = (pid, p)" by (cases e)
  from Cons.prems(1) show ?case
    unfolding e
  proof (rule retransmit_loop_Cons)
    fix out1 p1 ps1
    assume loop: "retransmit_loop cfg now ps = Inr (out1, ps1)" and ps': "ps' = (pid, p1) # ps1"
      and "if now \<ge> pp_next_retransmit p \<and> pp_retransmits p < max_retransmits cfg
         then out = (pid, pp_data p) # out1 \<and> pp_retransmits p1 = pp_retransmits p + 1 \<and>
           pp_rto p1 \<le> max_rto cfg \<and> pp_next_retransmit p1 = now + pp_rto p1 \<and> pp_data p1 = pp_data p
         else out = out1 \<and> p1 = p"
    then have "pending_ok cfg p1"
      using Cons.prems(2) by (auto simp: e pending_ok_def le_max_iff_disj word_add_one_le split: if_splits)
    then show "map fst ps' = map fst ((pid, p) # ps) \<and> (\<forall>p \<in> snd ` set ps'. pending_ok cfg p)"
      using Cons.IH [OF loop] Cons.prems(2) by (simp add: ps')
  qed
qed simp

lemma inv_get_retransmits: "get_retransmits t now = Inr (out, t') \<Longrightarrow> transport_inv t \<Longrightarrow> transport_inv t'"
proof -
  assume "get_retransmits t now = Inr (out, t')" and inv: "transport_inv t"
  then obtain ps where ps: "retransmit_loop (rt_config t) now (rt_pending t) = Inr (out, ps)"
    and t': "t' = t\<lparr>rt_pending := ps\<rparr>"
    by (auto simp: get_retransmits_def res_simps)
  from retransmit_loop_keeps [OF ps] inv
  have keep: "map fst ps = map fst (rt_pending t)" "\<forall>p \<in> snd ` set ps. pending_ok (rt_config t) p"
    by (auto simp: transport_inv_def)
  then have "length ps = length (rt_pending t)" by (metis length_map)
  with keep inv show ?thesis by (simp add: t' transport_inv_def bt_wf_def)
qed

lemma inv_get_acks: "transport_inv t \<Longrightarrow> transport_inv (snd (get_acks t))"
  by (simp add: get_acks_def transport_inv_def)

lemma inv_ack_sent: "transport_inv t \<Longrightarrow> transport_inv (ack_sent t now)"
  by (simp add: ack_sent_def transport_inv_def)

interpretation transport: stepper "\<lambda>t. \<exists>cfg. t = ReliableTransport_new cfg" transport_step transport_inv
proof unfold_locales
  fix s t assume "transport_step s t" and "transport_inv s"
  then show "transport_inv t"
    by cases (auto intro: inv_send inv_receive inv_process_acks inv_get_retransmits inv_get_acks inv_ack_sent)
qed (auto simp: inv_new)

section \<open>Delivery\<close>

text \<open>Receiving a sequence of packets; the ids of those whose payload is handed on.\<close>

fun receive_run :: "ReliableTransport \<Rightarrow> (u32 \<times> bytes) list \<Rightarrow>
    (ProtocolError, bytes option) res list \<times> ReliableTransport" where
  "receive_run t [] = ([], t)"
| "receive_run t ((pid, data) # ps) =
     (let (r, t') = receive t pid data; (rs, t'') = receive_run t' ps in (r # rs, t''))"

fun delivered :: "(ProtocolError, bytes option) res list \<Rightarrow> (u32 \<times> bytes) list \<Rightarrow> (u32 \<times> bytes) list" where
  "delivered (Inr (Some d) # rs) ((pid, _) # ps) = (pid, d) # delivered rs ps"
| "delivered (r # rs) (p # ps) = delivered rs ps"
| "delivered _ _ = []"

lemma skip_buffered_count:
  "bt_wf ooo \<Longrightarrow> unat n + length ooo < 2 ^ 32 \<Longrightarrow> skip_buffered n ooo = (n', ooo') \<Longrightarrow>
     unat n' + length ooo' = unat n + length ooo"
proof (induction n ooo rule: skip_buffered.induct)
  case (1 n ooo)
  show ?case
  proof (cases "map_of ooo n")
    case None
    with 1 show ?thesis by (simp add: skip_buffered.simps [of n ooo])
  next
    case (Some d)
    then have len: "Suc (length (bt_remove n ooo)) = length ooo"
      using "1.prems"(1) by (intro bt.size_remove_present) auto
    with "1.prems"(2) have "unat (n + 1) = unat n + 1"
      by (intro unat_add_one) simp
    with "1.IH" [OF Some] "1.prems" Some len show ?thesis
      by (simp add: skip_buffered.simps [of n ooo] bt_wf_remove)
  qed
qed

text \<open>One call: what is delivered is the expected packet, and the expectation then moves on.\<close>

lemma receive_progress:
  assumes inv: "transport_inv t" and room: "unat (rt_next_recv_id t) + length (rt_out_of_order t) + 1 < 2 ^ 32"
    and step: "receive t pid data = (r, t')"
  shows "unat (rt_next_recv_id t') + length (rt_out_of_order t')
           \<le> unat (rt_next_recv_id t) + length (rt_out_of_order t) + 1"
    and "rt_next_recv_id t \<le> rt_next_recv_id t'"
    and "r = Inr (Some d) \<Longrightarrow> pid = rt_next_recv_id t \<and> d = data \<and> rt_next_recv_id t < rt_next_recv_id t'"
proof -
  have all: "unat (rt_next_recv_id t') + length (rt_out_of_order t')
           \<le> unat (rt_next_recv_id t) + length (rt_out_of_order t) + 1 \<and>
     rt_next_recv_id t \<le> rt_next_recv_id t' \<and>
     (r = Inr (Some d) \<longrightarrow> pid = rt_next_recv_id t \<and> d = data \<and> rt_next_recv_id t < rt_next_recv_id t')"
  proof (cases "pid = rt_next_recv_id t")
    case True
    obtain n' ooo' where skip: "skip_buffered (rt_next_recv_id t + 1) (rt_out_of_order t) = (n', ooo')"
      by (cases "skip_buffered (rt_next_recv_id t + 1) (rt_out_of_order t)")
    have wf: "bt_wf (rt_out_of_order t)" using inv by (simp add: transport_inv_def)
    have one: "unat (rt_next_recv_id t + 1) = unat (rt_next_recv_id t) + 1"
      using room by (intro unat_add_one) simp
    have ahead: "\<forall>k d. map_of (rt_out_of_order t) k = Some d \<longrightarrow> rt_next_recv_id t + 1 \<le> k"
      using inv by (auto simp: transport_inv_def intro: word_add_one_le)
    have "unat n' + length ooo' = unat (rt_next_recv_id t + 1) + length (rt_out_of_order t)"
      using skip_buffered_count [OF wf _ skip] room one by simp
    moreover have "length ooo' \<le> length (rt_out_of_order t)"
      using skip_buffered_keeps [OF wf ahead skip] by simp
    ultimately show ?thesis
      using step True one by (auto simp: receive_def skip word_le_nat_alt word_less_nat_alt)
  next
    case False
    have "length (bt_insert pid data (rt_out_of_order t)) \<le> Suc (length (rt_out_of_order t))"
      using inv by (intro bt.size_put_le) (simp add: transport_inv_def)
    with False step show ?thesis
      by (auto simp: receive_def Let_def split: if_splits)
  qed
  then show "unat (rt_next_recv_id t') + length (rt_out_of_order t')
           \<le> unat (rt_next_recv_id t) + length (rt_out_of_order t) + 1"
    and "rt_next_recv_id t \<le> rt_next_recv_id t'"
    and "r = Inr (Some d) \<Longrightarrow> pid = rt_next_recv_id t \<and> d = data \<and> rt_next_recv_id t < rt_next_recv_id t'"
    by blast+
qed

lemma receive_run_sorted:
  "transport_inv t \<Longrightarrow> unat (rt_next_recv_id t) + length (rt_out_of_order t) + length ps < 2 ^ 32 \<Longrightarrow>
     sorted_wrt (<) (map fst (delivered (fst (receive_run t ps)) ps)) \<and>
     (\<forall>e \<in> set (delivered (fst (receive_run t ps)) ps). rt_next_recv_id t \<le> fst e \<and> e \<in> set ps)"
proof (induction ps arbitrary: t)
  case (Cons p ps)
  obtain pid data where p: "p = (pid, data)" by (cases p)
  obtain r t' where step: "receive t pid data = (r, t')" by (cases "receive t pid data")
  have room: "unat (rt_next_recv_id t) + length (rt_out_of_order t) + 1 < 2 ^ 32"
    using Cons.prems(2) by simp
  note prog = receive_progress [OF Cons.prems(1) room step]
  have "transport_inv t'" using inv_receive [OF Cons.prems(1), of pid data] by (simp add: step)
  moreover have "unat (rt_next_recv_id t') + length (rt_out_of_order t') + length ps < 2 ^ 32"
    using prog(1) Cons.prems(2) by simp
  ultimately have ih: "sorted_wrt (<) (map fst (delivered (fst (receive_run t' ps)) ps))"
    "\<And>e. e \<in> set (delivered (fst (receive_run t' ps)) ps) \<Longrightarrow> rt_next_recv_id t' \<le> fst e \<and> e \<in> set ps"
    using Cons.IH by blast+
  show ?case
  proof (cases "\<exists>d. r = Inr (Some d)")
    case True
    then obtain d where d: "r = Inr (Some d)" by blast
    with prog(3) have "pid = rt_next_recv_id t" "d = data" "rt_next_recv_id t < rt_next_recv_id t'"
      by blast+
    note here = this
    have "delivered (fst (receive_run t (p # ps))) (p # ps)
        = (pid, d) # delivered (fst (receive_run t' ps)) ps"
      by (simp add: p step d split_beta)
    moreover have "rt_next_recv_id t < fst e" if "e \<in> set (delivered (fst (receive_run t' ps)) ps)" for e
      using ih(2) [OF that] here(3) by (meson order.strict_trans2)
    ultimately show ?thesis
      using ih here by (auto simp: p dest: less_imp_le)
  next
    case False
    then have "delivered (fst (receive_run t (p # ps))) (p # ps) = delivered (fst (receive_run t' ps)) ps"
      by (cases r) (auto simp: p step split_beta split: option.split)
    then show ?thesis
      using ih prog(2) by fastforce
  qed
qed simp

lemma receive_run_in_order:
  "rt_out_of_order t = [] \<Longrightarrow>
     fst (receive_run t (zip (map (\<lambda>i. rt_next_recv_id t + of_nat i) [0..<length ds]) ds)) = map (Inr \<circ> Some) ds"
proof (induction ds arbitrary: t)
  case (Cons d ds)
  define t' where "t' = snd (receive t (rt_next_recv_id t) d)"
  have t': "rt_out_of_order t' = []" "rt_next_recv_id t' = rt_next_recv_id t + 1"
    using Cons.prems by (simp_all add: t'_def receive_def skip_buffered.simps)
  have r: "receive t (rt_next_recv_id t) d = (Inr (Some d), t')"
    by (simp add: t'_def receive_def split_beta)
  have ids: "map (\<lambda>i. rt_next_recv_id t + of_nat i) [0..<Suc n]
      = rt_next_recv_id t # map (\<lambda>i. rt_next_recv_id t' + of_nat i) [0..<n]" for n
    by (simp add: map_upt_Suc t' add.assoc del: upt_Suc)
  show ?case
    using Cons.IH [OF t'(1)] by (simp add: ids r split_beta del: upt_Suc)
qed simp

text \<open>The calls of \<open>get_retransmits\<close> at the given times; all packets they return.\<close>

fun retransmit_run :: "ReliableTransport \<Rightarrow> instant list \<Rightarrow> (ProtocolError, (u32 \<times> bytes) list) res" where
  "retransmit_run t [] = Inr []"
| "retransmit_run t (now # nows) =
     and_then (get_retransmits t now) (\<lambda>(out, t').
     and_then (retransmit_run t' nows) (\<lambda>outs. Inr (out @ outs)))"

lemma retransmit_loop_ids:
  "retransmit_loop cfg now ps = Inr (out, ps') \<Longrightarrow> fst ` set out \<subseteq> fst ` set ps"
proof (induction ps arbitrary: out ps')
  case (Cons e ps)
  obtain k q where e: "e = (k, q)" by (cases e)
  from Cons.prems [unfolded e] show ?case
    by (rule retransmit_loop_Cons) (auto simp: e split: if_splits dest: Cons.IH)
qed simp

lemma retransmit_loop_count:
  "retransmit_loop cfg now ps = Inr (out, ps') \<Longrightarrow> distinct (map fst ps) \<Longrightarrow> map_of ps pid = Some p \<Longrightarrow>
     pp_retransmits p \<le> max_retransmits cfg \<Longrightarrow>
     \<exists>p'. map_of ps' pid = Some p' \<and> pp_retransmits p' \<le> max_retransmits cfg \<and>
       unat (pp_retransmits p') = unat (pp_retransmits p) + count_list (map fst out) pid"
proof (induction ps arbitrary: out ps')
  case (Cons e ps)
  obtain k q where e: "e = (k, q)" by (cases e)
  from Cons.prems(1) show ?case
    unfolding e
  proof (rule retransmit_loop_Cons)
    fix out1 p1 ps1
    assume loop: "retransmit_loop cfg now ps = Inr (out1, ps1)" and ps': "ps' = (k, p1) # ps1"
      and step: "if now \<ge> pp_next_retransmit q \<and> pp_retransmits q < max_retransmits cfg
         then out = (k, pp_data q) # out1 \<and> pp_retransmits p1 = pp_retransmits q + 1 \<and>
           pp_rto p1 \<le> max_rto cfg \<and> pp_next_retransmit p1 = now + pp_rto p1 \<and> pp_data p1 = pp_data q
         else out = out1 \<and> p1 = q"
    show ?thesis
    proof (cases "pid = k")
      case True
      have "pid \<notin> fst ` set ps" using Cons.prems(2) True e by auto
      then have "count_list (map fst out1) pid = 0"
        using retransmit_loop_ids [OF loop] by (auto simp: count_list_0_iff)
      moreover have "unat (pp_retransmits q + 1) = unat (pp_retransmits q) + 1"
        if "pp_retransmits q < max_retransmits cfg"
        using that unat_bound [of "max_retransmits cfg"] by (intro unat_add_one) (simp add: word_less_nat_alt)
      ultimately show ?thesis
        using Cons.prems(3,4) step True e
        by (auto simp: ps' word_add_one_le split: if_splits)
    next
      case False
      with Cons.IH [OF loop] Cons.prems(2-4) step e show ?thesis
        by (auto simp: ps' split: if_splits)
    qed
  qed
qed simp

lemma retransmit_run_count:
  "retransmit_run t nows = Inr out \<Longrightarrow> transport_inv t \<Longrightarrow> map_of (rt_pending t) pid = Some p \<Longrightarrow>
     unat (pp_retransmits p) + count_list (map fst out) pid \<le> unat (max_retransmits (rt_config t))"
proof (induction nows arbitrary: t p out)
  case Nil
  then have "p \<in> snd ` set (rt_pending t)" by (force dest: map_of_SomeD)
  with Nil show ?case by (auto simp: transport_inv_def pending_ok_def word_le_nat_alt)
next
  case (Cons now nows)
  then obtain out1 t1 outs where step: "get_retransmits t now = Inr (out1, t1)"
    and rest: "retransmit_run t1 nows = Inr outs" and out: "out = out1 @ outs"
    by (auto simp: res_simps)
  from step obtain ps where loop: "retransmit_loop (rt_config t) now (rt_pending t) = Inr (out1, ps)"
    and t1: "t1 = t\<lparr>rt_pending := ps\<rparr>"
    by (auto simp: get_retransmits_def res_simps)
  have "p \<in> snd ` set (rt_pending t)" using Cons.prems(3) by (force dest: map_of_SomeD)
  then have "pp_retransmits p \<le> max_retransmits (rt_config t)" and "distinct (map fst (rt_pending t))"
    using Cons.prems(2) by (auto simp: transport_inv_def pending_ok_def bt_wf_distinct)
  from retransmit_loop_count [OF loop this(2) Cons.prems(3) this(1)] obtain p' where
    "map_of (rt_pending t1) pid = Some p'" and
    "unat (pp_retransmits p') = unat (pp_retransmits p) + count_list (map fst out1) pid"
    by (auto simp: t1)
  with Cons.IH [OF rest inv_get_retransmits [OF step Cons.prems(2)]] show ?case
    by (simp add: out t1)
qed

lemma get_retransmits_no_panic:
  assumes "0 \<le> rto_backoff (rt_config t)"
  shows "\<exists>out t'. get_retransmits t now = Inr (out, t')"
proof -
  have "\<exists>out ps'. retransmit_loop (rt_config t) now ps = Inr (out, ps')" for ps
  proof (induction ps)
    case (Cons e ps)
    obtain pid p where e: "e = (pid, p)" by (cases e)
    have "\<not> min (of_nat (pp_rto p) * rto_backoff (rt_config t)) (of_nat (max_rto (rt_config t))) < 0"
      using assms by (simp add: not_less)
    with Cons show ?case by (auto simp: e Let_def)
  qed simp
  then obtain out ps' where "retransmit_loop (rt_config t) now (rt_pending t) = Inr (out, ps')"
    by blast
  then show ?thesis by (simp add: get_retransmits_def)
qed

text \<open>A buffered packet that is due is passed over.\<close>

lemma skip_buffered_present:
  assumes "bt_wf ooo" and "map_of ooo n = Some d" and "unat n + length ooo < 2 ^ 32"
    and "\<forall>k d. map_of ooo k = Some d \<longrightarrow> n \<le> k" and "skip_buffered n ooo = (n', ooo')"
  shows "n < n'"
proof -
  have len: "Suc (length (bt_remove n ooo)) = length ooo"
    using assms(1,2) by (intro bt.size_remove_present) auto
  then have one: "unat (n + 1) = unat n + 1"
    using assms(3) by (intro unat_add_one) simp
  have skip: "skip_buffered (n + 1) (bt_remove n ooo) = (n', ooo')"
    using assms(2,5) by (simp add: skip_buffered.simps [of n ooo])
  have "\<forall>k d. map_of (bt_remove n ooo) k = Some d \<longrightarrow> n + 1 \<le> k"
    using assms(4) by (auto simp: map_of_bt_remove order.strict_iff_order intro!: word_add_one_le split: if_splits)
  from skip_buffered_keeps [OF bt_wf_remove [OF assms(1)] this skip]
    skip_buffered_count [OF bt_wf_remove [OF assms(1)] _ skip] len one assms(3)
  show ?thesis by (simp add: word_less_nat_alt)
qed

section \<open>Properties\<close>

text \<open>
  C10. Resource bounds of the transport, in every state reachable by its operations in any
  order and at any times: at most \<open>window_size\<close> packets await acknowledgement, at most 100 are
  buffered out of order, all of them ahead of the next expected id, and no pending packet has
  been sent again more than \<open>max_retransmits\<close> times or has a timeout above the configured ones.
\<close>

theorem transport_bounds:
  assumes "transport_step\<^sup>*\<^sup>* (ReliableTransport_new cfg) t"
  shows "length (rt_pending t) \<le> unat (window_size (rt_config t)) \<and>
     length (rt_out_of_order t) \<le> 100 \<and>
     (\<forall>k d. map_of (rt_out_of_order t) k = Some d \<longrightarrow> rt_next_recv_id t < k) \<and>
     (\<forall>k p. map_of (rt_pending t) k = Some p \<longrightarrow>
        pp_retransmits p \<le> max_retransmits (rt_config t) \<and>
        pp_rto p \<le> max (initial_rto (rt_config t)) (max_rto (rt_config t)))"
proof -
  have inv: "transport_inv t"
    by (rule transport.inv_reachable [OF _ assms]) blast
  then have "pending_ok (rt_config t) p" if "map_of (rt_pending t) k = Some p" for k p
    using that by (auto simp: transport_inv_def dest!: map_of_SomeD)
  with inv show ?thesis
    by (simp add: transport_inv_def pending_ok_def MAX_OUT_OF_ORDER_def)
qed

theorem transport_bounds_witness:
  "let t = snd (send (ReliableTransport_new ReliableConfig_default) 5 [1]) in
     length (rt_pending t) = 1 \<and> length (rt_pending t) \<le> unat (window_size (rt_config t))"
proof -
  let ?t0 = "ReliableTransport_new ReliableConfig_default"
  have "transport_step\<^sup>*\<^sup>* ?t0 (snd (send ?t0 5 [1]))"
    by (intro r_into_rtranclp step_send)
  from transport_bounds [OF this] show ?thesis
    by (simp add: Let_def send_def ReliableTransport_new_def ReliableConfig_default_def)
qed

text \<open>
  C11. Ordering: over any sequence of fewer than \<open>2\<^sup>3\<^sup>2\<close> packets given to a new transport, in
  any order and with any repetitions, the payloads it hands on carry strictly increasing packet
  ids and are payloads of packets received; and a sequence that arrives in order is handed on
  completely.
\<close>

theorem receive_in_order_at_most_once:
  assumes "length ps < 2 ^ 32"
  shows "sorted_wrt (<) (map fst (delivered (fst (receive_run (ReliableTransport_new cfg) ps)) ps)) \<and>
     set (delivered (fst (receive_run (ReliableTransport_new cfg) ps)) ps) \<subseteq> set ps \<and>
     (ps = zip (map of_nat [0..<length ds]) ds \<longrightarrow>
        fst (receive_run (ReliableTransport_new cfg) ps) = map (Inr \<circ> Some) ds)"
  using assms receive_run_sorted [OF inv_new, of cfg ps]
    receive_run_in_order [of "ReliableTransport_new cfg" ds]
  by (auto simp: ReliableTransport_new_def)

theorem receive_in_order_at_most_once_witness:
  "sorted_wrt (<) (map fst (delivered
     (fst (receive_run (ReliableTransport_new ReliableConfig_default) [(0, [7]), (2, [9]), (0, [7]), (1, [8])]))
     [(0, [7]), (2, [9]), (0, [7]), (1, [8])]))"
  using receive_in_order_at_most_once [of "[(0, [7]), (2, [9]), (0, [7]), (1, [8])]" ReliableConfig_default "[]"]
  by simp

text \<open>
  A packet that arrives one place early is lost: it is acknowledged and buffered, but when
  the missing packet arrives only that one is handed on, the buffered payload is discarded, and
  no later retransmission of it is delivered either.
\<close>

theorem reordered_packet_lost:
  assumes "transport_inv t" and "length (rt_out_of_order t) < 100"
    and "unat (rt_next_recv_id t) + length (rt_out_of_order t) + length ps + 2 < 2 ^ 32"
    and "receive t (rt_next_recv_id t + 1) d1 = (r1, t1)" and "receive t1 (rt_next_recv_id t) d0 = (r2, t2)"
  shows "r1 = Inr None \<and> rt_next_recv_id t + 1 \<in> set (rt_pending_acks t1) \<and> r2 = Inr (Some d0) \<and>
     rt_next_recv_id t + 1 \<notin> fst ` set (delivered (fst (receive_run t2 ps)) ps)"
proof -
  let ?n = "rt_next_recv_id t"
  let ?ooo = "bt_insert (?n + 1) d1 (rt_out_of_order t)"
  have wf: "bt_wf (rt_out_of_order t)" using assms(1) by (simp add: transport_inv_def)
  have one: "unat (?n + 1) = unat ?n + 1" using assms(3) by (intro unat_add_one) simp
  have lt: "?n < ?n + 1" by (simp add: word_less_nat_alt one)
  have t1: "r1 = Inr None" "t1 = t\<lparr>rt_pending_acks := rt_pending_acks t @ [?n + 1], rt_out_of_order := ?ooo\<rparr>"
    using assms(2,4) lt by (auto simp: receive_def Let_def MAX_OUT_OF_ORDER_def)
  have inv1: "transport_inv t1" using inv_receive [OF assms(1), of "?n + 1" d1] by (simp add: assms(4))
  have len: "length ?ooo \<le> Suc (length (rt_out_of_order t))" using wf by (rule bt.size_put_le)
  obtain n' ooo' where skip: "skip_buffered (?n + 1) ?ooo = (n', ooo')"
    by (cases "skip_buffered (?n + 1) ?ooo")
  have ahead: "\<forall>k d. map_of ?ooo k = Some d \<longrightarrow> ?n + 1 \<le> k"
    using inv1 by (auto simp: t1 transport_inv_def intro: word_add_one_le)
  have t2: "r2 = Inr (Some d0)" "rt_next_recv_id t2 = n'" "rt_out_of_order t2 = ooo'"
    using assms(5) by (auto simp: t1 receive_def skip)
  have inv2: "transport_inv t2" using inv_receive [OF inv1, of ?n d0] by (simp add: assms(5))
  have "?n + 1 < n'"
    using assms(3) len by (intro skip_buffered_present [OF bt_wf_insert [OF wf] _ _ ahead skip])
      (simp_all add: map_of_bt_insert wf one)
  moreover have "unat n' + length ooo' = unat (?n + 1) + length ?ooo"
    using assms(3) len one by (intro skip_buffered_count [OF bt_wf_insert [OF wf] _ skip]) simp
  then have "unat (rt_next_recv_id t2) + length (rt_out_of_order t2) + length ps < 2 ^ 32"
    using assms(3) len one by (simp add: t2)
  ultimately show ?thesis
    using receive_run_sorted [OF inv2, of ps] t1 t2 by (auto simp: not_le [symmetric])
qed

theorem reordered_packet_lost_witness:
  "let t = ReliableTransport_new ReliableConfig_default; t1 = snd (receive t 1 [8]); t2 = snd (receive t1 0 [7])
   in fst (receive t 1 [8]) = Inr None \<and> fst (receive t1 0 [7]) = Inr (Some [7]) \<and>
      1 \<notin> fst ` set (delivered (fst (receive_run t2 [(1, [8])])) [(1, [8])])"
proof -
  let ?t = "ReliableTransport_new ReliableConfig_default"
  let ?t1 = "snd (receive ?t 1 [8])"
  let ?t2 = "snd (receive ?t1 0 [7])"
  have s1: "receive ?t (rt_next_recv_id ?t + 1) [8] = (fst (receive ?t 1 [8]), ?t1)"
    and s2: "receive ?t1 (rt_next_recv_id ?t) [7] = (fst (receive ?t1 0 [7]), ?t2)"
    by (simp_all add: ReliableTransport_new_def)
  show ?thesis
    using reordered_packet_lost [OF inv_new _ _ s1 s2, of "[(1, [8])]"]
    by (simp add: ReliableTransport_new_def)
qed



end
