(* ===== verification/Tls_Records.thy ===== *)
theory Tls_Records
  imports Errors
begin

text \<open>
  The \<open>TlsRecordReassembler\<close> of \<open>crates/corevpn-protocol/src/reliable.rs\<close>: TLS records arrive in
  the payloads of control packets, cut at arbitrary places, and are put together again from a
  bounded buffer. A record is a five-byte header, whose last two bytes are the length of the
  body, and the body.
\<close>

record TlsRecordReassembler =
  tr_buffer :: bytes
  tr_max_size :: nat

definition TlsRecordReassembler_new :: "nat \<Rightarrow> TlsRecordReassembler" where
  "TlsRecordReassembler_new max_size = \<lparr>tr_buffer = [], tr_max_size = max_size\<rparr>"

definition TlsRecordReassembler_add ::
    "TlsRecordReassembler \<Rightarrow> bytes \<Rightarrow> (ProtocolError, unit) res \<times> TlsRecordReassembler" where
  "TlsRecordReassembler_add r data =
     (if length (tr_buffer r) + length data > tr_max_size r
      then (Inl (Err (InvalidPacket ''TLS record too large'')), r)
      else (Inr (), r\<lparr>tr_buffer := tr_buffer r @ data\<rparr>))"

text \<open>The \<open>while\<close> loop of \<open>extract_records\<close>: the records and the rest of the buffer.\<close>

function extract_loop :: "bytes \<Rightarrow> bytes list \<times> bytes" where
  "extract_loop buffer =
     (if length buffer \<ge> 5 then
        let len = unat (u16_from_be_bytes (buffer ! 3) (buffer ! 4)) in
        if length buffer < 5 + len then ([], buffer)
        else
          let (records, rest) = extract_loop (drop (5 + len) buffer)
          in (take (5 + len) buffer # records, rest)
      else ([], buffer))"
  by pat_completeness auto

termination extract_loop
  by (relation "measure length") auto

declare extract_loop.simps [simp del]

definition extract_records :: "TlsRecordReassembler \<Rightarrow> bytes list \<times> TlsRecordReassembler" where
  "extract_records r =
     (let (records, rest) = extract_loop (tr_buffer r) in (records, r\<lparr>tr_buffer := rest\<rparr>))"

definition TlsRecordReassembler_len :: "TlsRecordReassembler \<Rightarrow> nat" where
  "TlsRecordReassembler_len r = length (tr_buffer r)"

definition TlsRecordReassembler_is_empty :: "TlsRecordReassembler \<Rightarrow> bool" where
  "TlsRecordReassembler_is_empty r \<longleftrightarrow> tr_buffer r = []"

definition TlsRecordReassembler_clear :: "TlsRecordReassembler \<Rightarrow> TlsRecordReassembler" where
  "TlsRecordReassembler_clear r = r\<lparr>tr_buffer := []\<rparr>"

section \<open>What a record is\<close>

definition record_length :: "bytes \<Rightarrow> nat" where
  "record_length b = 5 + unat (u16_from_be_bytes (b ! 3) (b ! 4))"

definition is_record :: "bytes \<Rightarrow> bool" where
  "is_record b \<longleftrightarrow> 5 \<le> length b \<and> length b = record_length b"

definition has_record :: "bytes \<Rightarrow> bool" where
  "has_record b \<longleftrightarrow> 5 \<le> length b \<and> record_length b \<le> length b"

lemma extract_loop_has:
  "has_record b \<Longrightarrow>
     extract_loop b = (let (rs, rest) = extract_loop (drop (record_length b) b) in (take (record_length b) b # rs, rest))"
  by (subst extract_loop.simps) (simp add: has_record_def record_length_def Let_def)

lemma extract_loop_hasnt: "\<not> has_record b \<Longrightarrow> extract_loop b = ([], b)"
  by (subst extract_loop.simps) (auto simp: has_record_def record_length_def Let_def)

lemma record_length_append: "5 \<le> length a \<Longrightarrow> record_length (a @ b) = record_length a"
  by (simp add: record_length_def nth_append)

lemma record_length_ge: "5 \<le> record_length b"
  by (simp add: record_length_def)

lemma record_length_take: "5 \<le> n \<Longrightarrow> record_length (take n b) = record_length b"
  by (simp add: record_length_def)

lemma has_record_append: "has_record a \<Longrightarrow> has_record (a @ b)"
  by (auto simp: has_record_def record_length_append)

lemma record_length_le: "record_length b \<le> 65540"
  using unat_bound [of "u16_from_be_bytes (b ! 3) (b ! 4)"] by (simp add: record_length_def)

lemma extract_loop_induct [case_names has hasnt]:
  assumes "\<And>b. has_record b \<Longrightarrow> P (drop (record_length b) b) \<Longrightarrow> P b" and "\<And>b. \<not> has_record b \<Longrightarrow> P b"
  shows "P b"
proof (induction b rule: length_induct)
  case (1 b)
  show ?case
  proof (cases "has_record b")
    case True
    then have "length (drop (record_length b) b) < length b"
      using record_length_ge [of b] by (auto simp: has_record_def)
    with 1 True assms(1) show ?thesis by blast
  qed (rule assms(2))
qed

text \<open>Nothing is lost or invented, what comes out are records, and what stays is less than one.\<close>

lemma extract_loop_sound:
  "extract_loop b = (rs, rest) \<Longrightarrow> concat rs @ rest = b \<and> (\<forall>r\<in>set rs. is_record r) \<and> \<not> has_record rest"
proof (induction b arbitrary: rs rest rule: extract_loop_induct)
  case (has b)
  obtain rs' where rs': "extract_loop (drop (record_length b) b) = (rs', rest)"
    and rs: "rs = take (record_length b) b # rs'"
    using has.prems by (auto simp: extract_loop_has [OF has.hyps] split: prod.splits)
  have "is_record (take (record_length b) b)"
    using has.hyps record_length_ge [of b]
    by (simp add: is_record_def has_record_def record_length_take)
  with has.IH [OF rs'] show ?case
    by (simp add: rs)
next
  case (hasnt b)
  then show ?case by (auto simp: extract_loop_hasnt)
qed

text \<open>Extracting early and continuing later is extracting once.\<close>

lemma extract_loop_append:
  "extract_loop a = (rs, rest) \<Longrightarrow>
     extract_loop (a @ b) = (let (rs', rest') = extract_loop (rest @ b) in (rs @ rs', rest'))"
proof (induction a arbitrary: rs rest rule: extract_loop_induct)
  case (has a)
  obtain rs' where rs': "extract_loop (drop (record_length a) a) = (rs', rest)"
    and rs: "rs = take (record_length a) a # rs'"
    using has.prems by (auto simp: extract_loop_has [OF has.hyps] split: prod.splits)
  have len: "record_length (a @ b) = record_length a" "record_length a \<le> length a"
    using has.hyps by (auto simp: has_record_def record_length_append)
  show ?case
    by (simp add: extract_loop_has [OF has_record_append [OF has.hyps]] len has.IH [OF rs'] rs split_beta Let_def)
next
  case (hasnt a)
  then show ?case by (simp add: extract_loop_hasnt)
qed

section \<open>Streams\<close>

text \<open>Adding the chunks one after the other, extracting after each.\<close>

fun feed :: "TlsRecordReassembler \<Rightarrow> bytes list \<Rightarrow> (ProtocolError, bytes list) res \<times> TlsRecordReassembler" where
  "feed r [] = (Inr [], r)"
| "feed r (c # cs) =
     (case TlsRecordReassembler_add r c of
        (Inl e, r) \<Rightarrow> (Inl e, r)
      | (Inr _, r) \<Rightarrow>
          let (records, r) = extract_records r; (res, r) = feed r cs
          in (and_then res (\<lambda>more. Inr (records @ more)), r))"

lemma feed_max_size: "tr_max_size (snd (feed r cs)) = tr_max_size r"
  by (induction cs arbitrary: r)
     (auto simp: TlsRecordReassembler_add_def extract_records_def Let_def split_beta)

lemma extract_records_length: "length (tr_buffer (snd (extract_records r))) \<le> length (tr_buffer r)"
proof -
  obtain rs rest where e: "extract_loop (tr_buffer r) = (rs, rest)" by fastforce
  then have "length (concat rs) + length rest = length (tr_buffer r)"
    using extract_loop_sound [OF e] by (metis length_append)
  then show ?thesis by (simp add: extract_records_def e)
qed

lemma feed_bounded:
  "length (tr_buffer r) \<le> tr_max_size r \<Longrightarrow> length (tr_buffer (snd (feed r cs))) \<le> tr_max_size r"
proof (induction cs arbitrary: r)
  case (Cons c cs)
  let ?r = "r\<lparr>tr_buffer := tr_buffer r @ c\<rparr>"
  have same: "tr_max_size (snd (extract_records ?r)) = tr_max_size r"
    by (simp add: extract_records_def split_beta)
  show ?case
  proof (cases "length (tr_buffer r) + length c > tr_max_size r")
    case True
    with Cons.prems show ?thesis by (simp add: TlsRecordReassembler_add_def)
  next
    case False
    then have "length (tr_buffer (snd (extract_records ?r))) \<le> tr_max_size (snd (extract_records ?r))"
      using extract_records_length [of ?r] by (simp add: same)
    from Cons.IH [OF this] False show ?thesis
      by (simp add: TlsRecordReassembler_add_def same split_beta Let_def)
  qed
qed simp

lemma feed_extract:
  "\<not> has_record (tr_buffer r) \<Longrightarrow> fst (feed r cs) = Inr rs \<Longrightarrow>
     extract_loop (tr_buffer r @ concat cs) = (rs, tr_buffer (snd (feed r cs)))"
proof (induction cs arbitrary: r rs)
  case Nil
  then show ?case by (simp add: extract_loop_hasnt)
next
  case (Cons c cs)
  have fits: "\<not> length (tr_buffer r) + length c > tr_max_size r"
    using Cons.prems(2) by (auto simp: TlsRecordReassembler_add_def)
  obtain rs1 rest where e: "extract_loop (tr_buffer r @ c) = (rs1, rest)" by fastforce
  let ?r = "r\<lparr>tr_buffer := rest\<rparr>"
  obtain rs2 where rs2: "fst (feed ?r cs) = Inr rs2" and rs: "rs = rs1 @ rs2"
    using Cons.prems(2) fits
    by (auto simp: TlsRecordReassembler_add_def extract_records_def e split_beta Let_def res_simps)
  have "\<not> has_record (tr_buffer ?r)" using extract_loop_sound [OF e] by simp
  from Cons.IH [OF this rs2] show ?case
    using extract_loop_append [OF e, of "concat cs"] fits
    by (simp add: TlsRecordReassembler_add_def extract_records_def e rs split_beta Let_def)
qed

text \<open>What waits in the buffer is shorter than the record that it will complete.\<close>

lemma waiting_length:
  assumes "\<not> has_record a" and "extract_loop (a @ b) = (rs, rest)"
    and "\<forall>r\<in>set rs. length r \<le> M" and "length rest \<le> M"
  shows "length a \<le> M"
proof (cases "has_record (a @ b)")
  case True
  then have hd: "take (record_length (a @ b)) (a @ b) \<in> set rs"
    using assms(2) by (auto simp: extract_loop_has split: prod.splits)
  have "length a \<le> record_length (a @ b)"
    using assms(1) record_length_ge [of "a @ b"] by (cases "5 \<le> length a") (auto simp: has_record_def record_length_append)
  moreover have "length (take (record_length (a @ b)) (a @ b)) = record_length (a @ b)"
    using True by (auto simp: has_record_def)
  ultimately show ?thesis
    using assms(3) hd by fastforce
next
  case False
  with assms(2,4) show ?thesis by (auto simp: extract_loop_hasnt)
qed

text \<open>Chunks that leave room for the longest record of the stream are never refused.\<close>

lemma feed_succeeds:
  "\<not> has_record (tr_buffer r) \<Longrightarrow> extract_loop (tr_buffer r @ concat cs) = (rs, rest) \<Longrightarrow>
     \<forall>x\<in>set rs. length x \<le> M \<Longrightarrow> length rest \<le> M \<Longrightarrow> \<forall>c\<in>set cs. length c + M \<le> tr_max_size r \<Longrightarrow>
     \<exists>rs'. fst (feed r cs) = Inr rs'"
proof (induction cs arbitrary: r rs)
  case (Cons c cs)
  have "length (tr_buffer r) \<le> M"
    by (rule waiting_length [OF Cons.prems(1-4)])
  then have fits: "\<not> length (tr_buffer r) + length c > tr_max_size r"
    using Cons.prems(5) by auto
  obtain rs1 rest1 where e: "extract_loop (tr_buffer r @ c) = (rs1, rest1)" by fastforce
  let ?r = "r\<lparr>tr_buffer := rest1\<rparr>"
  obtain rs2 where e2: "extract_loop (rest1 @ concat cs) = (rs2, rest)" and rs: "rs = rs1 @ rs2"
    using extract_loop_append [OF e, of "concat cs"] Cons.prems(2) by (auto split: prod.splits)
  have "\<not> has_record rest1" using extract_loop_sound [OF e] by simp
  then obtain rs' where "fst (feed ?r cs) = Inr rs'"
    using Cons.IH [of ?r rs2] Cons.prems(3-5) e2 by (auto simp: rs)
  with fits show ?case
    by (auto simp: TlsRecordReassembler_add_def extract_records_def e split_beta Let_def)
qed simp

section \<open>Properties\<close>

text \<open>
  C13. Reassembly does not depend on fragmentation. Take a stream whose records, and whose
  incomplete last one, have at most \<open>M\<close> bytes, cut into any chunks that leave room for \<open>M\<close> bytes
  in the buffer. Then no chunk is refused, the buffer stays within its bound, and the records
  that come out and the rest that stays are those of the whole stream at once: complete records
  whose concatenation, followed by a rest that holds no complete record, is the stream.
\<close>

theorem reassembly_independent_of_fragmentation:
  assumes "extract_loop (concat cs) = (rs, rest)" and "\<forall>r\<in>set rs. length r \<le> M" and "length rest \<le> M"
    and "\<forall>c\<in>set cs. length c + M \<le> max_size"
  shows "\<exists>r. feed (TlsRecordReassembler_new max_size) cs = (Inr rs, r) \<and> tr_buffer r = rest \<and>
     length (tr_buffer r) \<le> max_size \<and> concat rs @ rest = concat cs \<and>
     list_all is_record rs \<and> \<not> has_record rest"
proof -
  let ?r = "TlsRecordReassembler_new max_size"
  have new: "\<not> has_record (tr_buffer ?r)" "tr_buffer ?r = []" "tr_max_size ?r = max_size"
    by (simp_all add: TlsRecordReassembler_new_def has_record_def)
  obtain rs' where rs': "fst (feed ?r cs) = Inr rs'"
    using feed_succeeds [OF new(1) _ assms(2,3)] assms(1,4) new(2,3) by auto
  have e: "extract_loop (concat cs) = (rs', tr_buffer (snd (feed ?r cs)))"
    using feed_extract [OF new(1) rs'] by (simp add: new(2))
  show ?thesis
    using rs' e assms(1) extract_loop_sound [OF assms(1)] feed_bounded [of ?r cs]
    by (intro exI [of _ "snd (feed ?r cs)"]) (simp add: prod_eq_iff new list_all_iff)
qed

theorem reassembly_independent_of_fragmentation_witness:
  "\<exists>r. feed (TlsRecordReassembler_new 65536) [[22, 3, 3], [0, 2, 9], [8, 23, 3]]
         = (Inr [[22, 3, 3, 0, 2, 9, 8]], r) \<and> tr_buffer r = [23, 3]"
proof -
  have "extract_loop (concat [[22, 3, 3], [0, 2, 9], [8, 23, 3]]) = ([[22, 3, 3, 0, 2, 9, 8]], [23, 3])"
    by code_simp
  from reassembly_independent_of_fragmentation [OF this, of 18437 65536] show ?thesis
    by auto
qed

end
