(* ===== verification/Protocol_Session.thy ===== *)
theory Protocol_Session
  imports Data_Channel Kdf Reliable Tls_Records
begin

text \<open>
  \<open>crates/corevpn-protocol/src/session.rs\<close>: one peer's protocol session, which ties together
  packet parsing, tls-auth, the reliable transport, record reassembly and the data channels.

  Outside the model, and arguments here: the AEAD \<open>L\<close>, HMAC-SHA256 \<open>hmac\<close>, the random session
  id, the monotonic clock \<open>now\<close> and the Unix time \<open>ts\<close> of a tls-auth header. An operation that
  makes several packets takes a function \<open>clk\<close> that gives both clocks for the k-th packet.
\<close>

unbundle bit_operations_syntax

section \<open>State\<close>

datatype ProtocolState =
  Initial | TlsHandshake | KeyExchange | Authenticating | Established | Rekeying | Terminated

text \<open>The replay window of tls-auth packet ids: 32-bit ids, 64 bits.\<close>

record ControlReplayWindow =
  crw_highest :: u32
  crw_bitmap :: u64

definition CONTROL_WINDOW_SIZE :: u32 where "CONTROL_WINDOW_SIZE = 64"

definition ControlReplayWindow_new :: ControlReplayWindow where
  "ControlReplayWindow_new = \<lparr>crw_highest = 0, crw_bitmap = 0\<rparr>"

definition ControlReplayWindow_check_and_update ::
    "ControlReplayWindow \<Rightarrow> u32 \<Rightarrow> bool \<times> ControlReplayWindow" where
  "ControlReplayWindow_check_and_update w packet_id =
     (if packet_id = 0 then (False, w)
      else if packet_id > crw_highest w then
        let shift = packet_id - crw_highest w;
            bitmap = (if shift \<ge> CONTROL_WINDOW_SIZE then 1
                      else push_bit (unat shift) (crw_bitmap w) OR 1)
        in (True, \<lparr>crw_highest = packet_id, crw_bitmap = bitmap\<rparr>)
      else
        let diff = crw_highest w - packet_id in
        if diff \<ge> CONTROL_WINDOW_SIZE then (False, w)
        else
          let mask = push_bit (unat diff) (1 :: u64) in
          if crw_bitmap w AND mask \<noteq> 0 then (False, w)
          else (True, w\<lparr>crw_bitmap := crw_bitmap w OR mask\<rparr>))"

definition ControlReplayWindow_reset :: "ControlReplayWindow \<Rightarrow> ControlReplayWindow" where
  "ControlReplayWindow_reset w = w\<lparr>crw_highest := 0, crw_bitmap := 0\<rparr>"

record ProtocolSession =
  ps_local_session_id :: SessionId
  ps_remote_session_id :: "SessionId option"
  ps_state :: ProtocolState
  ps_current_key_id :: KeyId
  ps_reliable :: ReliableTransport
  ps_tls_reassembler :: TlsRecordReassembler
  ps_data_channels :: "DataChannel option list"
  ps_peer_id :: "u32 option"
  ps_use_tls_auth :: bool
  ps_tls_auth_key :: "HmacAuth option"
  ps_replay_window :: ControlReplayWindow
  ps_tls_auth_packet_id :: u32
  ps_created_at :: instant
  ps_last_activity :: instant
  ps_cipher_suite :: CipherSuite

definition new_server :: "SessionId \<Rightarrow> instant \<Rightarrow> CipherSuite \<Rightarrow> ProtocolSession" where
  "new_server session_id now suite =
     \<lparr>ps_local_session_id = session_id, ps_remote_session_id = None, ps_state = Initial,
      ps_current_key_id = KeyId_default, ps_reliable = ReliableTransport_new ReliableConfig_default,
      ps_tls_reassembler = TlsRecordReassembler_new 65536, ps_data_channels = replicate 8 None,
      ps_peer_id = None, ps_use_tls_auth = False, ps_tls_auth_key = None,
      ps_replay_window = ControlReplayWindow_new, ps_tls_auth_packet_id = 1, ps_created_at = now,
      ps_last_activity = now, ps_cipher_suite = suite\<rparr>"

definition new_client :: "SessionId \<Rightarrow> instant \<Rightarrow> CipherSuite \<Rightarrow> ProtocolSession" where
  "new_client session_id now suite = (new_server session_id now suite)\<lparr>ps_state := Initial\<rparr>"

definition set_state :: "ProtocolSession \<Rightarrow> instant \<Rightarrow> ProtocolState \<Rightarrow> ProtocolSession" where
  "set_state s now st = s\<lparr>ps_state := st, ps_last_activity := now\<rparr>"

definition set_remote_session_id :: "ProtocolSession \<Rightarrow> SessionId \<Rightarrow> ProtocolSession" where
  "set_remote_session_id s sid = s\<lparr>ps_remote_session_id := Some sid\<rparr>"

definition set_tls_auth :: "ProtocolSession \<Rightarrow> HmacAuth \<Rightarrow> ProtocolSession" where
  "set_tls_auth s key = s\<lparr>ps_use_tls_auth := True, ps_tls_auth_key := Some key\<rparr>"

definition set_cipher_suite :: "ProtocolSession \<Rightarrow> CipherSuite \<Rightarrow> ProtocolSession" where
  "set_cipher_suite s suite = s\<lparr>ps_cipher_suite := suite\<rparr>"

datatype ProcessedPacket =
  ProcNone | HardReset SessionId | HardResetAck | TlsData "bytes list" | ProcData bytes | SoftReset

section \<open>Receiving\<close>

text \<open>The HMAC check at the start of \<open>process_packet\<close>.\<close>

definition check_tls_auth :: "mac \<Rightarrow> ProtocolSession \<Rightarrow> bytes \<Rightarrow> (ProtocolError, unit) res" where
  "check_tls_auth hmac s data =
     (if ps_use_tls_auth s then
        case ps_tls_auth_key s of
          None \<Rightarrow> Inr ()
        | Some key \<Rightarrow>
            if data = [] then Inr ()
            else
              and_then (byte_at data 0) (\<lambda>b0.
              and_then (OpCode_from_byte b0) (\<lambda>opcode.
              if is_control opcode then
                and_then (ensure (\<not> length data < 49) (PacketTooShort 49 (length data))) (\<lambda>_.
                and_then (byte_range data 9 41) (\<lambda>mac.
                and_then (byte_range data 41 49) (\<lambda>pid_time.
                and_then (byte_range data 0 9) (\<lambda>head.
                and_then (byte_range data 49 (length data)) (\<lambda>rest.
                map_err ProtocolError.CryptoError (verify hmac key (pid_time @ head @ rest) mac))))))
              else Inr ()))
      else Inr ())"

text \<open>\<open>self.reliable.receive(packet_id, Bytes::new())?\<close> of the two hard resets.\<close>

definition receive_reset ::
    "ProtocolSession \<Rightarrow> PacketId option \<Rightarrow> (ProtocolError, unit) res \<times> ProtocolSession" where
  "receive_reset s message_packet_id =
     (case message_packet_id of
        None \<Rightarrow> (Inr (), s)
      | Some packet_id \<Rightarrow>
          let (r, t) = receive (ps_reliable s) packet_id [] in
          (and_then r (\<lambda>_. Inr ()), s\<lparr>ps_reliable := t\<rparr>))"

definition process_tls_payload ::
    "ProtocolSession \<Rightarrow> PacketId option \<Rightarrow> bytes \<Rightarrow> (ProtocolError, ProcessedPacket) res \<times> ProtocolSession" where
  "process_tls_payload s message_packet_id payload =
     (case message_packet_id of
        None \<Rightarrow> (Inr ProcNone, s)
      | Some packet_id \<Rightarrow>
          let (r, t) = receive (ps_reliable s) packet_id payload;
              s = s\<lparr>ps_reliable := t\<rparr>
          in case r of
               Inl e \<Rightarrow> (Inl e, s)
             | Inr None \<Rightarrow> (Inr ProcNone, s)
             | Inr (Some data) \<Rightarrow>
                 let (added, ra) = TlsRecordReassembler_add (ps_tls_reassembler s) data;
                     s = s\<lparr>ps_tls_reassembler := ra\<rparr>
                 in case added of
                      Inl e \<Rightarrow> (Inl e, s)
                    | Inr _ \<Rightarrow>
                        let (records, ra) = extract_records (ps_tls_reassembler s);
                            s = s\<lparr>ps_tls_reassembler := ra\<rparr>
                        in if records \<noteq> [] then (Inr (TlsData records), s) else (Inr ProcNone, s))"

definition hard_reset_client ::
    "ProtocolSession \<Rightarrow> ControlPacketData \<Rightarrow> (ProtocolError, ProcessedPacket) res \<times> ProtocolSession" where
  "hard_reset_client s ctrl =
     (if ph_session_id (cp_header ctrl) = Some (replicate 8 0)
      then (Inl (Err InvalidSessionId), s)
      else
        let s = (case ph_session_id (cp_header ctrl) of
                   Some sid \<Rightarrow> s\<lparr>ps_remote_session_id := Some sid\<rparr> | None \<Rightarrow> s);
            (r, s) = receive_reset s (cp_message_packet_id ctrl)
        in (case r of
              Inl e \<Rightarrow> (Inl e, s)
            | Inr _ \<Rightarrow> (Inr (HardReset (ps_local_session_id s)), s\<lparr>ps_state := TlsHandshake\<rparr>)))"

text \<open>The \<open>match\<close> on the opcode in \<open>process_control_packet\<close>.\<close>

definition dispatch_control ::
    "ProtocolSession \<Rightarrow> ControlPacketData \<Rightarrow> (ProtocolError, ProcessedPacket) res \<times> ProtocolSession" where
  "dispatch_control s ctrl =
     (case ph_opcode (cp_header ctrl) of
        HardResetClientV2 \<Rightarrow> hard_reset_client s ctrl
      | HardResetClientV3 \<Rightarrow> hard_reset_client s ctrl
      | HardResetServerV2 \<Rightarrow>
          let s = (case ph_session_id (cp_header ctrl) of
                     Some sid \<Rightarrow> s\<lparr>ps_remote_session_id := Some sid\<rparr> | None \<Rightarrow> s);
              (r, s) = receive_reset s (cp_message_packet_id ctrl)
          in (case r of
                Inl e \<Rightarrow> (Inl e, s)
              | Inr _ \<Rightarrow> (Inr HardResetAck, s\<lparr>ps_state := TlsHandshake\<rparr>))
      | ControlV1 \<Rightarrow> process_tls_payload s (cp_message_packet_id ctrl) (cp_payload ctrl)
      | AckV1 \<Rightarrow> (Inr ProcNone, s)
      | SoftResetV1 \<Rightarrow> (Inr SoftReset, s\<lparr>ps_state := Rekeying\<rparr>)
      | opcode \<Rightarrow> (Inl (Err (UnknownOpcode (opcode_u8 opcode))), s))"

definition process_control_packet ::
    "instant \<Rightarrow> ProtocolSession \<Rightarrow> ControlPacketData \<Rightarrow> (ProtocolError, ProcessedPacket) res \<times> ProtocolSession" where
  "process_control_packet now s ctrl =
     (let (fresh, w) =
        (if ps_use_tls_auth s then
           case ph_packet_id (cp_header ctrl) of
             Some packet_id \<Rightarrow> ControlReplayWindow_check_and_update (ps_replay_window s) packet_id
           | None \<Rightarrow> (True, ps_replay_window s)
         else (True, ps_replay_window s));
        s = s\<lparr>ps_replay_window := w\<rparr>
      in if \<not> fresh then (Inl (Err ProtocolError.ReplayDetected), s)
         else
           let s = (if cp_acks ctrl \<noteq> []
                    then s\<lparr>ps_reliable := process_acks (ps_reliable s) now (cp_acks ctrl)\<rparr> else s)
           in dispatch_control s ctrl)"

text \<open>\<open>self.data_channels[key_id]\<close>.\<close>

definition channel_at :: "ProtocolSession \<Rightarrow> KeyId \<Rightarrow> (ProtocolError, DataChannel option) res" where
  "channel_at s k =
     (let i = unat (key_u8 k) in
      if i < length (ps_data_channels s) then Inr (ps_data_channels s ! i) else Inl Panic)"

definition set_channel :: "ProtocolSession \<Rightarrow> KeyId \<Rightarrow> DataChannel \<Rightarrow> ProtocolSession" where
  "set_channel s k ch = s\<lparr>ps_data_channels := (ps_data_channels s)[unat (key_u8 k) := Some ch]\<rparr>"

definition process_data_packet ::
    "aead \<Rightarrow> ProtocolSession \<Rightarrow> DataPacketData \<Rightarrow> (ProtocolError, ProcessedPacket) res \<times> ProtocolSession" where
  "process_data_packet L s data_pkt =
     (let packet = \<lparr>dp_key_id = ph_key_id (dpd_header data_pkt), dp_peer_id = dpd_peer_id data_pkt,
                    dp_payload = dpd_payload data_pkt\<rparr>
      in case channel_at s (dp_key_id packet) of
           Inl e \<Rightarrow> (Inl e, s)
         | Inr (Some channel) \<Rightarrow>
             let (r, channel) = DataChannel_decrypt L channel packet
             in (and_then r (\<lambda>decrypted. Inr (ProcData decrypted)), set_channel s (dp_key_id packet) channel)
         | Inr None \<Rightarrow> (Inl (Err (KeyNotAvailable (key_u8 (dp_key_id packet)))), s))"

definition process_packet ::
    "aead \<Rightarrow> mac \<Rightarrow> instant \<Rightarrow> ProtocolSession \<Rightarrow> bytes \<Rightarrow> (ProtocolError, ProcessedPacket) res \<times> ProtocolSession" where
  "process_packet L hmac now s data =
     (let s = s\<lparr>ps_last_activity := now\<rparr> in
      case and_then (check_tls_auth hmac s data) (\<lambda>_. Packet_parse data (ps_use_tls_auth s)) of
        Inl e \<Rightarrow> (Inl e, s)
      | Inr (Control ctrl) \<Rightarrow> process_control_packet now s ctrl
      | Inr (Data data_pkt) \<Rightarrow> process_data_packet L s data_pkt)"

section \<open>Sending\<close>

definition maybe_wrap_tls_auth ::
    "mac \<Rightarrow> u32 \<Rightarrow> ProtocolSession \<Rightarrow> bytes \<Rightarrow> bytes \<times> ProtocolSession" where
  "maybe_wrap_tls_auth hmac ts s data =
     (if ps_use_tls_auth s then
        case ps_tls_auth_key s of
          None \<Rightarrow> (data, s)
        | Some key \<Rightarrow>
            if length data < 9 then (data, s)
            else
              let packet_id = ps_tls_auth_packet_id s;
                  s = s\<lparr>ps_tls_auth_packet_id := ps_tls_auth_packet_id s + 1\<rparr>;
                  pid_bytes = u32_to_be_bytes packet_id;
                  time_bytes = u32_to_be_bytes ts;
                  hmac_input = pid_bytes @ time_bytes @ data;
                  mac = authenticate hmac key hmac_input
              in (take 9 data @ mac @ pid_bytes @ time_bytes @ drop 9 data, s)
      else (data, s))"

definition control_header :: "OpCode \<Rightarrow> KeyId \<Rightarrow> SessionId \<Rightarrow> PacketHeader" where
  "control_header opcode key_id sid =
     \<lparr>ph_opcode = opcode, ph_key_id = key_id, ph_session_id = Some sid, ph_hmac = None,
      ph_packet_id = None, ph_timestamp = None\<rparr>"

definition create_hard_reset_client ::
    "mac \<Rightarrow> instant \<Rightarrow> u32 \<Rightarrow> ProtocolSession \<Rightarrow> (ProtocolError, bytes) res \<times> ProtocolSession" where
  "create_hard_reset_client hmac now ts s =
     (let (r, t) = send (ps_reliable s) now []; s = s\<lparr>ps_reliable := t\<rparr> in
      case r of
        Inl e \<Rightarrow> (Inl e, s)
      | Inr (packet_id, _) \<Rightarrow>
          let packet = \<lparr>cp_header = control_header HardResetClientV2 KeyId_default (ps_local_session_id s),
                cp_remote_session_id = None, cp_acks = [], cp_message_packet_id = Some packet_id,
                cp_payload = []\<rparr>;
              (w, s) = maybe_wrap_tls_auth hmac ts s (Packet_serialize (Control packet))
          in (Inr w, s))"

definition create_hard_reset_response ::
    "mac \<Rightarrow> instant \<Rightarrow> u32 \<Rightarrow> ProtocolSession \<Rightarrow> (ProtocolError, bytes) res \<times> ProtocolSession" where
  "create_hard_reset_response hmac now ts s =
     (let (r, t) = send (ps_reliable s) now []; s = s\<lparr>ps_reliable := t\<rparr> in
      case r of
        Inl e \<Rightarrow> (Inl e, s)
      | Inr (packet_id, _) \<Rightarrow>
          let (acks, t) = get_acks (ps_reliable s); s = s\<lparr>ps_reliable := t\<rparr>;
              packet = \<lparr>cp_header = control_header HardResetServerV2 KeyId_default (ps_local_session_id s),
                cp_remote_session_id = ps_remote_session_id s, cp_acks = acks,
                cp_message_packet_id = Some packet_id, cp_payload = []\<rparr>;
              (w, s) = maybe_wrap_tls_auth hmac ts s (Packet_serialize (Control packet))
          in (Inr w, s))"

definition create_single_control_packet ::
    "mac \<Rightarrow> instant \<Rightarrow> u32 \<Rightarrow> ProtocolSession \<Rightarrow> bytes \<Rightarrow> (ProtocolError, bytes) res \<times> ProtocolSession" where
  "create_single_control_packet hmac now ts s tls_data =
     (let (r, t) = send (ps_reliable s) now tls_data; s = s\<lparr>ps_reliable := t\<rparr> in
      case r of
        Inl e \<Rightarrow> (Inl e, s)
      | Inr (packet_id, _) \<Rightarrow>
          let (acks, t) = get_acks (ps_reliable s); s = s\<lparr>ps_reliable := t\<rparr>;
              packet = \<lparr>cp_header = control_header ControlV1 (ps_current_key_id s) (ps_local_session_id s),
                cp_remote_session_id = ps_remote_session_id s, cp_acks = acks,
                cp_message_packet_id = Some packet_id, cp_payload = tls_data\<rparr>;
              (w, s) = maybe_wrap_tls_auth hmac ts s (Packet_serialize (Control packet))
          in (Inr w, s))"

definition create_control_packet ::
    "mac \<Rightarrow> instant \<Rightarrow> u32 \<Rightarrow> ProtocolSession \<Rightarrow> bytes \<Rightarrow> (ProtocolError, bytes) res \<times> ProtocolSession" where
  "create_control_packet = create_single_control_packet"

definition MAX_CONTROL_PAYLOAD :: nat where "MAX_CONTROL_PAYLOAD = 1100"

text \<open>
  The loop of \<open>create_control_packets\<close> at \<open>offset\<close>, for the \<open>k\<close>-th packet. The first error ends it;
  packets made before it are dropped.
\<close>

function split_packets ::
    "mac \<Rightarrow> (nat \<Rightarrow> instant \<times> u32) \<Rightarrow> bytes \<Rightarrow> nat \<Rightarrow> nat \<Rightarrow> ProtocolSession
       \<Rightarrow> (ProtocolError, bytes list) res \<times> ProtocolSession" where
  "split_packets hmac clk tls_data k offset s =
     (if offset < length tls_data then
        let stop = min (offset + MAX_CONTROL_PAYLOAD) (length tls_data);
            chunk = take (stop - offset) (drop offset tls_data);
            (r, s) = create_single_control_packet hmac (fst (clk k)) (snd (clk k)) s chunk
        in case r of
             Inl e \<Rightarrow> (Inl e, s)
           | Inr w \<Rightarrow>
               let (ws, s) = split_packets hmac clk tls_data (Suc k) stop s
               in (and_then ws (\<lambda>ws. Inr (w # ws)), s)
      else (Inr [], s))"
  by pat_completeness auto

termination split_packets
  by (relation "measure (\<lambda>(hmac, clk, tls_data, k, offset, s). length tls_data - offset)")
     (auto simp: MAX_CONTROL_PAYLOAD_def)

declare split_packets.simps [simp del]

definition create_control_packets ::
    "mac \<Rightarrow> (nat \<Rightarrow> instant \<times> u32) \<Rightarrow> ProtocolSession \<Rightarrow> bytes
       \<Rightarrow> (ProtocolError, bytes list) res \<times> ProtocolSession" where
  "create_control_packets hmac clk s tls_data =
     (if length tls_data \<le> MAX_CONTROL_PAYLOAD then
        let (r, s) = create_single_control_packet hmac (fst (clk 0)) (snd (clk 0)) s tls_data
        in (and_then r (\<lambda>w. Inr [w]), s)
      else split_packets hmac clk tls_data 0 0 s)"

definition create_ack_packet ::
    "mac \<Rightarrow> instant \<Rightarrow> u32 \<Rightarrow> ProtocolSession \<Rightarrow> bytes option \<times> ProtocolSession" where
  "create_ack_packet hmac now ts s =
     (let (acks, t) = get_acks (ps_reliable s); s = s\<lparr>ps_reliable := t\<rparr> in
      if acks = [] then (None, s)
      else
        let packet = \<lparr>cp_header = control_header AckV1 (ps_current_key_id s) (ps_local_session_id s),
              cp_remote_session_id = ps_remote_session_id s, cp_acks = acks,
              cp_message_packet_id = None, cp_payload = []\<rparr>;
            s = s\<lparr>ps_reliable := ack_sent (ps_reliable s) now\<rparr>;
            (w, s) = maybe_wrap_tls_auth hmac ts s (Packet_serialize (Control packet))
        in (Some w, s))"

definition install_keys :: "ProtocolSession \<Rightarrow> KeyMaterial \<Rightarrow> bool \<Rightarrow> (ProtocolError, ProtocolSession) res" where
  "install_keys s key_material is_server =
     (let key_id = ps_current_key_id s;
          idx = unat (key_u8 key_id);
          (encrypt_key, decrypt_key) =
            (if is_server
             then (server_data_key key_material (ps_cipher_suite s), client_data_key key_material (ps_cipher_suite s))
             else (client_data_key key_material (ps_cipher_suite s), server_data_key key_material (ps_cipher_suite s)));
          use_v2 = (ps_peer_id s \<noteq> None);
          ch = DataChannel_new key_id encrypt_key decrypt_key use_v2 (ps_peer_id s)
      in if idx < length (ps_data_channels s)
         then Inr (s\<lparr>ps_data_channels := (ps_data_channels s)[idx := Some ch]\<rparr>)
         else Inl Panic)"

definition encrypt_data ::
    "aead \<Rightarrow> ProtocolSession \<Rightarrow> bytes \<Rightarrow> (ProtocolError, bytes) res \<times> ProtocolSession" where
  "encrypt_data L s data =
     (case channel_at s (ps_current_key_id s) of
        Inl e \<Rightarrow> (Inl e, s)
      | Inr (Some channel) \<Rightarrow>
          let (r, channel) = DataChannel_encrypt L channel data
          in (and_then r (\<lambda>packet. Inr (DataPacket_serialize packet)),
              set_channel s (ps_current_key_id s) channel)
      | Inr None \<Rightarrow> (Inl (Err (KeyNotAvailable (key_u8 (ps_current_key_id s)))), s))"

text \<open>\<open>get_retransmits\<close>: every packet goes out again as \<open>ControlV1\<close>, without acknowledgements.\<close>

fun rebuild_packets ::
    "mac \<Rightarrow> (nat \<Rightarrow> u32) \<Rightarrow> nat \<Rightarrow> ProtocolSession \<Rightarrow> (u32 \<times> bytes) list \<Rightarrow> bytes list \<times> ProtocolSession" where
  "rebuild_packets hmac ts k s [] = ([], s)"
| "rebuild_packets hmac ts k s ((packet_id, data) # ps) =
     (let packet = \<lparr>cp_header = control_header ControlV1 (ps_current_key_id s) (ps_local_session_id s),
            cp_remote_session_id = ps_remote_session_id s, cp_acks = [],
            cp_message_packet_id = Some packet_id, cp_payload = data\<rparr>;
          (w, s) = maybe_wrap_tls_auth hmac (ts k) s (Packet_serialize (Control packet));
          (ws, s) = rebuild_packets hmac ts (Suc k) s ps
      in (w # ws, s))"

definition session_get_retransmits ::
    "mac \<Rightarrow> instant \<Rightarrow> (nat \<Rightarrow> u32) \<Rightarrow> ProtocolSession \<Rightarrow> (ProtocolError, bytes list \<times> ProtocolSession) res" where
  "session_get_retransmits hmac now ts s =
     and_then (get_retransmits (ps_reliable s) now) (\<lambda>(out, t).
     Inr (rebuild_packets hmac ts 0 (s\<lparr>ps_reliable := t\<rparr>) out))"

definition session_should_send_ack :: "ProtocolSession \<Rightarrow> instant \<Rightarrow> bool" where
  "session_should_send_ack s now = should_send_ack (ps_reliable s) now"

definition session_next_timeout :: "ProtocolSession \<Rightarrow> instant \<Rightarrow> duration option" where
  "session_next_timeout s now = next_timeout (ps_reliable s) now"

definition is_established :: "ProtocolSession \<Rightarrow> bool" where
  "is_established s \<longleftrightarrow> ps_state s = Established"

definition session_duration :: "ProtocolSession \<Rightarrow> instant \<Rightarrow> duration" where
  "session_duration s now = now - ps_created_at s"

definition idle_time :: "ProtocolSession \<Rightarrow> instant \<Rightarrow> duration" where
  "idle_time s now = now - ps_last_activity s"

definition rotate_key :: "ProtocolSession \<Rightarrow> ProtocolSession" where
  "rotate_key s =
     s\<lparr>ps_current_key_id := KeyId_next (ps_current_key_id s),
       ps_replay_window := ControlReplayWindow_reset (ps_replay_window s)\<rparr>"

section \<open>The tls-auth window\<close>

lemma control_check_ahead:
  assumes "unat (crw_highest w) < unat i"
  shows "\<exists>w'. ControlReplayWindow_check_and_update w i = (True, w') \<and> unat (crw_highest w') = unat i \<and>
    (\<forall>n < 64. bit (crw_bitmap w') n \<longleftrightarrow> n = 0 \<or> unat i - unat (crw_highest w) \<le> n \<and>
       bit (crw_bitmap w) (n - (unat i - unat (crw_highest w))))"
proof -
  have lt: "crw_highest w < i" and i: "i \<noteq> 0" and le: "crw_highest w \<le> i"
    using assms by (auto simp: word_less_nat_alt word_le_nat_alt)
  have sh: "64 \<le> i - crw_highest w \<longleftrightarrow> 64 \<le> unat i - unat (crw_highest w)"
    by (simp add: word_le_nat_alt unat_diff_word [OF le])
  show ?thesis
    using lt i sh
    by (auto simp: ControlReplayWindow_check_and_update_def CONTROL_WINDOW_SIZE_def Let_def bit_simps
          unat_diff_word [OF le])
qed

interpretation control_window: replay_window ControlReplayWindow_check_and_update ControlReplayWindow_new
  "\<lambda>w. unat (crw_highest w)" "\<lambda>w. bit (crw_bitmap w)" 64
proof unfold_locales
  fix w :: ControlReplayWindow and i :: u32
  assume i: "i \<noteq> 0" "unat i \<le> unat (crw_highest w)"
  then have le: "i \<le> crw_highest w" and nlt: "\<not> crw_highest w < i"
    by (auto simp: word_le_nat_alt word_less_nat_alt)
  have sz: "CONTROL_WINDOW_SIZE \<le> crw_highest w - i \<longleftrightarrow> 64 \<le> unat (crw_highest w) - unat i"
    by (simp add: word_le_nat_alt unat_diff_word [OF le] CONTROL_WINDOW_SIZE_def)
  note step = ControlReplayWindow_check_and_update_def Let_def i nlt sz unat_diff_word [OF le]
    and_exp_eq_0_iff_not_bit
  show "64 \<le> unat (crw_highest w) - unat i \<Longrightarrow> ControlReplayWindow_check_and_update w i = (False, w)"
    by (simp add: step)
  show "unat (crw_highest w) - unat i < 64 \<Longrightarrow> bit (crw_bitmap w) (unat (crw_highest w) - unat i) \<Longrightarrow>
      ControlReplayWindow_check_and_update w i = (False, w)"
    by (simp add: step)
  show "unat (crw_highest w) - unat i < 64 \<Longrightarrow> \<not> bit (crw_bitmap w) (unat (crw_highest w) - unat i) \<Longrightarrow>
      \<exists>w'. ControlReplayWindow_check_and_update w i = (True, w') \<and> unat (crw_highest w') = unat (crw_highest w) \<and>
        (\<forall>n < 64. bit (crw_bitmap w') n \<longleftrightarrow>
           n = unat (crw_highest w) - unat i \<or> bit (crw_bitmap w) n)"
    by (auto simp: step bit_simps)
qed ((rule control_check_ahead; assumption)
     | simp add: ControlReplayWindow_new_def ControlReplayWindow_check_and_update_def)+

text \<open>An id that has just been accepted is refused.\<close>

lemma control_check_twice:
  assumes "ControlReplayWindow_check_and_update w i = (True, w')"
  shows "\<not> fst (ControlReplayWindow_check_and_update w' i)"
proof -
  have i: "i \<noteq> 0" using assms by (auto simp: ControlReplayWindow_check_and_update_def)
  have "unat i \<le> unat (crw_highest w') \<and> unat (crw_highest w') - unat i < 64 \<and>
      bit (crw_bitmap w') (unat (crw_highest w') - unat i)"
  proof (cases "unat (crw_highest w) < unat i")
    case True
    with control_window.check_ahead [OF True] assms show ?thesis by auto
  next
    case False
    then have le: "unat i \<le> unat (crw_highest w)" by simp
    then have near: "unat (crw_highest w) - unat i < 64" and "\<not> bit (crw_bitmap w) (unat (crw_highest w) - unat i)"
      using control_window.check_behind [OF i le] control_window.check_seen [OF i le] assms by (auto simp: not_le [symmetric])
    with control_window.check_unseen [OF i le] assms le show ?thesis by auto
  qed
  then show ?thesis
    using control_window.check_seen [OF i, of w'] by simp
qed

section \<open>Invariant\<close>

definition channels_ok :: "DataChannel option list \<Rightarrow> bool" where
  "channels_ok chs \<longleftrightarrow> length chs = 8 \<and>
     (\<forall>i < 8. \<forall>ch. chs ! i = Some ch \<longrightarrow> channel_ok ch \<and> unat (key_u8 (dc_key_id ch)) = i)"

definition session_inv :: "ProtocolSession \<Rightarrow> bool" where
  "session_inv s \<longleftrightarrow> channels_ok (ps_data_channels s) \<and> key_ok (ps_current_key_id s) \<and>
     transport_inv (ps_reliable s) \<and> 0 \<le> rto_backoff (rt_config (ps_reliable s)) \<and>
     length (tr_buffer (ps_tls_reassembler s)) \<le> tr_max_size (ps_tls_reassembler s) \<and>
     \<not> has_record (tr_buffer (ps_tls_reassembler s))"

lemma session_inv_new: "session_inv (new_server sid now suite)" "session_inv (new_client sid now suite)"
  by (simp_all add: session_inv_def channels_ok_def new_server_def new_client_def inv_new
        TlsRecordReassembler_new_def has_record_def ReliableTransport_new_def ReliableConfig_default_def
        transport_inv_def bt_wf_def)

lemma key_ok_less: "key_ok k \<Longrightarrow> unat (key_u8 k) < 8"
  by (simp add: key_ok_def word_less_nat_alt)

lemma channels_ok_update:
  "channels_ok chs \<Longrightarrow> channel_ok ch \<Longrightarrow> unat (key_u8 (dc_key_id ch)) = i \<Longrightarrow> channels_ok (chs[i := Some ch])"
  by (cases "i < 8") (auto simp: channels_ok_def nth_list_update list_update_beyond split: if_splits)

lemma receive_config [simp]: "rt_config (snd (receive t pid d)) = rt_config t"
  by (simp add: receive_def Let_def split_beta)

lemma process_acks_config [simp]: "rt_config (process_acks t now acks) = rt_config t"
  by (induction acks arbitrary: t) (auto simp: Let_def update_rtt_keeps split: option.split)

lemma send_config [simp]: "rt_config (snd (send t now d)) = rt_config t"
  by (simp add: send_def Let_def)

lemma session_inv_receive:
  "session_inv s \<Longrightarrow> session_inv (s\<lparr>ps_reliable := snd (receive (ps_reliable s) pid d)\<rparr>)"
  by (simp add: session_inv_def inv_receive)

lemma session_inv_receive_reset: "session_inv s \<Longrightarrow> session_inv (snd (receive_reset s mp))"
  by (auto simp: receive_reset_def Let_def split_beta session_inv_receive split: option.split)

lemma reassembler_step_inv:
  assumes "length (tr_buffer ra) \<le> tr_max_size ra" and "\<not> has_record (tr_buffer ra)"
    and "TlsRecordReassembler_add ra d = (added, ra')"
  shows "length (tr_buffer ra') \<le> tr_max_size ra'" and "added = Inl e \<Longrightarrow> \<not> has_record (tr_buffer ra')"
    and "length (tr_buffer (snd (extract_records ra'))) \<le> tr_max_size (snd (extract_records ra'))"
    and "\<not> has_record (tr_buffer (snd (extract_records ra')))"
proof -
  show b: "length (tr_buffer ra') \<le> tr_max_size ra'" and "added = Inl e \<Longrightarrow> \<not> has_record (tr_buffer ra')"
    using assms by (auto simp: TlsRecordReassembler_add_def split: if_splits)
  show "length (tr_buffer (snd (extract_records ra'))) \<le> tr_max_size (snd (extract_records ra'))"
    using b extract_records_length [of ra'] by (simp add: extract_records_def split_beta)
  obtain rs rest where "extract_loop (tr_buffer ra') = (rs, rest)" by fastforce
  then show "\<not> has_record (tr_buffer (snd (extract_records ra')))"
    using extract_loop_sound by (auto simp: extract_records_def)
qed

lemma session_inv_reassembler:
  "session_inv s \<Longrightarrow> length (tr_buffer ra) \<le> tr_max_size ra \<Longrightarrow> \<not> has_record (tr_buffer ra) \<Longrightarrow>
     session_inv (s\<lparr>ps_tls_reassembler := ra\<rparr>)"
  by (simp add: session_inv_def)

lemma session_inv_tls_payload:
  assumes inv: "session_inv s"
  shows "session_inv (snd (process_tls_payload s mp d))"
proof (cases mp)
  case None
  with inv show ?thesis by (simp add: process_tls_payload_def)
next
  case (Some pid)
  obtain r t where rt: "receive (ps_reliable s) pid d = (r, t)" by fastforce
  have inv1: "session_inv (s\<lparr>ps_reliable := t\<rparr>)"
    using session_inv_receive [OF inv, of pid d] by (simp add: rt)
  have ra: "length (tr_buffer (ps_tls_reassembler s)) \<le> tr_max_size (ps_tls_reassembler s)"
    "\<not> has_record (tr_buffer (ps_tls_reassembler s))"
    using inv by (simp_all add: session_inv_def)
  consider (error) e where "r = Inl e" | (none) "r = Inr None" | (some) data where "r = Inr (Some data)"
    by (metis not_None_eq sum.exhaust)
  then show ?thesis
  proof cases
    case (some data)
    obtain added ra' where add: "TlsRecordReassembler_add (ps_tls_reassembler s) data = (added, ra')"
      by fastforce
    note keep = reassembler_step_inv [OF ra add]
    show ?thesis
      using inv1 keep
      by (cases added) (auto simp: process_tls_payload_def Some rt some add Let_def split_beta
            intro!: session_inv_reassembler)
  qed (simp_all add: process_tls_payload_def Some rt inv1)
qed

lemma session_inv_dispatch: "session_inv s \<Longrightarrow> session_inv (snd (dispatch_control s c))"
proof -
  assume inv: "session_inv s"
  have set: "session_inv (s\<lparr>ps_remote_session_id := x\<rparr>)" "session_inv (s\<lparr>ps_state := st\<rparr>)" if "session_inv s" for x st s
    using that by (simp_all add: session_inv_def)
  have sid: "session_inv (case ph_session_id (cp_header c) of Some sid \<Rightarrow> s\<lparr>ps_remote_session_id := Some sid\<rparr> | None \<Rightarrow> s)"
    using inv set by (simp split: option.split)
  note reset = session_inv_receive_reset [OF sid, of "cp_message_packet_id c"]
  have "session_inv (snd (hard_reset_client s c))"
    using inv reset set by (simp add: hard_reset_client_def Let_def split_beta split: sum.split)
  then show ?thesis
    using inv reset set session_inv_tls_payload [OF inv]
    by (simp add: dispatch_control_def Let_def split_beta split: OpCode.split sum.split)
qed

lemma session_inv_control: "session_inv s \<Longrightarrow> session_inv (snd (process_control_packet now s c))"
proof -
  assume inv: "session_inv s"
  then have "session_inv (s\<lparr>ps_replay_window := w\<rparr>)" for w
    by (simp add: session_inv_def)
  moreover have "session_inv (s\<lparr>ps_replay_window := w, ps_reliable := process_acks (ps_reliable s) now acks\<rparr>)" for w acks
    using inv by (simp add: session_inv_def inv_process_acks)
  ultimately show ?thesis
    by (simp add: process_control_packet_def Let_def split_beta session_inv_dispatch)
qed

lemma channel_at_ok: "session_inv s \<Longrightarrow> key_ok k \<Longrightarrow> channel_at s k = Inr (ps_data_channels s ! unat (key_u8 k))"
  using key_ok_less [of k] by (simp add: channel_at_def session_inv_def channels_ok_def Let_def)

lemma channel_at_Some:
  assumes "session_inv s" and "channel_at s k = Inr (Some ch)"
  shows "channel_ok ch \<and> dc_key_id ch = k"
proof -
  have "channel_ok ch" and "unat (key_u8 (dc_key_id ch)) = unat (key_u8 k)"
    using assms by (auto simp: channel_at_def session_inv_def channels_ok_def Let_def split: if_splits)
  then show ?thesis
    by (simp add: KeyId.expand unsigned_word_eqI [where 'a = nat])
qed

lemma session_inv_set_channel:
  "session_inv s \<Longrightarrow> channel_ok ch \<Longrightarrow> dc_key_id ch = k \<Longrightarrow> session_inv (set_channel s k ch)"
  by (auto simp: session_inv_def set_channel_def intro: channels_ok_update)

lemma channel_keeps_id:
  "dc_key_id (snd (DataChannel_decrypt L ch p)) = dc_key_id ch" "dc_key_id (snd (DataChannel_encrypt L ch d)) = dc_key_id ch"
  by (simp_all add: DataChannel_decrypt_def DataChannel_encrypt_def Let_def split_beta)

lemma session_inv_data: "session_inv s \<Longrightarrow> session_inv (snd (process_data_packet L s p))"
  by (auto simp: process_data_packet_def Let_def split_beta channel_keeps_id channel_ok_decrypt
        dest: channel_at_Some intro!: session_inv_set_channel split: sum.split option.split)

lemma session_inv_process: "session_inv s \<Longrightarrow> session_inv (snd (process_packet L hmac now s data))"
proof -
  assume "session_inv s"
  then have "session_inv (s\<lparr>ps_last_activity := now\<rparr>)" by (simp add: session_inv_def)
  then show ?thesis
    by (simp add: process_packet_def Let_def session_inv_control session_inv_data
          split: sum.split Packet.split)
qed

lemma session_inv_wrap: "session_inv s \<Longrightarrow> session_inv (snd (maybe_wrap_tls_auth hmac ts s d))"
  by (simp add: maybe_wrap_tls_auth_def Let_def session_inv_def split: option.split)

lemma session_inv_single: "session_inv s \<Longrightarrow> session_inv (snd (create_single_control_packet hmac now ts s d))"
proof -
  assume inv: "session_inv s"
  have "session_inv (s\<lparr>ps_reliable := snd (send (ps_reliable s) now d)\<rparr>)"
    using inv by (simp add: session_inv_def inv_send)
  moreover have "session_inv (s\<lparr>ps_reliable := snd (get_acks (snd (send (ps_reliable s) now d)))\<rparr>)"
    using inv by (simp add: session_inv_def inv_send inv_get_acks) (simp add: get_acks_def)
  ultimately show ?thesis
    by (simp add: create_single_control_packet_def Let_def split_beta session_inv_wrap split: sum.split prod.split)
qed

lemma session_inv_transport:
  "session_inv s \<Longrightarrow> transport_inv t \<Longrightarrow> rt_config t = rt_config (ps_reliable s) \<Longrightarrow> session_inv (s\<lparr>ps_reliable := t\<rparr>)"
  by (simp add: session_inv_def)

lemma session_transport_inv: "session_inv s \<Longrightarrow> transport_inv (ps_reliable s)"
  by (simp add: session_inv_def)

lemma get_acks_config [simp]: "rt_config (snd (get_acks t)) = rt_config t"
  by (simp add: get_acks_def)

lemma ack_sent_config [simp]: "rt_config (ack_sent t now) = rt_config t"
  by (simp add: ack_sent_def)

lemma session_inv_resets:
  assumes inv: "session_inv s"
  shows "session_inv (snd (create_hard_reset_client hmac now ts s))"
    and "session_inv (snd (create_hard_reset_response hmac now ts s))"
proof -
  note t = session_transport_inv [OF inv]
  have "session_inv (s\<lparr>ps_reliable := snd (send (ps_reliable s) now [])\<rparr>)"
    and "session_inv (s\<lparr>ps_reliable := snd (get_acks (snd (send (ps_reliable s) now [])))\<rparr>)"
    by (intro session_inv_transport [OF inv] inv_send inv_get_acks t; simp)+
  then show "session_inv (snd (create_hard_reset_client hmac now ts s))"
    and "session_inv (snd (create_hard_reset_response hmac now ts s))"
    by (simp_all add: create_hard_reset_client_def create_hard_reset_response_def Let_def split_beta
          session_inv_wrap split: sum.split)
qed

lemma session_inv_split: "session_inv s \<Longrightarrow> session_inv (snd (split_packets hmac clk d k off s))"
proof (induction hmac clk d k off s rule: split_packets.induct)
  case (1 hmac clk d k off s)
  let ?stop = "min (off + MAX_CONTROL_PAYLOAD) (length d)"
  let ?chunk = "take (?stop - off) (drop off d)"
  obtain r s' where step: "create_single_control_packet hmac (fst (clk k)) (snd (clk k)) s ?chunk = (r, s')"
    by fastforce
  have inv': "session_inv s'"
    using session_inv_single [OF "1.prems", of hmac "fst (clk k)" "snd (clk k)" ?chunk] by (simp add: step)
  show ?case
  proof (cases "off < length d")
    case True
    have "session_inv (snd (split_packets hmac clk d (Suc k) ?stop s'))" if "r = Inr w" for w
      using "1.IH" [OF True refl refl step [symmetric] refl that inv'] .
    with True inv' step show ?thesis
      by (subst split_packets.simps) (simp add: Let_def split_beta split: sum.split)
  next
    case False
    with "1.prems" show ?thesis by (subst split_packets.simps) simp
  qed
qed

lemma session_inv_packets: "session_inv s \<Longrightarrow> session_inv (snd (create_control_packets hmac clk s d))"
  by (simp add: create_control_packets_def Let_def split_beta session_inv_single session_inv_split)

lemma session_inv_ack:
  assumes inv: "session_inv s"
  shows "session_inv (snd (create_ack_packet hmac now ts s))"
proof -
  note t = session_transport_inv [OF inv]
  have "session_inv (s\<lparr>ps_reliable := snd (get_acks (ps_reliable s))\<rparr>)"
    and "session_inv (s\<lparr>ps_reliable := ack_sent (snd (get_acks (ps_reliable s))) now\<rparr>)"
    by (intro session_inv_transport [OF inv] inv_ack_sent inv_get_acks t; simp)+
  then show ?thesis
    by (simp add: create_ack_packet_def Let_def split_beta session_inv_wrap)
qed

lemma session_inv_encrypt: "session_inv s \<Longrightarrow> session_inv (snd (encrypt_data L s d))"
  by (auto simp: encrypt_data_def Let_def split_beta channel_keeps_id channel_ok_encrypt
        dest: channel_at_Some intro!: session_inv_set_channel split: sum.split option.split)

lemma install_keys_ok:
  assumes "session_inv s"
  shows "\<exists>s'. install_keys s m srv = Inr s' \<and> session_inv s'"
proof -
  have k: "key_ok (ps_current_key_id s)" using assms by (simp add: session_inv_def)
  have "channel_ok (DataChannel_new (ps_current_key_id s) ek dk (ps_peer_id s \<noteq> None) (ps_peer_id s))" for ek dk
    by (rule channel_ok_new) (auto simp: k)
  moreover have "dc_key_id (DataChannel_new k ek dk v p) = k" for k ek dk v p
    by (simp add: DataChannel_new_def)
  ultimately have "channels_ok ((ps_data_channels s)[unat (key_u8 (ps_current_key_id s)) :=
      Some (DataChannel_new (ps_current_key_id s) ek dk (ps_peer_id s \<noteq> None) (ps_peer_id s))])" for ek dk
    using assms by (intro channels_ok_update) (auto simp: session_inv_def)
  then show ?thesis
    using assms key_ok_less [OF k]
    by (auto simp: install_keys_def Let_def session_inv_def channels_ok_def [of "ps_data_channels s"])
qed

lemma session_inv_rebuild: "session_inv s \<Longrightarrow> session_inv (snd (rebuild_packets hmac ts k s out))"
proof (induction out arbitrary: k s)
  case (Cons p out)
  then show ?case by (cases p) (simp add: Let_def split_beta session_inv_wrap)
qed simp

lemma session_get_retransmits_ok:
  assumes inv: "session_inv s"
  shows "\<exists>ws s'. session_get_retransmits hmac now ts s = Inr (ws, s') \<and> session_inv s'"
proof -
  obtain out t where step: "get_retransmits (ps_reliable s) now = Inr (out, t)"
    using get_retransmits_no_panic inv by (fastforce simp: session_inv_def)
  then have "rt_config t = rt_config (ps_reliable s)"
    by (auto simp: get_retransmits_def res_simps)
  then have "session_inv (s\<lparr>ps_reliable := t\<rparr>)"
    by (intro session_inv_transport [OF inv] inv_get_retransmits [OF step] session_transport_inv [OF inv])
  then show ?thesis
    using session_inv_rebuild [of "s\<lparr>ps_reliable := t\<rparr>" hmac ts 0 out]
    by (cases "rebuild_packets hmac ts 0 (s\<lparr>ps_reliable := t\<rparr>) out")
       (simp add: session_get_retransmits_def step)
qed

section \<open>The session as a transition system\<close>

inductive session_step :: "aead \<Rightarrow> mac \<Rightarrow> ProtocolSession \<Rightarrow> ProtocolSession \<Rightarrow> bool"
  for L :: aead and hmac :: mac where
  step_process: "session_step L hmac s (snd (process_packet L hmac now s data))"
| step_hard_reset_client: "session_step L hmac s (snd (create_hard_reset_client hmac now ts s))"
| step_hard_reset_response: "session_step L hmac s (snd (create_hard_reset_response hmac now ts s))"
| step_control_packets: "session_step L hmac s (snd (create_control_packets hmac clk s data))"
| step_ack_packet: "session_step L hmac s (snd (create_ack_packet hmac now ts s))"
| step_encrypt: "session_step L hmac s (snd (encrypt_data L s data))"
| step_install: "install_keys s m is_server = Inr s' \<Longrightarrow> session_step L hmac s s'"
| step_retransmits: "session_get_retransmits hmac now tss s = Inr (ws, s') \<Longrightarrow> session_step L hmac s s'"
| step_rotate: "session_step L hmac s (rotate_key s)"
| step_set_state: "session_step L hmac s (set_state s now st)"
| step_set_remote: "session_step L hmac s (set_remote_session_id s sid)"
| step_set_tls_auth: "session_step L hmac s (set_tls_auth s key)"
| step_set_cipher: "session_step L hmac s (set_cipher_suite s suite)"

lemma session_inv_setters:
  assumes "session_inv s"
  shows "session_inv (rotate_key s)" "session_inv (set_state s now st)"
    "session_inv (set_remote_session_id s sid)" "session_inv (set_tls_auth s key)"
    "session_inv (set_cipher_suite s suite)"
  using assms
  by (simp_all add: session_inv_def rotate_key_def set_state_def set_remote_session_id_def
        set_tls_auth_def set_cipher_suite_def)

lemmas session_inv_ops = session_inv_process session_inv_resets session_inv_packets session_inv_ack
  session_inv_encrypt session_inv_setters

interpretation session: stepper "\<lambda>s. \<exists>sid now suite. s = new_server sid now suite"
  "session_step L hmac" session_inv for L hmac
proof unfold_locales
  fix s t assume "session_step L hmac s t" and inv: "session_inv s"
  then show "session_inv t"
  proof cases
    case (step_install m is_server)
    then show ?thesis using install_keys_ok [OF inv, of m is_server] by auto
  next
    case (step_retransmits now tss ws)
    then show ?thesis using session_get_retransmits_ok [OF inv, of hmac now tss] by auto
  qed (auto intro: session_inv_ops inv)
qed (auto simp: session_inv_new)

section \<open>Absence of panics\<close>

lemma check_tls_auth_cong:
  "ps_use_tls_auth s2 = ps_use_tls_auth s \<Longrightarrow> ps_tls_auth_key s2 = ps_tls_auth_key s \<Longrightarrow>
     check_tls_auth hmac s2 data = check_tls_auth hmac s data"
  unfolding check_tls_auth_def by (simp only:)

lemma check_tls_auth_no_panic: "no_panic (check_tls_auth hmac s data)"
  by (auto simp: check_tls_auth_def verify_no_panic res_simps intro!: no_panic_intros split: option.split)

lemma receive_no_panic: "no_panic (fst (receive t pid d))"
  by (simp add: receive_def Let_def split_beta)

lemma send_no_panic: "no_panic (fst (send t now d))"
  by (simp add: send_def Let_def)

lemma receive_reset_no_panic: "no_panic (fst (receive_reset s mp))"
  by (auto simp: receive_reset_def Let_def split_beta receive_no_panic intro!: no_panic_intros split: option.split)

lemma dispatch_no_panic: "no_panic (fst (dispatch_control s c))"
proof -
  have "no_panic (fst (hard_reset_client s c))"
    using receive_reset_no_panic
    by (auto simp: hard_reset_client_def Let_def split_beta no_panic_def split: sum.split)
  moreover have "no_panic (fst (process_tls_payload s mp d))" for mp d
    using receive_no_panic
    by (auto simp: process_tls_payload_def TlsRecordReassembler_add_def Let_def split_beta no_panic_def
          split: sum.split option.split)
  ultimately show ?thesis
    using receive_reset_no_panic
    by (auto simp: dispatch_control_def Let_def split_beta no_panic_def split: OpCode.split sum.split)
qed

lemma control_no_panic: "no_panic (fst (process_control_packet now s c))"
  by (simp add: process_control_packet_def Let_def split_beta dispatch_no_panic)

lemma Packet_parse_data_key_ok:
  assumes "Packet_parse data tls = Inr (Data p)"
  shows "key_ok (ph_key_id (dpd_header p))"
proof -
  from assms obtain h off where h: "PacketHeader_parse data tls = Inr (h, off)"
    and p: "(if is_data (ph_opcode h) then Packet_parse_data data h off else Packet_parse_control data h off)
      = Inr (Data p)"
    by (auto simp: Packet_parse_def res_simps)
  from p have "dpd_header p = h"
    by (auto simp: Packet_parse_data_def Packet_parse_control_def Let_def res_simps split: if_splits)
  with PacketHeader_parse_layout(3) [OF h] show ?thesis by (simp add: header_ok_def)
qed

lemma channel_decrypt_no_panic: "no_panic (fst (DataChannel_decrypt L ch p))"
  by (simp add: DataChannel_decrypt_def Let_def split_beta decrypt_no_panic)

lemma channel_encrypt_no_panic: "aead_laws L \<Longrightarrow> no_panic (fst (DataChannel_encrypt L ch d))"
  by (auto simp: DataChannel_encrypt_def Let_def split_beta encrypt_no_panic intro!: no_panic_intros)

lemma process_no_panic:
  assumes "session_inv s"
  shows "no_panic (fst (process_packet L hmac now s data))"
proof -
  let ?s = "s\<lparr>ps_last_activity := now\<rparr>"
  let ?r = "and_then (check_tls_auth hmac ?s data) (\<lambda>_. Packet_parse data (ps_use_tls_auth ?s))"
  have inv: "session_inv ?s" using assms by (simp add: session_inv_def)
  have np: "no_panic ?r" by (intro no_panic_intros check_tls_auth_no_panic Packet_parse_no_panic)
  have "no_panic (fst (process_data_packet L ?s p))" if "?r = Inr (Data p)" for p
  proof -
    have "key_ok (ph_key_id (dpd_header p))"
      using that Packet_parse_data_key_ok by (auto simp: res_simps)
    then show ?thesis
      by (auto simp: process_data_packet_def channel_at_ok [OF inv] Let_def split_beta channel_decrypt_no_panic
            intro!: no_panic_intros split: option.split)
  qed
  with np control_no_panic [of now ?s] show ?thesis
    by (cases ?r) (auto simp: process_packet_def Let_def no_panic_def split: Packet.split)
qed

lemma encrypt_data_no_panic: "aead_laws L \<Longrightarrow> session_inv s \<Longrightarrow> no_panic (fst (encrypt_data L s d))"
  using channel_at_ok [of s "ps_current_key_id s"]
  by (auto simp: encrypt_data_def session_inv_def Let_def split_beta channel_encrypt_no_panic
        intro!: no_panic_intros split: option.split)

section \<open>tls-auth\<close>

lemma process_keeps_auth:
  "ps_use_tls_auth (snd (process_packet L hmac now s data)) = ps_use_tls_auth s \<and>
   ps_tls_auth_key (snd (process_packet L hmac now s data)) = ps_tls_auth_key s"
proof -
  have reset: "ps_use_tls_auth (snd (receive_reset s mp)) = ps_use_tls_auth s \<and>
      ps_tls_auth_key (snd (receive_reset s mp)) = ps_tls_auth_key s" for s mp
    by (simp add: receive_reset_def Let_def split_beta split: option.split)
  have "ps_use_tls_auth (snd (dispatch_control s c)) = ps_use_tls_auth s \<and>
      ps_tls_auth_key (snd (dispatch_control s c)) = ps_tls_auth_key s" for s c
    by (simp add: dispatch_control_def hard_reset_client_def process_tls_payload_def Let_def split_beta reset
          split: OpCode.split sum.split option.split)
  then show ?thesis
    by (simp add: process_packet_def process_control_packet_def process_data_packet_def set_channel_def
          Let_def split_beta split: sum.split Packet.split option.split)
qed

lemma dispatch_window: "ps_replay_window (snd (dispatch_control s c)) = ps_replay_window s"
proof -
  have reset: "ps_replay_window (snd (receive_reset s mp)) = ps_replay_window s" for s mp
    by (simp add: receive_reset_def Let_def split_beta split: option.split)
  show ?thesis
    by (simp add: dispatch_control_def hard_reset_client_def process_tls_payload_def Let_def split_beta reset
          split: OpCode.split sum.split option.split)
qed

lemma process_window:
  assumes "process_packet L hmac now s data = (r, s')" and "ps_use_tls_auth s"
    and "Packet_parse data True = Inr (Control c)" and "ph_packet_id (cp_header c) = Some i"
  shows "ps_replay_window s' = ps_replay_window s \<and> \<not> is_ok r \<or>
    ps_replay_window s' = snd (ControlReplayWindow_check_and_update (ps_replay_window s) i) \<and>
    (is_ok r \<longrightarrow> fst (ControlReplayWindow_check_and_update (ps_replay_window s) i))"
proof -
  let ?s = "s\<lparr>ps_last_activity := now\<rparr>"
  show ?thesis
  proof (cases "check_tls_auth hmac ?s data")
    case (Inl e)
    with assms(1,2) show ?thesis by (auto simp: process_packet_def Let_def)
  next
    case (Inr u)
    have "process_control_packet now ?s c = (r, s')"
      using assms Inr by (simp add: process_packet_def Let_def)
    then have "r = fst (process_control_packet now ?s c)" "s' = snd (process_control_packet now ?s c)"
      by simp_all
    then show ?thesis
      using assms(2,4)
      by (simp add: process_control_packet_def Let_def split_beta dispatch_window split: if_splits)
  qed
qed

text \<open>Where a control packet under tls-auth carries its id.\<close>

definition is_control_datagram :: "bytes \<Rightarrow> bool" where
  "is_control_datagram data \<longleftrightarrow>
     (case Packet_parse data True of Inr (Control c) \<Rightarrow> True | _ \<Rightarrow> False)"

definition tls_auth_id :: "bytes \<Rightarrow> u32" where
  "tls_auth_id data = u32_from_be_bytes (slice data 41 45)"

lemma Packet_parse_control_id:
  assumes "Packet_parse data True = Inr (Control c)"
  shows "ph_packet_id (cp_header c) = Some (tls_auth_id data)"
proof -
  from assms obtain h off where h: "PacketHeader_parse data True = Inr (h, off)"
    and p: "(if is_data (ph_opcode h) then Packet_parse_data data h off else Packet_parse_control data h off)
      = Inr (Control c)"
    by (auto simp: Packet_parse_def res_simps)
  from p have c: "cp_header c = h" and op: "\<not> is_data (ph_opcode h)"
    by (auto simp: Packet_parse_data_def Packet_parse_control_def Let_def res_simps split: if_splits)
  have "ph_packet_id h = Some (tls_auth_id data)"
    using h op by (auto simp: PacketHeader_parse_def Let_def res_simps tls_auth_id_def split: if_splits)
  then show ?thesis by (simp add: c)
qed

lemma process_other_window:
  assumes "process_packet L hmac now s data = (r, s')" and "ps_use_tls_auth s" and "\<not> is_control_datagram data"
  shows "ps_replay_window s' = ps_replay_window s"
  using assms
  by (auto simp: process_packet_def process_data_packet_def set_channel_def is_control_datagram_def Let_def res_simps
        split: sum.splits Packet.splits option.splits prod.splits)

fun process_run ::
    "aead \<Rightarrow> mac \<Rightarrow> ProtocolSession \<Rightarrow> (instant \<times> bytes) list \<Rightarrow> (ProtocolError, ProcessedPacket) res list \<times> ProtocolSession" where
  "process_run L hmac s [] = ([], s)"
| "process_run L hmac s ((now, data) # ds) =
     (let (r, s') = process_packet L hmac now s data; (rs, s'') = process_run L hmac s' ds in (r # rs, s''))"

definition processed_ids :: "(ProtocolError, ProcessedPacket) res list \<Rightarrow> (instant \<times> bytes) list \<Rightarrow> u32 list" where
  "processed_ids rs ds =
     [tls_auth_id (snd d). (r, d) \<leftarrow> zip rs ds, is_ok r \<and> is_control_datagram (snd d)]"

lemma process_run_fresh:
  "ps_use_tls_auth s \<Longrightarrow> control_window.represents (ps_replay_window s) A \<Longrightarrow>
     distinct (processed_ids (fst (process_run L hmac s ds)) ds) \<and>
     unat ` set (processed_ids (fst (process_run L hmac s ds)) ds) \<inter> A = {}"
proof (induction ds arbitrary: s A)
  case Nil
  then show ?case by (simp add: processed_ids_def)
next
  case (Cons e ds)
  obtain now data where e: "e = (now, data)" by (cases e)
  let ?id = "tls_auth_id data" and ?w = "ps_replay_window s"
  obtain r s' where step: "process_packet L hmac now s data = (r, s')" by fastforce
  have auth: "ps_use_tls_auth s'" using process_keeps_auth [of L hmac now s data] Cons.prems(1) by (simp add: step)
  note check = control_window.check_refines [OF Cons.prems(2), of ?id]
  have "\<exists>B. control_window.represents (ps_replay_window s') B \<and> A \<subseteq> B \<and>
      (is_ok r \<and> is_control_datagram data \<longrightarrow> unat ?id \<notin> A \<and> unat ?id \<in> B)"
  proof (cases "is_control_datagram data")
    case True
    then obtain c where c: "Packet_parse data True = Inr (Control c)"
      by (auto simp: is_control_datagram_def split: sum.splits Packet.splits)
    from process_window [OF step Cons.prems(1) c Packet_parse_control_id [OF c]] show ?thesis
    proof
      assume "ps_replay_window s' = ?w \<and> \<not> is_ok r"
      with Cons.prems(2) show ?thesis by auto
    next
      assume "ps_replay_window s' = snd (ControlReplayWindow_check_and_update ?w ?id) \<and>
        (is_ok r \<longrightarrow> fst (ControlReplayWindow_check_and_update ?w ?id))"
      with check show ?thesis
        by (intro exI [of _ "snd (spec_check 64 A (unat ?id))"]) (auto simp: spec_check_def split: if_splits)
    qed
  next
    case False
    with process_other_window [OF step Cons.prems(1)] Cons.prems(2) show ?thesis by auto
  qed
  then obtain B where B: "control_window.represents (ps_replay_window s') B" "A \<subseteq> B"
    "is_ok r \<and> is_control_datagram data \<longrightarrow> unat ?id \<notin> A \<and> unat ?id \<in> B"
    by blast
  from Cons.IH [OF auth B(1)] B(2,3) show ?case
    by (fastforce simp: e step split_beta processed_ids_def)
qed

section \<open>Properties\<close>

definition sample_session :: ProtocolSession where
  "sample_session =
     set_tls_auth (new_server [1, 2, 3, 4, 5, 6, 7, 8] 0 ChaCha20Poly1305) (from_single_key (replicate 32 1))"

lemma sample_session_fields:
  "ps_use_tls_auth sample_session" "ps_tls_auth_key sample_session = Some (from_single_key (replicate 32 1))"
  "ps_replay_window sample_session = ControlReplayWindow_new"
  by (simp_all add: sample_session_def set_tls_auth_def new_server_def)

text \<open>An acknowledgement packet under tls-auth, with id 1 and a valid tag.\<close>

definition sample_ack :: bytes where
  "sample_ack = [40, 1, 2, 3, 4, 5, 6, 7, 8] @ replicate 31 0 @ [78] @ [0, 0, 0, 1] @ [0, 0, 0, 0] @ [0]"

lemma sample_ack_valid: "check_tls_auth null_mac sample_session sample_ack = Inr ()"
proof -
  have "length sample_ack = 50" "sample_ack \<noteq> []" "OpCode_from_byte (sample_ack ! 0) = Inr AckV1"
    by code_simp+
  moreover have "verify null_mac (from_single_key (replicate 32 1))
      (slice sample_ack 41 49 @ slice sample_ack 0 9 @ slice sample_ack 49 50) (slice sample_ack 9 41) = Inr ()"
    by code_simp
  ultimately show ?thesis
    by (simp add: check_tls_auth_def sample_session_fields)
qed



text \<open>
  C15. With a tls-auth key, a datagram with a control opcode whose tag is missing or does not
  match is answered by an error and leaves the session as it was, apart from the activity
  time: acknowledgements, resets, handshake data and rekeying need a valid tag.
\<close>

theorem forged_control_ignored:
  assumes "ps_use_tls_auth s" and "ps_tls_auth_key s = Some k" and "data \<noteq> []"
    and "OpCode_from_byte (data ! 0) = Inr op" and "\<not> is_data op"
    and "\<not> (49 \<le> length data \<and>
            slice data 9 41 = hmac (ha_rx_key k) (slice data 41 49 @ take 9 data @ drop 49 data))"
  shows "\<exists>e. process_packet L hmac now s data = (Inl (Err e), s\<lparr>ps_last_activity := now\<rparr>)"
proof -
  let ?s = "s\<lparr>ps_last_activity := now\<rparr>"
  have "\<exists>e. check_tls_auth hmac ?s data = Inl (Err e)"
    using assms by (cases "length data < 49") (auto simp: check_tls_auth_def verify_def)
  then show ?thesis
    by (auto simp: process_packet_def Let_def)
qed

theorem forged_control_ignored_witness:
  "\<exists>e. process_packet null_aead null_mac 5 sample_session (sample_ack[40 := 79])
     = (Inl (Err e), sample_session\<lparr>ps_last_activity := 5\<rparr>)"
proof (rule forged_control_ignored)
  show "ps_use_tls_auth sample_session"
    and "ps_tls_auth_key sample_session = Some (from_single_key (replicate 32 1))"
    by (rule sample_session_fields)+
  show "sample_ack[40 := 79] \<noteq> []" by code_simp
  show "OpCode_from_byte (sample_ack[40 := 79] ! 0) = Inr AckV1" by code_simp
  show "\<not> is_data AckV1" by code_simp
  show "\<not> (49 \<le> length (sample_ack[40 := 79]) \<and> slice (sample_ack[40 := 79]) 9 41 =
      null_mac (ha_rx_key (from_single_key (replicate 32 1)))
        (slice (sample_ack[40 := 79]) 41 49 @ take 9 (sample_ack[40 := 79]) @ drop 49 (sample_ack[40 := 79])))"
    by code_simp
qed

text \<open>
  C16. Replay protection of the control channel: from a state with a new window, over any sequence
  of datagrams, the tls-auth packet ids of the control packets that are processed without error
  are distinct.
\<close>

theorem control_never_processed_twice:
  assumes "ps_use_tls_auth s" and "ps_replay_window s = ControlReplayWindow_new"
  shows "distinct (processed_ids (fst (process_run L hmac s ds)) ds)"
  using process_run_fresh [OF assms(1), of "{}"] assms(2) control_window.represents_fresh by auto

theorem control_never_processed_twice_witness:
  "distinct (processed_ids (fst (process_run null_aead null_mac sample_session [(1, sample_ack), (2, sample_ack)]))
     [(1, sample_ack), (2, sample_ack)])"
  by (rule control_never_processed_twice) (rule sample_session_fields)+

text \<open>
  Key rotation reopens the window although the tls-auth key does not change: an
  acknowledgement packet that was processed, and whose repetition is refused as a replay, is
  processed again after \<open>rotate_key\<close>.
\<close>

theorem rotate_key_allows_replay:
  assumes "ps_use_tls_auth s" and "check_tls_auth hmac s data = Inr ()"
    and "Packet_parse data True = Inr (Control c)" and "ph_opcode (cp_header c) = AckV1"
    and "fst (ControlReplayWindow_check_and_update (ps_replay_window s) (tls_auth_id data))"
    and "process_packet L hmac now s data = (r, s')"
  shows "r = Inr ProcNone \<and>
     fst (process_packet L hmac now' s' data) = Inl (Err ProtocolError.ReplayDetected) \<and>
     fst (process_packet L hmac now' (rotate_key s') data) = Inr ProcNone"
proof -
  let ?i = "tls_auth_id data"
  note pid = Packet_parse_control_id [OF assms(3)]
  have auth: "check_tls_auth hmac s2 data = Inr ()"
    if "ps_use_tls_auth s2 = ps_use_tls_auth s" "ps_tls_auth_key s2 = ps_tls_auth_key s" for s2
    using assms(2) check_tls_auth_cong [OF that] by simp
  obtain w where w: "ControlReplayWindow_check_and_update (ps_replay_window s) ?i = (True, w)"
    using assms(5) by (metis prod.collapse)
  have ack: "fst (process_packet L hmac t s2 data) =
      (if fst (ControlReplayWindow_check_and_update (ps_replay_window s2) ?i)
       then Inr ProcNone else Inl (Err ProtocolError.ReplayDetected))"
    if "ps_use_tls_auth s2" "ps_tls_auth_key s2 = ps_tls_auth_key s" for s2 t
    using auth [of "s2\<lparr>ps_last_activity := t\<rparr>"] that assms(1,3,4) pid
    by (simp add: process_packet_def process_control_packet_def dispatch_control_def Let_def split_beta)
  have s': "ps_replay_window s' = w" "ps_use_tls_auth s'" "ps_tls_auth_key s' = ps_tls_auth_key s"
    using process_window [OF assms(6,1,3) pid] process_keeps_auth [of L hmac now s data] ack [of s now] assms(1,6) w
    by auto
  have again: "\<not> fst (ControlReplayWindow_check_and_update w ?i)"
    using control_check_twice [of "ps_replay_window s" ?i] w by simp
  have nonzero: "?i \<noteq> 0"
    using assms(5) by (auto simp: ControlReplayWindow_check_and_update_def)
  have fresh: "fst (ControlReplayWindow_check_and_update (ControlReplayWindow_reset w) ?i)"
    using nonzero by (simp add: ControlReplayWindow_check_and_update_def ControlReplayWindow_reset_def Let_def
        word_neq_0_conv)
  show ?thesis
    using ack [of s now] ack [of s' now'] ack [of "rotate_key s'" now'] assms(1,6) s' w again fresh
    by (simp add: rotate_key_def)
qed

theorem rotate_key_allows_replay_witness:
  "let s' = snd (process_packet null_aead null_mac 1 sample_session sample_ack) in
     fst (process_packet null_aead null_mac 2 s' sample_ack) = Inl (Err ProtocolError.ReplayDetected) \<and>
     fst (process_packet null_aead null_mac 2 (rotate_key s') sample_ack) = Inr ProcNone"
proof -
  let ?c = "\<lparr>cp_header = \<lparr>ph_opcode = AckV1, ph_key_id = KeyId 0,
      ph_session_id = Some [1, 2, 3, 4, 5, 6, 7, 8], ph_hmac = Some (replicate 31 0 @ [78]),
      ph_packet_id = Some 1, ph_timestamp = Some 0\<rparr>,
    cp_remote_session_id = None, cp_acks = [], cp_message_packet_id = None, cp_payload = []\<rparr>"
  note sample_ack_valid
  moreover have "Packet_parse sample_ack True = Inr (Control ?c)" by code_simp
  moreover have "ph_opcode (cp_header ?c) = AckV1" by simp
  moreover have "fst (ControlReplayWindow_check_and_update (ps_replay_window sample_session) (tls_auth_id sample_ack))"
    unfolding sample_session_fields by code_simp
  ultimately show ?thesis
    using rotate_key_allows_replay [OF sample_session_fields(1) _ _ _ _ prod.collapse [symmetric], of null_mac sample_ack ?c null_aead 1 2]
    by (simp add: Let_def)
qed

end
