(* ===== verification/Control_Delivery.thy ===== *)
theory Control_Delivery
  imports Protocol_Session
begin

text \<open>
  Two sessions connected by the wire: what one sends, the other processes. This theory puts the
  packet format, tls-auth, the reliable transport, the record reassembler and the data channel
  together and follows a TLS byte stream and an IP packet from one end to the other.
\<close>

section \<open>One control packet on the wire\<close>

text \<open>A packet without acknowledgements loses its remote session id on the wire.\<close>

definition norm_control :: "ControlPacketData \<Rightarrow> ControlPacketData" where
  "norm_control c = (if cp_acks c = [] then c\<lparr>cp_remote_session_id := None\<rparr> else c)"

definition with_auth :: "bytes \<Rightarrow> u32 \<Rightarrow> u32 \<Rightarrow> ControlPacketData \<Rightarrow> ControlPacketData" where
  "with_auth mac pid ts c =
     c\<lparr>cp_header := (cp_header c)\<lparr>ph_hmac := Some mac, ph_packet_id := Some pid, ph_timestamp := Some ts\<rparr>\<rparr>"

lemma serialize_norm: "Packet_serialize (Control (norm_control c)) = Packet_serialize (Control c)"
  by (simp add: norm_control_def)

lemma serialize_with_auth:
  assumes "control_ok False c"
  shows "Packet_serialize (Control (with_auth mac pid ts c)) =
     take 9 (Packet_serialize (Control c)) @ mac @ u32_to_be_bytes pid @ u32_to_be_bytes ts
       @ drop 9 (Packet_serialize (Control c))"
    and "9 \<le> length (Packet_serialize (Control c))"
    and "Packet_serialize (Control c) ! 0 = OpCode_to_byte (ph_opcode (cp_header c)) (ph_key_id (cp_header c))"
proof -
  from assms obtain sid where sid: "ph_session_id (cp_header c) = Some sid" "length sid = 8"
    and none: "ph_hmac (cp_header c) = None" "ph_packet_id (cp_header c) = None" "ph_timestamp (cp_header c) = None"
    by (auto simp: control_ok_def header_ok_def)
  show "Packet_serialize (Control (with_auth mac pid ts c)) =
     take 9 (Packet_serialize (Control c)) @ mac @ u32_to_be_bytes pid @ u32_to_be_bytes ts
       @ drop 9 (Packet_serialize (Control c))"
    and "9 \<le> length (Packet_serialize (Control c))"
    and "Packet_serialize (Control c) ! 0 = OpCode_to_byte (ph_opcode (cp_header c)) (ph_key_id (cp_header c))"
    using sid none by (simp_all add: with_auth_def PacketHeader_serialize_def opt_bytes_def)
qed

lemma control_ok_with_auth: "control_ok False c \<Longrightarrow> length mac = 32 \<Longrightarrow> control_ok True (with_auth mac pid ts c)"
  by (auto simp: control_ok_def header_ok_def with_auth_def split: if_splits)

text \<open>The two ends use tls-auth with matching keys, or neither does.\<close>

definition auth_link :: "ProtocolSession \<Rightarrow> ProtocolSession \<Rightarrow> bool" where
  "auth_link s r \<longleftrightarrow> ps_use_tls_auth s = ps_use_tls_auth r \<and>
     (ps_use_tls_auth s \<longrightarrow> (\<exists>a b. ps_tls_auth_key s = Some a \<and> ps_tls_auth_key r = Some b \<and> ha_rx_key b = ha_tx_key a))"

text \<open>What arrives: the packet sent, with a tls-auth header if there is a key.\<close>

lemma link_process:
  assumes "hmac_law hmac" and "auth_link s r" and ok: "control_ok False c"
    and "maybe_wrap_tls_auth hmac ts s (Packet_serialize (Control c)) = (w, s')"
  shows "\<exists>mac. process_packet L hmac now r w = process_control_packet now (r\<lparr>ps_last_activity := now\<rparr>)
    (if ps_use_tls_auth s then with_auth mac (ps_tls_auth_packet_id s) ts c else c)"
proof (cases "ps_use_tls_auth s")
  case False
  with assms have "w = Packet_serialize (Control c)" "\<not> ps_use_tls_auth r"
    by (auto simp: maybe_wrap_tls_auth_def auth_link_def)
  with False ok show ?thesis
    by (simp add: process_packet_def check_tls_auth_def Packet_parse_control_serialize Let_def
          del: Packet_serialize.simps)
next
  case True
  let ?d = "Packet_serialize (Control c)" and ?pid = "ps_tls_auth_packet_id s"
  obtain a b where ab: "ps_tls_auth_key s = Some a" "ps_tls_auth_key r = Some b" "ha_rx_key b = ha_tx_key a"
    "ps_use_tls_auth r"
    using assms(2) True by (auto simp: auth_link_def)
  let ?mac = "authenticate hmac a (u32_to_be_bytes ?pid @ u32_to_be_bytes ts @ ?d)"
  have len: "length ?mac = 32" using assms(1) by (simp add: hmac_law_def authenticate_def)
  have w: "w = Packet_serialize (Control (with_auth ?mac ?pid ts c))"
    using assms(4) True ab serialize_with_auth(1,2) [OF ok]
    by (simp add: maybe_wrap_tls_auth_def Let_def del: Packet_serialize.simps)
  have parse: "Packet_parse w True = Inr (Control (with_auth ?mac ?pid ts c))"
    unfolding w by (rule Packet_parse_control_serialize) (rule control_ok_with_auth [OF ok len])
  have op: "\<not> is_data (ph_opcode (cp_header c))" using ok by (simp add: control_ok_def)
  have "?d \<noteq> []" using serialize_with_auth(2) [OF ok] by (auto simp del: Packet_serialize.simps)
  then have w0: "w \<noteq> []" "OpCode_from_byte (w ! 0) = Inr (ph_opcode (cp_header c))"
    using serialize_with_auth(1) [OF ok, of ?mac ?pid ts] serialize_with_auth(2,3) [OF ok]
    by (simp_all add: w nth_append del: Packet_serialize.simps)
  have "check_tls_auth hmac (r\<lparr>ps_last_activity := now\<rparr>) w = Inr ()"
    using ab w0 op serialize_with_auth(1) [OF ok, of ?mac ?pid ts] serialize_with_auth(2) [OF ok] len
    by (simp add: check_tls_auth_def w verify_authenticate del: Packet_serialize.simps)
  with True ab parse show ?thesis
    by (intro exI [of _ ?mac]) (simp add: process_packet_def Let_def)
qed

section \<open>A byte stream over the control channel\<close>

text \<open>The pieces that \<open>create_control_packets\<close> cuts a message into.\<close>

function chunks :: "bytes \<Rightarrow> bytes list" where
  "chunks xs = (if xs = [] then [] else take MAX_CONTROL_PAYLOAD xs # chunks (drop MAX_CONTROL_PAYLOAD xs))"
  by pat_completeness auto

termination chunks
  by (relation "measure length") (auto simp: MAX_CONTROL_PAYLOAD_def)

declare chunks.simps [simp del]

lemma chunks_Nil [simp]: "chunks [] = []"
  by (simp add: chunks.simps)

lemma chunks_step: "xs \<noteq> [] \<Longrightarrow> chunks xs = take MAX_CONTROL_PAYLOAD xs # chunks (drop MAX_CONTROL_PAYLOAD xs)"
  by (simp add: chunks.simps)

lemma concat_chunks: "concat (chunks xs) = xs"
proof (induction xs rule: chunks.induct)
  case (1 xs)
  then show ?case by (cases "xs = []") (simp_all add: chunks_step)
qed

lemma chunk_length: "c \<in> set (chunks xs) \<Longrightarrow> length c \<le> MAX_CONTROL_PAYLOAD"
proof (induction xs rule: chunks.induct)
  case (1 xs)
  then show ?case by (cases "xs = []") (auto simp: chunks_step)
qed

lemma length_chunks: "length (chunks xs) \<le> n \<longleftrightarrow> length xs \<le> n * MAX_CONTROL_PAYLOAD"
proof (induction xs arbitrary: n rule: chunks.induct)
  case (1 xs)
  show ?case
  proof (cases n)
    case 0
    then show ?thesis by (cases "xs = []") (auto simp: chunks_step)
  next
    case (Suc m)
    with 1 [of m] show ?thesis by (cases "xs = []") (auto simp: chunks_step)
  qed
qed

fun send_chunks ::
    "mac \<Rightarrow> (nat \<Rightarrow> instant \<times> u32) \<Rightarrow> nat \<Rightarrow> ProtocolSession \<Rightarrow> bytes list
       \<Rightarrow> (ProtocolError, bytes list) res \<times> ProtocolSession" where
  "send_chunks hmac clk k s [] = (Inr [], s)"
| "send_chunks hmac clk k s (c # cs) =
     (let (r, s) = create_single_control_packet hmac (fst (clk k)) (snd (clk k)) s c
      in case r of
           Inl e \<Rightarrow> (Inl e, s)
         | Inr w \<Rightarrow> let (ws, s) = send_chunks hmac clk (Suc k) s cs in (and_then ws (\<lambda>ws. Inr (w # ws)), s))"

lemma split_packets_chunks: "split_packets hmac clk d k off s = send_chunks hmac clk k s (chunks (drop off d))"
proof (induction hmac clk d k off s rule: split_packets.induct)
  case (1 hmac clk d k off s)
  show ?case
  proof (cases "off < length d")
    case False
    then show ?thesis by (simp add: split_packets.simps [of hmac clk d k off s])
  next
    case True
    let ?stop = "min (off + MAX_CONTROL_PAYLOAD) (length d)"
    have c: "take (?stop - off) (drop off d) = take MAX_CONTROL_PAYLOAD (drop off d)"
      by (cases "off + MAX_CONTROL_PAYLOAD \<le> length d") auto
    have rest: "drop ?stop d = drop MAX_CONTROL_PAYLOAD (drop off d)"
      by (cases "off + MAX_CONTROL_PAYLOAD \<le> length d") (auto simp: add.commute)
    obtain x s1 where step: "create_single_control_packet hmac (fst (clk k)) (snd (clk k)) s
        (take MAX_CONTROL_PAYLOAD (drop off d)) = (x, s1)" by fastforce
    have "split_packets hmac clk d (Suc k) ?stop s1 = send_chunks hmac clk (Suc k) s1 (chunks (drop ?stop d))"
      if "x = Inr w" for w
      by (rule "1.IH" [OF True refl refl]) (use step that c in \<open>auto simp: prod_eq_iff\<close>)
    then show ?thesis
      using True step
      by (simp add: split_packets.simps [of hmac clk d k off s] chunks_step c rest Let_def
            split: sum.split)
  qed
qed

text \<open>What \<open>create_control_packets\<close> sends: a message of at most one packet goes out even if empty.\<close>

definition pieces :: "bytes \<Rightarrow> bytes list" where
  "pieces d = (if length d \<le> MAX_CONTROL_PAYLOAD then [d] else chunks d)"

lemma create_control_packets_pieces:
  "create_control_packets hmac clk s d = send_chunks hmac clk 0 s (pieces d)"
  by (simp add: create_control_packets_def pieces_def split_packets_chunks split_beta split: sum.split)

lemma pieces_nonempty: "pieces d \<noteq> []"
  by (cases "d = []") (auto simp: pieces_def chunks_step)

lemma concat_pieces: "concat (pieces d) = d"
  by (simp add: pieces_def concat_chunks)

lemma piece_length: "c \<in> set (pieces d) \<Longrightarrow> length c \<le> MAX_CONTROL_PAYLOAD"
  by (auto simp: pieces_def chunk_length split: if_splits)

lemma length_pieces: "0 < n \<Longrightarrow> length (pieces d) \<le> n \<longleftrightarrow> length d \<le> n * MAX_CONTROL_PAYLOAD"
  by (cases n) (auto simp: pieces_def length_chunks)

text \<open>
  The receiver is ready for what the sender sends next: the keys match, the sender's next packet
  id is the one expected, nothing is buffered out of order, and the sender's tls-auth ids are
  ahead of those the receiver has seen.
\<close>

definition control_link :: "ProtocolSession \<Rightarrow> ProtocolSession \<Rightarrow> bool" where
  "control_link s r \<longleftrightarrow> auth_link s r \<and> length (ps_local_session_id s) = 8 \<and> key_ok (ps_current_key_id s) \<and>
     bt_wf (rt_pending (ps_reliable s)) \<and>
     (rt_pending_acks (ps_reliable s) = [] \<or> length (rt_pending_acks (ps_reliable s)) \<le> MAX_ACK_COUNT \<and>
        (\<exists>x. ps_remote_session_id s = Some x \<and> length x = 8)) \<and>
     rt_next_recv_id (ps_reliable r) = rt_next_send_id (ps_reliable s) \<and> rt_out_of_order (ps_reliable r) = [] \<and>
     (ps_use_tls_auth s \<longrightarrow> unat (crw_highest (ps_replay_window r)) < unat (ps_tls_auth_packet_id s))"

lemma control_link_new:
  assumes "length sid = 8"
  shows "control_link (new_server sid t suite) (new_client sid' t' suite')"
  using assms
  by (simp add: control_link_def auth_link_def new_server_def new_client_def ReliableTransport_new_def bt_wf_def)

text \<open>What the receiver answers to one piece of the stream, and its reassembler afterwards.\<close>

definition deliver ::
    "TlsRecordReassembler \<Rightarrow> bytes \<Rightarrow> (ProtocolError, ProcessedPacket) res \<times> TlsRecordReassembler" where
  "deliver ra d =
     (case TlsRecordReassembler_add ra d of
        (Inl e, ra) \<Rightarrow> (Inl e, ra)
      | (Inr _, ra) \<Rightarrow>
          let (records, ra) = extract_records ra in (Inr (if records = [] then ProcNone else TlsData records), ra))"

lemma process_acks_receive_side [simp]:
  "rt_next_recv_id (process_acks t now acks) = rt_next_recv_id t"
  "rt_out_of_order (process_acks t now acks) = rt_out_of_order t"
  by (induction acks arbitrary: t) (auto simp: Let_def update_rtt_def split: option.split)

lemma receive_expected:
  assumes "rt_out_of_order t = []"
  shows "receive t (rt_next_recv_id t) d =
     (Inr (Some d), t\<lparr>rt_pending_acks := rt_pending_acks t @ [rt_next_recv_id t], rt_next_recv_id := rt_next_recv_id t + 1\<rparr>)"
  using assms by (simp add: receive_def skip_buffered.simps Let_def)

text \<open>A control packet that carries the expected id reaches the reassembler.\<close>

definition window_after :: "ProtocolSession \<Rightarrow> ControlPacketData \<Rightarrow> bool \<times> ControlReplayWindow" where
  "window_after r c =
     (if ps_use_tls_auth r then
        case ph_packet_id (cp_header c) of
          Some packet_id \<Rightarrow> ControlReplayWindow_check_and_update (ps_replay_window r) packet_id
        | None \<Rightarrow> (True, ps_replay_window r)
      else (True, ps_replay_window r))"

lemma window_after_ahead:
  assumes "ps_use_tls_auth r \<Longrightarrow> ph_packet_id (cp_header c) = Some pid \<and> unat (crw_highest (ps_replay_window r)) < unat pid"
  obtains w where "window_after r c = (True, w)" and "ps_use_tls_auth r \<longrightarrow> crw_highest w = pid"
proof (cases "ps_use_tls_auth r")
  case True
  with assms that control_check_ahead [of "ps_replay_window r" pid] show ?thesis
    by (auto simp: window_after_def word_unat_eq_iff)
next
  case False
  with that show ?thesis by (simp add: window_after_def)
qed

lemma process_control_run:
  assumes "ph_opcode (cp_header c) = ControlV1" and "window_after r c = (True, w)"
  shows "process_control_packet now r c =
      process_tls_payload (r\<lparr>ps_replay_window := w, ps_reliable :=
        if cp_acks c = [] then ps_reliable r else process_acks (ps_reliable r) now (cp_acks c)\<rparr>)
        (cp_message_packet_id c) (cp_payload c)"
  using assms
  by (cases "cp_acks c = []") (simp_all add: process_control_packet_def window_after_def [symmetric] dispatch_control_def)

lemma process_tls_expected:
  assumes "rt_out_of_order (ps_reliable r) = []"
  shows "process_tls_payload r (Some (rt_next_recv_id (ps_reliable r))) d =
     (fst (deliver (ps_tls_reassembler r) d),
      r\<lparr>ps_reliable := snd (receive (ps_reliable r) (rt_next_recv_id (ps_reliable r)) d),
        ps_tls_reassembler := snd (deliver (ps_tls_reassembler r) d)\<rparr>)"
  by (simp add: process_tls_payload_def receive_expected [OF assms] deliver_def Let_def split_beta
        split: sum.split)

lemma process_control_expected:
  assumes "ph_opcode (cp_header c) = ControlV1" and "cp_message_packet_id c = Some (rt_next_recv_id (ps_reliable r))"
    and "rt_out_of_order (ps_reliable r) = []"
    and "ps_use_tls_auth r \<Longrightarrow> ph_packet_id (cp_header c) = Some pid \<and> unat (crw_highest (ps_replay_window r)) < unat pid"
  shows "\<exists>r'. process_control_packet now r c = (fst (deliver (ps_tls_reassembler r) (cp_payload c)), r') \<and>
     ps_tls_reassembler r' = snd (deliver (ps_tls_reassembler r) (cp_payload c)) \<and>
     rt_next_recv_id (ps_reliable r') = rt_next_recv_id (ps_reliable r) + 1 \<and> rt_out_of_order (ps_reliable r') = [] \<and>
     ps_use_tls_auth r' = ps_use_tls_auth r \<and> ps_tls_auth_key r' = ps_tls_auth_key r \<and>
     (ps_use_tls_auth r \<longrightarrow> crw_highest (ps_replay_window r') = pid)"
proof -
  obtain w where w: "window_after r c = (True, w)" and high: "ps_use_tls_auth r \<longrightarrow> crw_highest w = pid"
    using window_after_ahead [OF assms(4)] by blast
  let ?t = "if cp_acks c = [] then ps_reliable r else process_acks (ps_reliable r) now (cp_acks c)"
  let ?r = "r\<lparr>ps_replay_window := w, ps_reliable := ?t\<rparr>"
  have t: "rt_out_of_order ?t = []" "rt_next_recv_id ?t = rt_next_recv_id (ps_reliable r)"
    using assms(3) by auto
  have "process_control_packet now r c = process_tls_payload ?r (Some (rt_next_recv_id (ps_reliable ?r))) (cp_payload c)"
    using process_control_run [OF assms(1) w] assms(2) t(2) by simp
  also have "\<dots> = (fst (deliver (ps_tls_reassembler r) (cp_payload c)),
      ?r\<lparr>ps_reliable := snd (receive ?t (rt_next_recv_id ?t) (cp_payload c)),
        ps_tls_reassembler := snd (deliver (ps_tls_reassembler r) (cp_payload c))\<rparr>)"
    using process_tls_expected [of ?r] t(1) by simp
  finally show ?thesis
    using high t(2) receive_expected [OF t(1)] t(1) by auto
qed

text \<open>One piece from end to end.\<close>

lemma send_has_room:
  assumes "length (rt_pending t) < unat (window_size (rt_config t))" and "bt_wf (rt_pending t)"
  shows "\<exists>t'. send t now d = (Inr (rt_next_send_id t, d), t') \<and> rt_next_send_id t' = rt_next_send_id t + 1 \<and>
     rt_pending_acks t' = rt_pending_acks t \<and> rt_config t' = rt_config t \<and> bt_wf (rt_pending t') \<and>
     length (rt_pending t') \<le> Suc (length (rt_pending t))"
  using assms bt.size_put_le [OF assms(2)] by (simp add: send_def Let_def bt_wf_insert)

lemma maybe_wrap_keeps:
  "\<exists>n. snd (maybe_wrap_tls_auth hmac ts s d) = s\<lparr>ps_tls_auth_packet_id := n\<rparr> \<and>
     (ps_use_tls_auth s \<longrightarrow> n = ps_tls_auth_packet_id s \<or> n = ps_tls_auth_packet_id s + 1)"
  by (auto simp: maybe_wrap_tls_auth_def Let_def split: option.split intro: exI [of _ "ps_tls_auth_packet_id s"])

lemma maybe_wrap_counts:
  assumes "ps_use_tls_auth s" and "ps_tls_auth_key s \<noteq> None" and "9 \<le> length d"
  shows "snd (maybe_wrap_tls_auth hmac ts s d) = s\<lparr>ps_tls_auth_packet_id := ps_tls_auth_packet_id s + 1\<rparr>"
  using assms by (auto simp: maybe_wrap_tls_auth_def Let_def)

lemma create_single_link:
  assumes "hmac_law hmac" and link: "control_link s r"
    and room: "length (rt_pending (ps_reliable s)) < unat (window_size (rt_config (ps_reliable s)))"
    and ids: "ps_use_tls_auth s \<Longrightarrow> unat (ps_tls_auth_packet_id s) + 1 < 2 ^ 32"
  shows "\<exists>w s' r'. create_single_control_packet hmac now ts s d = (Inr w, s') \<and>
     process_packet L hmac now' r w = (fst (deliver (ps_tls_reassembler r) d), r') \<and>
     ps_tls_reassembler r' = snd (deliver (ps_tls_reassembler r) d) \<and> control_link s' r' \<and>
     length (rt_pending (ps_reliable s')) \<le> Suc (length (rt_pending (ps_reliable s))) \<and>
     rt_config (ps_reliable s') = rt_config (ps_reliable s) \<and> ps_use_tls_auth s' = ps_use_tls_auth s \<and>
     (ps_use_tls_auth s \<longrightarrow> unat (ps_tls_auth_packet_id s') = Suc (unat (ps_tls_auth_packet_id s)))"
proof -
  let ?acks = "rt_pending_acks (ps_reliable s)" and ?n = "rt_next_send_id (ps_reliable s)"
  obtain t where t: "send (ps_reliable s) now d = (Inr (?n, d), t)" "rt_next_send_id t = ?n + 1"
      "rt_pending_acks t = ?acks" "rt_config t = rt_config (ps_reliable s)" "bt_wf (rt_pending t)"
      "length (rt_pending t) \<le> Suc (length (rt_pending (ps_reliable s)))"
    using send_has_room [OF room] link by (auto simp: control_link_def)
  let ?s = "s\<lparr>ps_reliable := t\<lparr>rt_pending_acks := []\<rparr>\<rparr>"
  define c where "c = norm_control \<lparr>cp_header = control_header ControlV1 (ps_current_key_id s) (ps_local_session_id s),
      cp_remote_session_id = ps_remote_session_id s, cp_acks = ?acks, cp_message_packet_id = Some ?n, cp_payload = d\<rparr>"
  let ?b = "Packet_serialize (Control c)"
  have ok: "control_ok False c"
    using link by (auto simp: c_def control_link_def control_ok_def norm_control_def control_header_def header_ok_def)
  have c: "ph_opcode (cp_header c) = ControlV1" "cp_message_packet_id c = Some ?n" "cp_payload c = d"
    by (simp_all add: c_def norm_control_def control_header_def)
  obtain w s' where wrap: "maybe_wrap_tls_auth hmac ts ?s ?b = (w, s')" by fastforce
  have sent: "create_single_control_packet hmac now ts s d = (Inr w, s')"
    using wrap t(1,3)
    by (simp add: create_single_control_packet_def get_acks_def c_def serialize_norm Let_def del: Packet_serialize.simps)
  have auth: "auth_link ?s r" using link by (simp add: control_link_def auth_link_def)
  obtain mac where run: "process_packet L hmac now' r w = process_control_packet now' (r\<lparr>ps_last_activity := now'\<rparr>)
      (if ps_use_tls_auth s then with_auth mac (ps_tls_auth_packet_id s) ts c else c)"
    using link_process [OF assms(1) auth ok wrap, of L now'] by (auto cong: if_cong)
  let ?d = "if ps_use_tls_auth s then with_auth mac (ps_tls_auth_packet_id s) ts c else c"
  have d: "ph_opcode (cp_header ?d) = ControlV1" "cp_message_packet_id ?d = Some ?n" "cp_payload ?d = d"
    using c by (simp_all add: with_auth_def)
  obtain r' where r': "process_packet L hmac now' r w = (fst (deliver (ps_tls_reassembler r) d), r')"
    "ps_tls_reassembler r' = snd (deliver (ps_tls_reassembler r) d)"
    "rt_next_recv_id (ps_reliable r') = ?n + 1" "rt_out_of_order (ps_reliable r') = []"
    "ps_use_tls_auth r' = ps_use_tls_auth r" "ps_tls_auth_key r' = ps_tls_auth_key r"
    "ps_use_tls_auth r \<longrightarrow> crw_highest (ps_replay_window r') = ps_tls_auth_packet_id s"
    using process_control_expected [of ?d "r\<lparr>ps_last_activity := now'\<rparr>" "ps_tls_auth_packet_id s" now'] link d
    by (auto simp: run control_link_def auth_link_def with_auth_def)
  have s': "\<exists>n. s' = ?s\<lparr>ps_tls_auth_packet_id := n\<rparr> \<and> (ps_use_tls_auth s \<longrightarrow> n = ps_tls_auth_packet_id s + 1)"
  proof (cases "ps_use_tls_auth s")
    case True
    with link have "ps_tls_auth_key ?s \<noteq> None" by (auto simp: control_link_def auth_link_def)
    from maybe_wrap_counts [OF _ this serialize_with_auth(2) [OF ok], of hmac ts] True wrap show ?thesis by simp
  next
    case False
    with maybe_wrap_keeps [of hmac ts ?s ?b] wrap show ?thesis by auto
  qed
  then obtain n where n: "s' = ?s\<lparr>ps_tls_auth_packet_id := n\<rparr>" "ps_use_tls_auth s \<longrightarrow> n = ps_tls_auth_packet_id s + 1"
    by blast
  have suc: "ps_use_tls_auth s \<longrightarrow> unat n = Suc (unat (ps_tls_auth_packet_id s))"
    using n(2) ids by (auto simp: unat_add_one)
  have "control_link s' r'"
    using link t r' suc unfolding control_link_def auth_link_def n(1) by auto
  then show ?thesis
    using sent r'(1,2) t(4,6) n(1) suc by auto
qed

text \<open>The records that a run of the receiver hands out.\<close>

definition records_out :: "(ProtocolError, ProcessedPacket) res list \<Rightarrow> bytes list" where
  "records_out out = concat (map (\<lambda>r. case r of Inr (TlsData records) \<Rightarrow> records | _ \<Rightarrow> []) out)"

lemma feed_deliver:
  assumes "fst (feed ra (c # cs)) = Inr rs"
  shows "\<exists>p rs'. fst (deliver ra c) = Inr p \<and> fst (feed (snd (deliver ra c)) cs) = Inr rs' \<and>
     rs = records_out [fst (deliver ra c)] @ rs' \<and> snd (feed ra (c # cs)) = snd (feed (snd (deliver ra c)) cs)"
  using assms
  by (auto simp: deliver_def records_out_def split_beta Let_def res_simps split: sum.splits if_splits)

lemma stream_link:
  assumes "hmac_law hmac"
  shows "control_link s r \<Longrightarrow>
     length (rt_pending (ps_reliable s)) + length cs \<le> unat (window_size (rt_config (ps_reliable s))) \<Longrightarrow>
     (ps_use_tls_auth s \<Longrightarrow> unat (ps_tls_auth_packet_id s) + length cs < 2 ^ 32) \<Longrightarrow>
     fst (feed (ps_tls_reassembler r) cs) = Inr rs \<Longrightarrow> length nows = length cs \<Longrightarrow>
     \<exists>ws s' out r'. send_chunks hmac clk k s cs = (Inr ws, s') \<and> length ws = length cs \<and>
       process_run L hmac r (zip nows ws) = (out, r') \<and> list_all is_ok out \<and> records_out out = rs \<and>
       ps_tls_reassembler r' = snd (feed (ps_tls_reassembler r) cs) \<and> control_link s' r'"
proof (induction cs arbitrary: s r rs nows k)
  case Nil
  then show ?case by (simp add: records_out_def)
next
  case (Cons c cs)
  obtain now nows' where nows: "nows = now # nows'" "length nows' = length cs"
    using Cons.prems(5) by (cases nows) auto
  have room: "length (rt_pending (ps_reliable s)) < unat (window_size (rt_config (ps_reliable s)))"
    and ids: "ps_use_tls_auth s \<Longrightarrow> unat (ps_tls_auth_packet_id s) + 1 < 2 ^ 32"
    using Cons.prems(2,3) by auto
  obtain w s1 r1 where one: "create_single_control_packet hmac (fst (clk k)) (snd (clk k)) s c = (Inr w, s1)"
    "process_packet L hmac now r w = (fst (deliver (ps_tls_reassembler r) c), r1)"
    "ps_tls_reassembler r1 = snd (deliver (ps_tls_reassembler r) c)" "control_link s1 r1"
    "length (rt_pending (ps_reliable s1)) \<le> Suc (length (rt_pending (ps_reliable s)))"
    "rt_config (ps_reliable s1) = rt_config (ps_reliable s)" "ps_use_tls_auth s1 = ps_use_tls_auth s"
    "ps_use_tls_auth s \<longrightarrow> unat (ps_tls_auth_packet_id s1) = Suc (unat (ps_tls_auth_packet_id s))"
    using create_single_link [OF assms Cons.prems(1) room ids, of "fst (clk k)" "snd (clk k)" c L now] by blast
  obtain p rs' where fd: "fst (deliver (ps_tls_reassembler r) c) = Inr p"
    "fst (feed (ps_tls_reassembler r1) cs) = Inr rs'" "rs = records_out [Inr p] @ rs'"
    "snd (feed (ps_tls_reassembler r) (c # cs)) = snd (feed (ps_tls_reassembler r1) cs)"
    using feed_deliver [OF Cons.prems(4)] one(3) by auto
  have room1: "length (rt_pending (ps_reliable s1)) + length cs \<le> unat (window_size (rt_config (ps_reliable s1)))"
    using one(5,6) Cons.prems(2) by simp
  have ids1: "unat (ps_tls_auth_packet_id s1) + length cs < 2 ^ 32" if "ps_use_tls_auth s1"
    using that one(7,8) Cons.prems(3) by simp
  obtain ws s' out r' where "send_chunks hmac clk (Suc k) s1 cs = (Inr ws, s')" "length ws = length cs"
    "process_run L hmac r1 (zip nows' ws) = (out, r')" "list_all is_ok out" "records_out out = rs'"
    "ps_tls_reassembler r' = snd (feed (ps_tls_reassembler r1) cs)" "control_link s' r'"
    using Cons.IH [OF one(4) room1 ids1 fd(2) nows(2), of "Suc k"] by blast
  with one(1,2) fd nows(1) show ?case
    by (auto simp: records_out_def)
qed

lemma maybe_wrap_reliable: "ps_reliable (snd (maybe_wrap_tls_auth hmac ts s d)) = ps_reliable s"
  by (auto simp: maybe_wrap_tls_auth_def Let_def split: option.split)

text \<open>With every pending id below the next one, each packet takes a place in the window.\<close>

definition window_ids_ok :: "ReliableTransport \<Rightarrow> bool" where
  "window_ids_ok t \<longleftrightarrow> bt_wf (rt_pending t) \<and> (\<forall>k\<in>fst ` set (rt_pending t). k < rt_next_send_id t)"

lemma send_counts:
  assumes "window_ids_ok t" and "unat (rt_next_send_id t) + 1 < 2 ^ 32"
    and "length (rt_pending t) < unat (window_size (rt_config t))"
  shows "\<exists>t'. send t now d = (Inr (rt_next_send_id t, d), t') \<and> length (rt_pending t') = Suc (length (rt_pending t)) \<and>
     window_ids_ok t' \<and> unat (rt_next_send_id t') = Suc (unat (rt_next_send_id t)) \<and> rt_config t' = rt_config t"
proof -
  let ?n = "rt_next_send_id t"
  have suc: "unat (?n + 1) = Suc (unat ?n)" using assms(2) by (simp add: unat_add_one)
  have "?n \<notin> fst ` set (rt_pending t)" using assms(1) by (auto simp: window_ids_ok_def)
  then have fresh: "map_of (rt_pending t) ?n = None" by (simp add: map_of_eq_None_iff)
  have wf: "bt_wf (rt_pending t)" using assms(1) by (simp add: window_ids_ok_def)
  have "\<forall>k\<in>insert ?n (fst ` set (rt_pending t)). k < ?n + 1"
    using assms(1) suc by (auto simp: window_ids_ok_def word_less_nat_alt)
  then have "\<forall>k\<in>fst ` set (bt_insert ?n v (rt_pending t)). k < ?n + 1" for v
    using keys_bt_insert [of ?n v "rt_pending t"] by simp
  then show ?thesis
    using assms(3) suc bt.size_put_fresh [OF wf fresh]
    by (simp add: send_def Let_def window_ids_ok_def bt_wf_insert wf)
qed

lemma send_chunks_full:
  "window_ids_ok (ps_reliable s) \<Longrightarrow>
   length (rt_pending (ps_reliable s)) \<le> unat (window_size (rt_config (ps_reliable s))) \<Longrightarrow>
   unat (rt_next_send_id (ps_reliable s)) + length cs < 2 ^ 32 \<Longrightarrow>
   unat (window_size (rt_config (ps_reliable s))) < length (rt_pending (ps_reliable s)) + length cs \<Longrightarrow>
   \<exists>s'. send_chunks hmac clk k s cs = (Inl (Err (InvalidPacket ''send window full'')), s') \<and>
     length (rt_pending (ps_reliable s')) = unat (window_size (rt_config (ps_reliable s))) \<and>
     rt_config (ps_reliable s') = rt_config (ps_reliable s)"
proof (induction cs arbitrary: s k)
  case (Cons c cs)
  let ?t = "ps_reliable s" and ?W = "unat (window_size (rt_config (ps_reliable s)))"
  show ?case
  proof (cases "length (rt_pending ?t) < ?W")
    case False
    with Cons.prems(2) show ?thesis by (auto simp: create_single_control_packet_def send_def)
  next
    case True
    have small: "unat (rt_next_send_id ?t) + 1 < 2 ^ 32" using Cons.prems(3) by simp
    from send_counts [OF Cons.prems(1) small True, of "fst (clk k)" c] obtain t' where
      t': "send ?t (fst (clk k)) c = (Inr (rt_next_send_id ?t, c), t')"
      "length (rt_pending t') = Suc (length (rt_pending ?t))" "window_ids_ok t'"
      "unat (rt_next_send_id t') = Suc (unat (rt_next_send_id ?t))" "rt_config t' = rt_config ?t"
      by blast
    obtain w s1 where one: "create_single_control_packet hmac (fst (clk k)) (snd (clk k)) s c = (Inr w, s1)"
      "ps_reliable s1 = t'\<lparr>rt_pending_acks := []\<rparr>"
      by (simp add: create_single_control_packet_def t'(1) get_acks_def split_beta Let_def maybe_wrap_reliable
            del: Packet_serialize.simps)
    have "window_ids_ok (ps_reliable s1)" using t'(3) one(2) by (simp add: window_ids_ok_def)
    from Cons.IH [OF this, of "Suc k"] t' one(2) True Cons.prems(3,4) show ?thesis
      by (auto simp: one(1))
  qed
qed simp

text \<open>Every datagram that \<open>get_retransmits\<close> makes has the opcode \<open>ControlV1\<close> in its first byte.\<close>

lemma wrap_first_byte: "9 \<le> length d \<Longrightarrow> fst (maybe_wrap_tls_auth hmac ts s d) ! 0 = d ! 0"
  by (auto simp: maybe_wrap_tls_auth_def Let_def nth_append split: option.split)

lemma rebuild_opcode:
  "length (ps_local_session_id s) = 8 \<Longrightarrow> key_ok (ps_current_key_id s) \<Longrightarrow>
     w \<in> set (fst (rebuild_packets hmac ts k s ps)) \<Longrightarrow> OpCode_from_byte (w ! 0) = Inr ControlV1"
proof (induction ps arbitrary: s k)
  case (Cons p ps)
  obtain packet_id data where p: "p = (packet_id, data)" by (cases p)
  let ?c = "\<lparr>cp_header = control_header ControlV1 (ps_current_key_id s) (ps_local_session_id s),
      cp_remote_session_id = ps_remote_session_id s, cp_acks = [], cp_message_packet_id = Some packet_id,
      cp_payload = data\<rparr>"
  let ?d = "Packet_serialize (Control ?c)"
  have b: "9 \<le> length ?d" "?d ! 0 = OpCode_to_byte ControlV1 (ps_current_key_id s)"
    using Cons.prems(1) by (simp_all add: control_header_def PacketHeader_serialize_def opt_bytes_def)
  obtain n where n: "snd (maybe_wrap_tls_auth hmac (ts k) s ?d) = s\<lparr>ps_tls_auth_packet_id := n\<rparr>"
    using maybe_wrap_keeps by blast
  from Cons.prems(3) consider "w = fst (maybe_wrap_tls_auth hmac (ts k) s ?d)"
    | "w \<in> set (fst (rebuild_packets hmac ts (Suc k) (s\<lparr>ps_tls_auth_packet_id := n\<rparr>) ps))"
    using n by (auto simp: p Let_def split_beta simp del: Packet_serialize.simps)
  then show ?case
  proof cases
    case 1
    with Cons.prems(2) b show ?thesis
      by (simp add: wrap_first_byte OpCode_from_to_byte del: Packet_serialize.simps)
  next
    case 2
    from Cons.IH [OF _ _ this] Cons.prems(1,2) show ?thesis
      by simp
  qed
qed simp

section \<open>IP packets over the data channel\<close>

text \<open>
  The receiver tries the tag at the end before the tag in front. For the message this must not
  succeed with another plaintext: the bytes sent, read with the tag at the other end, are not a
  forgery.
\<close>

definition swap_safe :: "aead \<Rightarrow> CipherSuite \<Rightarrow> bytes \<Rightarrow> bytes \<Rightarrow> bool" where
  "swap_safe L suite key m \<longleftrightarrow>
     (\<forall>nonce ad ct. aead_encrypt L suite key nonce ad m = Some ct \<longrightarrow>
        aead_decrypt L suite key nonce ad (drop (length ct - 16) ct @ take (length ct - 16) ct) \<in> {None, Some m})"

text \<open>The receiver's cipher follows the sender's: same key and nonces, and a window that is not ahead.\<close>

definition cipher_link :: "PacketCipher \<Rightarrow> PacketCipher \<Rightarrow> bool" where
  "cipher_link c d \<longleftrightarrow> pc_cipher d = pc_cipher c \<and> pc_implicit_iv d = pc_implicit_iv c \<and>
     unat (rw_highest (pc_rx_window d)) \<le> unat (pc_tx_counter c)"

lemma cipher_link_step:
  assumes "aead_laws L" and "cipher_link c d" and "PacketCipher_encrypt L c m ad = (Inr pkt, c')"
    and "swap_safe L (cipher_suite (pc_cipher c)) (cipher_key (pc_cipher c)) m"
  shows "fst (PacketCipher_decrypt L d pkt ad) = Inr m \<and> cipher_link c' (snd (PacketCipher_decrypt L d pkt ad))"
proof -
  from encrypt_Inr [OF assms(3)] obtain n ct where n: "unat n = unat (pc_tx_counter c) + 1" "pc_tx_counter c' = n"
    and ct: "aead_encrypt L (cipher_suite (pc_cipher c)) (cipher_key (pc_cipher c))
           (build_nonce c (u32_to_be_bytes n)) (ad @ u32_to_be_bytes n) m = Some ct" "16 \<le> length ct"
    and pkt: "pkt = u32_to_be_bytes n @ drop (length ct - 16) ct @ take (length ct - 16) ct"
    unfolding TAG_SIZE_def by metis
  have same: "pc_cipher d = pc_cipher c" "pc_implicit_iv d = pc_implicit_iv c"
    using assms(2) by (simp_all add: cipher_link_def)
  have nonce: "build_nonce d p = build_nonce c p" for p by (rule build_nonce_cong) (rule same)
  have "unat (packet_counter pkt) = unat n" using unat_packet_counter [of pkt] by (simp add: pkt)
  with n(1) assms(2) have ahead: "unat (rw_highest (pc_rx_window d)) < unat (packet_counter pkt)"
    by (simp add: cipher_link_def)
  obtain w where w: "ReplayWindow_check_and_update (pc_rx_window d) (packet_counter pkt) = (True, w)"
      "unat (rw_highest w) = unat n"
    using check_and_update_ahead [OF ahead] \<open>unat (packet_counter pkt) = unat n\<close> by fastforce
  have "fst (PacketCipher_decrypt L d pkt ad) = Inr m"
    by (rule PacketCipher_decrypt_encrypt [OF assms(1,3) same])
       (use w(1) ct assms(4) in \<open>auto simp: pkt nonce same swap_safe_def\<close>)
  moreover have "20 \<le> length pkt" using ct(2) by (simp add: pkt)
  ultimately show ?thesis
    using decrypt_window [of L d pkt ad] decrypt_keeps [of L d pkt ad] encrypt_keeps [OF assms(3)] same n(2) w
    by (simp add: cipher_link_def)
qed

text \<open>The same for sessions: both hold a channel of the sender's current key.\<close>

definition data_link :: "ProtocolSession \<Rightarrow> ProtocolSession \<Rightarrow> bool" where
  "data_link s r \<longleftrightarrow> key_ok (ps_current_key_id s) \<and> length (ps_data_channels s) = 8 \<and> length (ps_data_channels r) = 8 \<and>
     (\<exists>a b. ps_data_channels s ! unat (key_u8 (ps_current_key_id s)) = Some a \<and>
        ps_data_channels r ! unat (key_u8 (ps_current_key_id s)) = Some b \<and> channel_ok a \<and>
        dc_key_id a = ps_current_key_id s \<and> dc_key_id b = ps_current_key_id s \<and>
        cipher_link (dc_encrypt_cipher a) (dc_decrypt_cipher b))"

lemma data_link_installed:
  assumes "session_inv s" and "session_inv r" and "ps_current_key_id r = ps_current_key_id s"
    and "ps_cipher_suite r = ps_cipher_suite s"
    and "install_keys s m srv = Inr s'" and "install_keys r m (\<not> srv) = Inr r'"
  shows "data_link s' r'"
proof -
  have k: "key_ok (ps_current_key_id s)" and len: "length (ps_data_channels s) = 8" "length (ps_data_channels r) = 8"
    using assms(1,2) by (simp_all add: session_inv_def channels_ok_def)
  note lt = key_ok_less [OF k]
  have ch: "channel_ok (DataChannel_new (ps_current_key_id s) ek dk (ps_peer_id s \<noteq> None) (ps_peer_id s))" for ek dk
    by (rule channel_ok_new) (auto simp: k)
  have new: "dc_key_id (DataChannel_new k ek dk v p) = k" "dc_encrypt_cipher (DataChannel_new k ek dk v p) = PacketCipher_new ek"
     "dc_decrypt_cipher (DataChannel_new k ek dk v p) = PacketCipher_new dk" for k ek dk v p
    by (simp_all add: DataChannel_new_def)
  have fresh: "cipher_link (PacketCipher_new key) (PacketCipher_new key)" for key
    by (simp add: cipher_link_def PacketCipher_new_def ReplayWindow_new_def)
  show ?thesis
    using assms(3-6) k len lt
    by (cases srv) (auto simp: install_keys_def Let_def data_link_def new fresh ch simp del: not_None_eq)
qed

text \<open>A serialised data packet is read by \<open>Packet_parse\<close> as by \<open>DataPacket_parse\<close>.\<close>

lemma Packet_parse_DataPacket:
  assumes "key_ok (dp_key_id p)" and "DataPacket_parse (DataPacket_serialize p) = Inr p'"
  shows "\<exists>d. Packet_parse (DataPacket_serialize p) tls = Inr (Data d) \<and> ph_key_id (dpd_header d) = dp_key_id p' \<and>
     dpd_peer_id d = dp_peer_id p' \<and> dpd_payload d = dp_payload p'"
    and "OpCode_from_byte (DataPacket_serialize p ! 0) = Inr (if dp_peer_id p \<noteq> None then DataV2 else DataV1)"
  using assms(1) assms(2) [unfolded DataPacket_parse_serialize [OF assms(1)]]
  by (auto simp: Packet_parse_def PacketHeader_parse_def Packet_parse_data_def
        DataPacket_serialize_def Let_def opt_bytes_def peer_id_bytes_def OpCode_from_to_byte KeyId_from_to_byte_ok
        split: option.splits)

text \<open>The cipher suite and the key that a session sends with.\<close>

definition sending_cipher :: "ProtocolSession \<Rightarrow> Cipher option" where
  "sending_cipher s =
     map_option (pc_cipher \<circ> dc_encrypt_cipher) (ps_data_channels s ! unat (key_u8 (ps_current_key_id s)))"

lemma data_link_step:
  assumes "aead_laws L" and link: "data_link s r" and enc: "encrypt_data L s ip = (Inr w, s')"
    and safe: "\<forall>c. sending_cipher s = Some c \<longrightarrow> swap_safe L (cipher_suite c) (cipher_key c) ip"
  shows "\<exists>r'. process_packet L hmac now r w = (Inr (ProcData ip), r') \<and> data_link s' r' \<and>
     sending_cipher s' = sending_cipher s"
proof -
  let ?k = "ps_current_key_id s" and ?i = "unat (key_u8 (ps_current_key_id s))"
  obtain a b where ab: "ps_data_channels s ! ?i = Some a" "ps_data_channels r ! ?i = Some b" "channel_ok a"
    "dc_key_id a = ?k" "dc_key_id b = ?k" "cipher_link (dc_encrypt_cipher a) (dc_decrypt_cipher b)"
    and k: "key_ok ?k" and len: "length (ps_data_channels s) = 8" "length (ps_data_channels r) = 8"
    using link by (auto simp: data_link_def)
  note lt = key_ok_less [OF k]
  obtain p a' where p: "DataChannel_encrypt L a ip = (Inr p, a')" "w = DataPacket_serialize p" "s' = set_channel s ?k a'"
    using enc ab(1) lt len
    by (cases "DataChannel_encrypt L a ip") (auto simp: encrypt_data_def channel_at_def res_simps)
  obtain c' where c': "PacketCipher_encrypt L (dc_encrypt_cipher a) ip (dc_encrypt_ad_prefix a) = (Inr (dp_payload p), c')"
    and a': "a' = a\<lparr>dc_encrypt_cipher := c'\<rparr>" and key: "dp_key_id p = ?k"
    using p(1) ab(4)
    by (cases "PacketCipher_encrypt L (dc_encrypt_cipher a) ip (dc_encrypt_ad_prefix a)")
       (auto simp: DataChannel_encrypt_def Let_def res_simps)
  have kp: "key_ok (dp_key_id p)" using k key by simp
  obtain p' where p': "DataPacket_parse (DataPacket_serialize p) = Inr p'" "dp_key_id p' = ?k" "dp_payload p' = dp_payload p"
    using DataPacket_parse_serialize [OF kp] key by force
  have ad: "decrypt_ad_prefix p' = dc_encrypt_ad_prefix a"
    using ad_prefix_agrees [OF ab(3) _ p'(1), of L ip] by (simp add: p(1))
  have "swap_safe L (cipher_suite (pc_cipher (dc_encrypt_cipher a))) (cipher_key (pc_cipher (dc_encrypt_cipher a))) ip"
    using safe ab(1) by (simp add: sending_cipher_def)
  note dec = cipher_link_step [OF assms(1) ab(6) c' this]
  obtain b' where b': "DataChannel_decrypt L b p' = (Inr ip, b')" "dc_key_id b' = ?k" "cipher_link c' (dc_decrypt_cipher b')"
    using dec ab(5) p'(2,3) ad by (simp add: DataChannel_decrypt_def Let_def split_beta)
  obtain d where d: "Packet_parse w tls = Inr (Data (d tls))" "ph_key_id (dpd_header (d tls)) = dp_key_id p'"
    "dpd_peer_id (d tls) = dp_peer_id p'" "dpd_payload (d tls) = dp_payload p'" for tls
    using Packet_parse_DataPacket(1) [OF kp p'(1)] p(2) by metis
  have "check_tls_auth hmac (r\<lparr>ps_last_activity := now\<rparr>) w = Inr ()"
    using Packet_parse_DataPacket(2) [OF kp p'(1)] p(2)
    by (auto simp: check_tls_auth_def DataPacket_serialize_def Let_def split: option.split)
  then have "process_packet L hmac now r w = process_data_packet L (r\<lparr>ps_last_activity := now\<rparr>) (d (ps_use_tls_auth r))"
    by (simp add: process_packet_def Let_def d(1))
  moreover have "\<lparr>dp_key_id = ?k, dp_peer_id = dp_peer_id p', dp_payload = dp_payload p'\<rparr> = p'"
    using p'(2) by (cases p') simp
  ultimately have run: "process_packet L hmac now r w = (Inr (ProcData ip), set_channel (r\<lparr>ps_last_activity := now\<rparr>) ?k b')"
    using b'(1) ab(2) lt len p'(2) by (simp add: process_data_packet_def channel_at_def d)
  have ok: "channel_ok a'" using channel_ok_encrypt [OF ab(3), of L ip] by (simp add: p(1))
  show ?thesis
    using run ok b'(2,3) k len lt ab(1,4) encrypt_keeps [OF c']
    by (simp add: p(3) data_link_def set_channel_def a' sending_cipher_def)
qed

text \<open>Encrypting one packet after the other.\<close>

fun encrypt_all :: "aead \<Rightarrow> ProtocolSession \<Rightarrow> bytes list \<Rightarrow> (ProtocolError, bytes) res list" where
  "encrypt_all L s [] = []"
| "encrypt_all L s (ip # ips) = (let (r, s') = encrypt_data L s ip in r # encrypt_all L s' ips)"

lemma data_run:
  assumes "aead_laws L"
  shows "data_link s r \<Longrightarrow> encrypt_all L s ips = map Inr ws \<Longrightarrow> length nows = length ws \<Longrightarrow>
     \<forall>ip\<in>set ips. \<forall>c. sending_cipher s = Some c \<longrightarrow> swap_safe L (cipher_suite c) (cipher_key c) ip \<Longrightarrow>
     fst (process_run L hmac r (zip nows ws)) = map (Inr \<circ> ProcData) ips"
proof (induction ips arbitrary: s r ws nows)
  case (Cons ip ips)
  obtain w s' ws' where one: "encrypt_data L s ip = (Inr w, s')" "ws = w # ws'" "encrypt_all L s' ips = map Inr ws'"
    using Cons.prems(2) by (cases "encrypt_data L s ip") (auto simp: map_eq_Cons_conv Cons_eq_map_conv)
  obtain now nows' where nows: "nows = now # nows'" "length nows' = length ws'"
    using Cons.prems(3) one(2) by (cases nows) auto
  obtain r' where r': "process_packet L hmac now r w = (Inr (ProcData ip), r')" "data_link s' r'"
    "sending_cipher s' = sending_cipher s"
    using data_link_step [OF assms Cons.prems(1) one(1), of hmac now] Cons.prems(4) by auto
  have "\<forall>ip\<in>set ips. \<forall>c. sending_cipher s' = Some c \<longrightarrow> swap_safe L (cipher_suite c) (cipher_key c) ip"
    using Cons.prems(4) r'(3) by simp
  from Cons.IH [OF r'(2) one(3) nows(2) this] show ?case
    by (simp add: one(2) nows(1) r'(1) split_beta)
qed simp

section \<open>Properties\<close>

text \<open>
  C17. The control channel carries a TLS byte stream. Let the receiver be ready for the sender,
  with or without tls-auth. A message of up to \<open>1100 * (window - pending)\<close> bytes is cut into
  datagrams without error; the receiver, at whatever times it processes them, refuses none and
  hands out exactly the complete TLS records of its earlier rest followed by the message, keeping
  the incomplete rest; and it is ready for the next message. The records need only leave 1100
  bytes of the reassembly buffer free.
\<close>

theorem control_stream_delivered:
  assumes "hmac_law hmac" and "control_link s r" and "\<not> has_record (tr_buffer (ps_tls_reassembler r))"
    and "length (rt_pending (ps_reliable s)) < unat (window_size (rt_config (ps_reliable s)))"
    and "length d \<le> (unat (window_size (rt_config (ps_reliable s))) - length (rt_pending (ps_reliable s))) * 1100"
    and "unat (ps_tls_auth_packet_id s) + unat (window_size (rt_config (ps_reliable s))) < 2 ^ 32"
    and "extract_loop (tr_buffer (ps_tls_reassembler r) @ d) = (rs, rest)"
    and "\<forall>x\<in>insert rest (set rs). length x + 1100 \<le> tr_max_size (ps_tls_reassembler r)"
  shows "\<exists>ws s'. create_control_packets hmac clk s d = (Inr ws, s') \<and>
     (\<forall>nows. length nows = length ws \<longrightarrow>
        (\<exists>out r'. process_run L hmac r (zip nows ws) = (out, r') \<and> list_all is_ok out \<and> records_out out = rs \<and>
           tr_buffer (ps_tls_reassembler r') = rest \<and> control_link s' r'))"
proof -
  let ?W = "unat (window_size (rt_config (ps_reliable s)))" and ?p = "length (rt_pending (ps_reliable s))"
  let ?M = "tr_max_size (ps_tls_reassembler r) - 1100"
  have n: "length (pieces d) \<le> ?W - ?p"
    using assms(4,5) by (subst length_pieces) (simp_all add: MAX_CONTROL_PAYLOAD_def)
  have cut: "extract_loop (tr_buffer (ps_tls_reassembler r) @ concat (pieces d)) = (rs, rest)"
    by (simp add: concat_pieces assms(7))
  have M: "\<forall>x\<in>set rs. length x \<le> ?M" "length rest \<le> ?M" "1100 \<le> tr_max_size (ps_tls_reassembler r)"
    using assms(8) by auto
  have "\<forall>c\<in>set (pieces d). length c + ?M \<le> tr_max_size (ps_tls_reassembler r)"
    using M(3) piece_length [of _ d] by (force simp: MAX_CONTROL_PAYLOAD_def)
  from feed_succeeds [OF assms(3) cut M(1,2) this] obtain rs' where rs': "fst (feed (ps_tls_reassembler r) (pieces d)) = Inr rs'"
    by blast
  have same: "rs' = rs" "tr_buffer (snd (feed (ps_tls_reassembler r) (pieces d))) = rest"
    using feed_extract [OF assms(3) rs'] cut by auto
  have room: "?p + length (pieces d) \<le> ?W" and ids: "unat (ps_tls_auth_packet_id s) + length (pieces d) < 2 ^ 32"
    using n assms(4,6) by auto
  have *: "\<exists>ws s' out r'. send_chunks hmac clk 0 s (pieces d) = (Inr ws, s') \<and> length ws = length (pieces d) \<and>
      process_run L hmac r (zip nows ws) = (out, r') \<and> list_all is_ok out \<and> records_out out = rs \<and>
      tr_buffer (ps_tls_reassembler r') = rest \<and> control_link s' r'"
    if "length nows = length (pieces d)" for nows :: "instant list"
    using stream_link [OF assms(1,2) room ids rs' that, of clk 0 L] same by fastforce
  from * [of "replicate (length (pieces d)) 0"] obtain ws s' where
    ws: "send_chunks hmac clk 0 s (pieces d) = (Inr ws, s')" "length ws = length (pieces d)"
    by auto
  with * show ?thesis
    by (fastforce simp: create_control_packets_pieces)
qed


definition sample_ends :: "ProtocolSession \<times> ProtocolSession" where
  "sample_ends =
     (set_tls_auth (new_server [1, 2, 3, 4, 5, 6, 7, 8] 0 ChaCha20Poly1305) (from_single_key (replicate 32 1)),
      set_tls_auth (new_client [8, 7, 6, 5, 4, 3, 2, 1] 0 ChaCha20Poly1305) (from_single_key (replicate 32 1)))"

lemma sample_ends_ready:
  "control_link (fst sample_ends) (snd sample_ends)"
  "tr_buffer (ps_tls_reassembler (snd sample_ends)) = []" "tr_max_size (ps_tls_reassembler (snd sample_ends)) = 65536"
  "rt_pending (ps_reliable (fst sample_ends)) = []" "window_size (rt_config (ps_reliable (fst sample_ends))) = 8"
  "ps_tls_auth_packet_id (fst sample_ends) = 1" "rt_next_send_id (ps_reliable (fst sample_ends)) = 0"
  by (simp_all add: sample_ends_def control_link_def auth_link_def set_tls_auth_def new_server_def new_client_def
        ReliableTransport_new_def ReliableConfig_default_def bt_wf_def TlsRecordReassembler_new_def
        from_single_key_def ControlReplayWindow_new_def)

theorem control_stream_delivered_witness:
  "\<exists>ws s'. create_control_packets null_mac (\<lambda>k. (k, 7)) (fst sample_ends) [22, 3, 3, 0, 2, 9, 8, 23] = (Inr ws, s') \<and>
     (\<forall>nows. length nows = length ws \<longrightarrow>
        (\<exists>out r'. process_run null_aead null_mac (snd sample_ends) (zip nows ws) = (out, r') \<and> list_all is_ok out \<and>
           records_out out = [[22, 3, 3, 0, 2, 9, 8]] \<and> tr_buffer (ps_tls_reassembler r') = [23] \<and> control_link s' r'))"
proof -
  have "extract_loop [22, 3, 3, 0, 2, 9, 8, 23] = ([[22, 3, 3, 0, 2, 9, 8]], [23])" by code_simp
  with sample_ends_ready show ?thesis
    by (intro control_stream_delivered [OF null_mac_law]) (simp_all add: has_record_def)
qed

text \<open>
  A message longer than the free window holds, 8800 bytes on an idle connection, is never
  sent: the call fails, the datagrams made so far are dropped, and the window is left full with
  the beginning of the message, so that nothing else can be sent either.
\<close>

theorem message_beyond_window_refused:
  assumes "window_ids_ok (ps_reliable s)"
    and "length (rt_pending (ps_reliable s)) \<le> unat (window_size (rt_config (ps_reliable s)))"
    and "(unat (window_size (rt_config (ps_reliable s))) - length (rt_pending (ps_reliable s))) * 1100 < length d"
    and "unat (rt_next_send_id (ps_reliable s)) + length d + 1 < 2 ^ 32"
  shows "\<exists>s'. create_control_packets hmac clk s d = (Inl (Err (InvalidPacket ''send window full'')), s') \<and>
     length (rt_pending (ps_reliable s')) = unat (window_size (rt_config (ps_reliable s))) \<and>
     fst (create_control_packets hmac clk' s' d') = Inl (Err (InvalidPacket ''send window full''))"
proof -
  let ?W = "unat (window_size (rt_config (ps_reliable s)))" and ?p = "length (rt_pending (ps_reliable s))"
  have "\<not> length (pieces d) \<le> ?W - ?p"
    using assms(3) by (cases "?W - ?p = 0") (simp_all add: pieces_nonempty length_pieces MAX_CONTROL_PAYLOAD_def)
  then have more: "?W < ?p + length (pieces d)" using assms(2) by arith
  have "length (pieces d) \<le> Suc (length d)"
    using length_pieces [of "Suc (length d)" d] by (simp add: MAX_CONTROL_PAYLOAD_def)
  then have few: "unat (rt_next_send_id (ps_reliable s)) + length (pieces d) < 2 ^ 32" using assms(4) by arith
  obtain s' where s': "send_chunks hmac clk 0 s (pieces d) = (Inl (Err (InvalidPacket ''send window full'')), s')"
      "length (rt_pending (ps_reliable s')) = ?W" "rt_config (ps_reliable s') = rt_config (ps_reliable s)"
    using send_chunks_full [OF assms(1,2) few more, of hmac clk 0] by blast
  obtain c cs where "pieces d' = c # cs" using pieces_nonempty [of d'] by (cases "pieces d'") auto
  with s' show ?thesis
    by (simp add: create_control_packets_pieces create_single_control_packet_def send_def)
qed

theorem message_beyond_window_refused_witness:
  "\<exists>s'. create_control_packets null_mac (\<lambda>k. (k, 7)) (fst sample_ends) (replicate 8801 0)
       = (Inl (Err (InvalidPacket ''send window full'')), s') \<and> length (rt_pending (ps_reliable s')) = 8 \<and>
     fst (create_control_packets null_mac (\<lambda>k. (k, 7)) s' [1]) = Inl (Err (InvalidPacket ''send window full''))"
  using message_beyond_window_refused [of "fst sample_ends" "replicate 8801 0" null_mac "\<lambda>k. (k, 7)" "\<lambda>k. (k, 7)" "[1]"]
    sample_ends_ready
  by (simp add: window_ids_ok_def bt_wf_def)


lemma swap_safe_null: "swap_safe null_aead suite key [69, 0]"
proof -
  have "\<not> replicate 14 h @ [69, 0] = replicate 16 (h :: u8)" for h
  proof
    assume eq: "replicate 14 h @ [69, 0] = replicate 16 h"
    show False
      using arg_cong [OF eq, of "\<lambda>xs. xs ! 14"] arg_cong [OF eq, of "\<lambda>xs. xs ! 15"] by (simp add: nth_append)
  qed
  then show ?thesis
    by (simp add: swap_safe_def null_aead_def null_tag_def)
qed

definition sample_material :: KeyMaterial where
  "sample_material =
     \<lparr>client_write_key = replicate 32 1, server_write_key = replicate 32 2, client_hmac_key = replicate 32 3,
      server_hmac_key = replicate 32 4, client_implicit_iv = replicate 12 5, server_implicit_iv = replicate 12 6\<rparr>"


text \<open>
  Retransmission does not repeat what was lost: every datagram sent again carries the opcode
  \<open>ControlV1\<close>, also when the pending packet was a hard reset, so a peer that missed the reset never
  receives one again.
\<close>

theorem retransmits_are_control_v1:
  assumes "length (ps_local_session_id s) = 8" and "key_ok (ps_current_key_id s)"
    and "session_get_retransmits hmac now ts s = Inr (ws, s')" and "w \<in> set ws"
  shows "OpCode_from_byte (w ! 0) = Inr ControlV1"
proof -
  obtain t out where "ws = fst (rebuild_packets hmac ts 0 (s\<lparr>ps_reliable := t\<rparr>) out)"
    using assms(3) by (auto simp: session_get_retransmits_def res_simps prod_eq_iff)
  with assms(1,2,4) rebuild_opcode [of "s\<lparr>ps_reliable := t\<rparr>" w hmac ts 0 out] show ?thesis
    by simp
qed

theorem retransmits_are_control_v1_witness:
  "\<exists>w s'. session_get_retransmits null_mac (from_secs 3) (\<lambda>k. 7) (snd (create_hard_reset_client null_mac 0 7 (fst sample_ends)))
       = Inr ([w], s') \<and> OpCode_from_byte (w ! 0) = Inr ControlV1"
proof -
  define s where "s = snd (create_hard_reset_client null_mac 0 7 (fst sample_ends))"
  have s: "length (ps_local_session_id s) = 8" "key_ok (ps_current_key_id s)"
    "rt_pending (ps_reliable s) = [(0, \<lparr>pp_data = [], pp_sent_at = 0, pp_next_retransmit = from_secs 2,
       pp_rto = from_secs 2, pp_retransmits = 0\<rparr>)]" "rt_config (ps_reliable s) = ReliableConfig_default"
    using maybe_wrap_keeps
    by (simp_all add: s_def create_hard_reset_client_def sample_ends_def set_tls_auth_def new_server_def send_def
          ReliableTransport_new_def ReliableConfig_default_def maybe_wrap_tls_auth_def calculate_rto_def
          Let_def split_beta KeyId_default_def key_ok_def)
  have due: "from_secs 2 \<le> from_secs 3" by (simp add: from_secs_def)
  have pos: "\<not> min (rat_of_nat (from_secs 2) * 2) (rat_of_nat (from_secs 60)) < 0" by (simp add: min_def)
  obtain q where "retransmit_loop ReliableConfig_default (from_secs 3) (rt_pending (ps_reliable s)) = Inr ([(0, [])], q)"
    by (simp add: s(3) ReliableConfig_default_def due pos Let_def del: min_less_iff_disj)
  then obtain w s' where run: "session_get_retransmits null_mac (from_secs 3) (\<lambda>k. 7) s = Inr ([w], s')"
    by (simp add: session_get_retransmits_def get_retransmits_def s(4) Let_def split_beta del: Packet_serialize.simps)
  with retransmits_are_control_v1 [OF s(1,2) run, of w] show ?thesis
    by (auto simp: s_def)
qed

end
