(* ===== verification/Std_Text.thy ===== *)
theory Std_Text
  imports Errors
begin

text \<open>
  The part of Rust's string library that the code uses. A \<open>str\<close> is the list of its UTF-8 bytes,
  written as a \<open>string\<close>, whose characters are bytes. Searching for an ASCII character or for the
  encoding of a white-space character byte by byte finds the same places as searching by
  character, since the bytes inside an encoding are never lead bytes.
\<close>

section \<open>Bytes and UTF-8\<close>

definition str_bytes :: "string \<Rightarrow> bytes" where
  "str_bytes s = map (\<lambda>c. of_nat (of_char c)) s"

definition bytes_str :: "bytes \<Rightarrow> string" where
  "bytes_str bs = map (\<lambda>b. char_of (unat b)) bs"

abbreviation utf8_cont :: "u8 \<Rightarrow> bool" where
  "utf8_cont b \<equiv> 0x80 \<le> b \<and> b \<le> 0xBF"

text \<open>Well-formed UTF-8: no overlong encodings, no surrogates, nothing above U+10FFFF.\<close>

function utf8_ok :: "bytes \<Rightarrow> bool" where
  "utf8_ok bs =
     (case bs of
        [] \<Rightarrow> True
      | b0 # r0 \<Rightarrow>
          if b0 < 0x80 then utf8_ok r0
          else case r0 of
            [] \<Rightarrow> False
          | b1 # r1 \<Rightarrow>
              if 0xC2 \<le> b0 \<and> b0 \<le> 0xDF then utf8_cont b1 \<and> utf8_ok r1
              else case r1 of
                [] \<Rightarrow> False
              | b2 # r2 \<Rightarrow>
                  if 0xE0 \<le> b0 \<and> b0 \<le> 0xEF then
                    (if b0 = 0xE0 then 0xA0 \<le> b1 \<and> b1 \<le> 0xBF
                     else if b0 = 0xED then 0x80 \<le> b1 \<and> b1 \<le> 0x9F
                     else utf8_cont b1) \<and> utf8_cont b2 \<and> utf8_ok r2
                  else case r2 of
                    [] \<Rightarrow> False
                  | b3 # r3 \<Rightarrow>
                      0xF0 \<le> b0 \<and> b0 \<le> 0xF4 \<and>
                      (if b0 = 0xF0 then 0x90 \<le> b1 \<and> b1 \<le> 0xBF
                       else if b0 = 0xF4 then 0x80 \<le> b1 \<and> b1 \<le> 0x8F
                       else utf8_cont b1) \<and> utf8_cont b2 \<and> utf8_cont b3 \<and> utf8_ok r3)"
  by pat_completeness auto

termination utf8_ok
  by (relation "measure length") auto

declare utf8_ok.simps [simp del]

definition from_utf8 :: "bytes \<Rightarrow> string option" where
  "from_utf8 bs = (if utf8_ok bs then Some (bytes_str bs) else None)"

section \<open>Splitting and trimming\<close>

fun split_on :: "'a \<Rightarrow> 'a list \<Rightarrow> 'a list list" where
  "split_on c [] = [[]]"
| "split_on c (x # xs) =
     (if x = c then [] # split_on c xs
      else case split_on c xs of y # ys \<Rightarrow> (x # y) # ys | [] \<Rightarrow> [[x]])"

fun join :: "'a list \<Rightarrow> 'a list list \<Rightarrow> 'a list" where
  "join sep [] = []"
| "join sep [x] = x"
| "join sep (x # y # ys) = x @ sep @ join sep (y # ys)"

text \<open>\<open>parts[i]\<close>.\<close>

definition elem_at :: "'a list \<Rightarrow> nat \<Rightarrow> ('e, 'a) res" where
  "elem_at xs i = (if i < length xs then Inr (xs ! i) else Inl Panic)"

lemma elem_at_ok [simp]: "i < length xs \<Longrightarrow> elem_at xs i = Inr (xs ! i)"
  by (simp add: elem_at_def)

definition strip_prefix :: "'a list \<Rightarrow> 'a list \<Rightarrow> 'a list option" where
  "strip_prefix p s = (if take (length p) s = p then Some (drop (length p) s) else None)"

text \<open>The number of bytes of the white-space character at the front, 0 if there is none.\<close>

abbreviation code :: "char \<Rightarrow> nat" where
  "code c \<equiv> of_char c"

fun ws_len :: "string \<Rightarrow> nat" where
  "ws_len [] = 0"
| "ws_len (a # s) =
     (if 9 \<le> code a \<and> code a \<le> 13 \<or> code a = 32 then 1
      else case s of
        [] \<Rightarrow> 0
      | b # t \<Rightarrow>
          if code a = 0xC2 \<and> (code b = 0x85 \<or> code b = 0xA0) then 2
          else case t of
            [] \<Rightarrow> 0
          | c # _ \<Rightarrow>
              if code a = 0xE1 \<and> code b = 0x9A \<and> code c = 0x80 \<or>
                 code a = 0xE2 \<and> code b = 0x80 \<and>
                   (0x80 \<le> code c \<and> code c \<le> 0x8A \<or> code c = 0xA8 \<or> code c = 0xA9 \<or> code c = 0xAF) \<or>
                 code a = 0xE2 \<and> code b = 0x81 \<and> code c = 0x9F \<or>
                 code a = 0xE3 \<and> code b = 0x80 \<and> code c = 0x80
              then 3 else 0)"

declare ws_len.simps(2) [simp del]

function trim_start :: "string \<Rightarrow> string" where
  "trim_start s = (if ws_len s = 0 then s else trim_start (drop (ws_len s) s))"
  by pat_completeness auto

termination trim_start
  by (relation "measure length") (auto intro: diff_less gr0I)

declare trim_start.simps [simp del]

fun trim_end :: "string \<Rightarrow> string" where
  "trim_end [] = []"
| "trim_end (c # s) = (if trim_start (c # s) = [] then [] else c # trim_end s)"

definition trim :: "string \<Rightarrow> string" where
  "trim s = trim_end (trim_start s)"

fun span_word :: "string \<Rightarrow> string \<times> string" where
  "span_word [] = ([], [])"
| "span_word (c # s) =
     (if ws_len (c # s) > 0 then ([], c # s) else let (w, r) = span_word s in (c # w, r))"

lemma span_word_append: "fst (span_word s) @ snd (span_word s) = s"
  by (induction s) (auto simp: split_beta)

lemma trim_start_length: "length (trim_start s) \<le> length s"
proof (induction s rule: trim_start.induct)
  case (1 s)
  then show ?case by (cases "ws_len s = 0") (auto simp: trim_start.simps [of s])
qed

lemma ws_len_trim_start: "ws_len (trim_start s) = 0"
proof (induction s rule: trim_start.induct)
  case (1 s)
  then show ?case by (cases "ws_len s = 0") (simp_all add: trim_start.simps [of s])
qed

lemma span_word_nonempty: "s \<noteq> [] \<Longrightarrow> ws_len s = 0 \<Longrightarrow> fst (span_word s) \<noteq> []"
  by (cases s) (simp_all add: split_beta)

function split_whitespace :: "string \<Rightarrow> string list" where
  "split_whitespace s =
     (let t = trim_start s in
      if t = [] then [] else let (w, r) = span_word t in w # split_whitespace r)"
  by pat_completeness auto

termination split_whitespace
proof (relation "measure length")
  fix s t p w r
  assume t: "t = trim_start s" "t \<noteq> []" and p: "p = span_word t" "(w, r) = p"
  have "fst (span_word t) \<noteq> []"
    using span_word_nonempty [OF t(2)] ws_len_trim_start [of s] t(1) by simp
  then have "w \<noteq> []" using p by (metis fst_conv)
  moreover have "length w + length r = length t"
    using span_word_append [of t] p by (metis fst_conv length_append snd_conv)
  ultimately show "(r, s) \<in> measure length"
    using trim_start_length [of s] t by (cases w) auto
qed simp

declare split_whitespace.simps [simp del]

section \<open>Numbers and addresses\<close>

definition is_digit :: "char \<Rightarrow> bool" where
  "is_digit c \<longleftrightarrow> 48 \<le> code c \<and> code c \<le> 57"

definition digits_value :: "string \<Rightarrow> nat" where
  "digits_value s = foldl (\<lambda>n c. n * 10 + (code c - 48)) 0 s"

text \<open>\<open>from_str\<close> of an unsigned integer with values below \<open>bound\<close>.\<close>

definition parse_unsigned :: "nat \<Rightarrow> string \<Rightarrow> nat option" where
  "parse_unsigned bound s =
     (let d = (case s of c # t \<Rightarrow> if c = CHR ''+'' \<and> t \<noteq> [] then t else s | [] \<Rightarrow> s) in
      if d = [] \<or> \<not> list_all is_digit d then None
      else if digits_value d < bound then Some (digits_value d) else None)"

definition parse_u32 :: "string \<Rightarrow> u32 option" where
  "parse_u32 s = map_option of_nat (parse_unsigned (2 ^ 32) s)"

text \<open>One to three digits, no leading zero, below 256.\<close>

definition parse_octet :: "string \<Rightarrow> u8 option" where
  "parse_octet s =
     (if s \<noteq> [] \<and> length s \<le> 3 \<and> list_all is_digit s \<and> \<not> (hd s = CHR ''0'' \<and> length s > 1) \<and> digits_value s < 256
      then Some (of_nat (digits_value s)) else None)"

definition parse_ipv4 :: "string \<Rightarrow> u32 option" where
  "parse_ipv4 s =
     (if length s > 15 then None
      else case split_on CHR ''.'' s of
        [a, b, c, d] \<Rightarrow>
          (case (parse_octet a, parse_octet b, parse_octet c, parse_octet d) of
             (Some a, Some b, Some c, Some d) \<Rightarrow> Some (u32_from_be_bytes [a, b, c, d])
           | _ \<Rightarrow> None)
      | _ \<Rightarrow> None)"

definition show_octet :: "u8 \<Rightarrow> string" where
  "show_octet b = string_of_nat (unat b)"

definition show_ipv4 :: "u32 \<Rightarrow> string" where
  "show_ipv4 ip = join ''.'' (map show_octet (u32_to_be_bytes ip))"

section \<open>Lemmas\<close>

lemma bytes_str_bytes [simp]: "bytes_str (str_bytes s) = s"
proof -
  have "char_of (unat (of_nat (code c) :: u8)) = c" for c
    using nat_of_char_less_256 [of c] by (simp add: unat_u8_of_nat)
  then show ?thesis by (induction s) (simp_all add: bytes_str_def str_bytes_def)
qed

lemma str_bytes_str [simp]: "str_bytes (bytes_str bs) = bs"
proof -
  have "of_nat (code (char_of (unat b))) = b" for b :: u8
    using unat_bound [of b] by simp
  then show ?thesis by (induction bs) (simp_all add: bytes_str_def str_bytes_def)
qed

lemma length_str_bytes [simp]: "length (str_bytes s) = length s"
  by (simp add: str_bytes_def)

lemma length_bytes_str [simp]: "length (bytes_str bs) = length bs"
  by (simp add: bytes_str_def)

lemma str_bytes_append [simp]: "str_bytes (s @ t) = str_bytes s @ str_bytes t"
  by (simp add: str_bytes_def)

lemma str_bytes_Nil [simp]: "str_bytes [] = []"
  by (simp add: str_bytes_def)

lemma bytes_str_append [simp]: "bytes_str (s @ t) = bytes_str s @ bytes_str t"
  by (simp add: bytes_str_def)

lemma bytes_str_nul [simp]: "bytes_str [0] = [CHR 0x00]"
  by code_simp

text \<open>ASCII is UTF-8, and UTF-8 texts may be put one after the other.\<close>

lemma utf8_ok_Nil [simp]: "utf8_ok []"
  by (simp add: utf8_ok.simps)

lemma utf8_ok_ascii [simp]: "b < 0x80 \<Longrightarrow> utf8_ok (b # bs) = utf8_ok bs"
  by (subst utf8_ok.simps) simp

lemma utf8_ok_append: "utf8_ok a \<Longrightarrow> utf8_ok b \<Longrightarrow> utf8_ok (a @ b)"
proof (induction a rule: utf8_ok.induct)
  case (1 bs)
  show ?case
  proof (cases bs)
    case Nil
    with 1 show ?thesis by simp
  next
    case (Cons b0 r0)
    with "1.prems"(1) have ok: "utf8_ok (b0 # r0)" by simp
    show ?thesis
      using ok "1.prems"(2) "1.IH"(1) [OF Cons] "1.IH"(2) [OF Cons] "1.IH"(3) [OF Cons] "1.IH"(4) [OF Cons]
      unfolding Cons utf8_ok.simps [of "b0 # r0"] utf8_ok.simps [of "(b0 # r0) @ b"]
      by (auto split: list.splits if_splits)
  qed
qed

lemma from_utf8_iff: "from_utf8 bs = Some s \<longleftrightarrow> utf8_ok bs \<and> bs = str_bytes s"
  by (auto simp: from_utf8_def)

subsection \<open>Splitting\<close>

lemma split_on_none: "c \<notin> set x \<Longrightarrow> split_on c x = [x]"
  by (induction x) auto

lemma split_on_append: "c \<notin> set x \<Longrightarrow> split_on c (x @ c # r) = x # split_on c r"
  by (induction x) auto

lemma split_on_join: "xs \<noteq> [] \<Longrightarrow> \<forall>x\<in>set xs. c \<notin> set x \<Longrightarrow> split_on c (join [c] xs) = xs"
  by (induction "[c]" xs rule: join.induct) (auto simp: split_on_none split_on_append)

lemma split_on_nonempty [simp]: "split_on c s \<noteq> []"
  by (induction s) (auto split: list.split)

lemma strip_prefix_append [simp]: "strip_prefix p (p @ s) = Some s"
  by (simp add: strip_prefix_def)

text \<open>A word: not empty and without white space.\<close>

fun no_ws :: "string \<Rightarrow> bool" where
  "no_ws [] = True"
| "no_ws (c # s) = (ws_len (c # s) = 0 \<and> no_ws s)"

lemma ws_len_space: "ws_len (CHR '' '' # s) = 1"
  by (simp add: ws_len.simps(2))

lemma ws_len_ascii:
  assumes "code a < 0x80" and "\<not> (9 \<le> code a \<and> code a \<le> 13)" and "code a \<noteq> 32"
  shows "ws_len (a # s) = 0"
  using assms by (auto simp: ws_len.simps(2) split: list.split)

lemma ws_len_append:
  assumes "ws_len w = 0" and "w \<noteq> []" and "code c < 0x80"
  shows "ws_len (w @ c # r) = 0"
proof -
  obtain a s where w: "w = a # s" using assms(2) by (cases w) auto
  show ?thesis
  proof (cases s)
    case Nil
    with assms(1,3) w show ?thesis by (auto simp: ws_len.simps(2) split: list.splits if_splits)
  next
    case (Cons b t)
    with assms(1,3) w show ?thesis by (cases t) (auto simp: ws_len.simps(2) split: if_splits)
  qed
qed

lemma trim_start_word: "ws_len s = 0 \<Longrightarrow> trim_start s = s"
  by (simp add: trim_start.simps)

lemma trim_start_space: "trim_start (CHR '' '' # s) = trim_start s"
  by (subst trim_start.simps) (simp add: ws_len_space)

lemma span_word_end: "no_ws w \<Longrightarrow> span_word w = (w, [])"
  by (induction w) auto

lemma span_word_space: "no_ws w \<Longrightarrow> span_word (w @ CHR '' '' # r) = (w, CHR '' '' # r)"
proof (induction w)
  case (Cons c w)
  then have "ws_len (c # w @ CHR '' '' # r) = 0"
    using ws_len_append [of "c # w" "CHR '' ''" r] by simp
  with Cons show ?case by simp
qed (simp add: ws_len_space)

lemma no_ws_front: "no_ws w \<Longrightarrow> ws_len w = 0"
  by (cases w) auto

lemma split_whitespace_Nil [simp]: "split_whitespace [] = []"
  by (simp add: split_whitespace.simps trim_start.simps)

lemma split_whitespace_lead: "split_whitespace (CHR '' '' # s) = split_whitespace s"
  by (subst (1 2) split_whitespace.simps) (simp add: trim_start_space)

lemma split_whitespace_word: "no_ws w \<Longrightarrow> w \<noteq> [] \<Longrightarrow> split_whitespace w = [w]"
  by (subst split_whitespace.simps) (simp add: trim_start_word no_ws_front span_word_end)

lemma split_whitespace_step:
  "no_ws w \<Longrightarrow> w \<noteq> [] \<Longrightarrow> split_whitespace (w @ CHR '' '' # r) = w # split_whitespace r"
  by (subst split_whitespace.simps)
     (simp add: trim_start_word ws_len_append no_ws_front span_word_space split_whitespace_lead)

lemma trim_end_word: "no_ws s \<Longrightarrow> trim_end s = s"
  by (induction s) (auto simp: trim_start_word)

lemma ws_len_stops: "r \<noteq> [] \<Longrightarrow> code c < 0x80 \<Longrightarrow> ws_len (r @ c # x) \<le> length r"
proof -
  assume r: "r \<noteq> []" and c: "code c < 0x80"
  obtain a s where as: "r = a # s" using r by (cases r) auto
  show ?thesis
  proof (cases s)
    case Nil
    with c as show ?thesis by (auto simp: ws_len.simps(2) split: list.split)
  next
    case (Cons b t)
    with c as show ?thesis by (cases t) (auto simp: ws_len.simps(2))
  qed
qed

lemma trim_start_stops:
  assumes "no_ws w" and "w \<noteq> []"
  shows "trim_start (r @ CHR '' '' # w) \<noteq> []"
proof (induction "length r" arbitrary: r rule: less_induct)
  case less
  show ?case
  proof (cases "r = []")
    case True
    with assms show ?thesis by (simp add: trim_start_space trim_start_word no_ws_front)
  next
    case False
    let ?n = "ws_len (r @ CHR '' '' # w)"
    show ?thesis
    proof (cases "?n = 0")
      case True
      then show ?thesis by (simp add: trim_start_word)
    next
      case pos: False
      have "?n \<le> length r" using ws_len_stops [OF False, of "CHR '' ''" w] by simp
      with pos False less [of "drop ?n r"] show ?thesis
        by (subst trim_start.simps) simp
    qed
  qed
qed

lemma trim_end_append: "no_ws w \<Longrightarrow> w \<noteq> [] \<Longrightarrow> trim_end (r @ CHR '' '' # w) = r @ CHR '' '' # w"
proof (induction r)
  case (Cons c r)
  with trim_start_stops [OF Cons.prems, of "c # r"] show ?case by simp
qed (simp add: trim_end_word trim_start_space trim_start_word no_ws_front)

text \<open>A sentence: words with single spaces between them.\<close>

definition words :: "string list \<Rightarrow> bool" where
  "words ws \<longleftrightarrow> ws \<noteq> [] \<and> (\<forall>w\<in>set ws. no_ws w \<and> w \<noteq> [])"

lemma join_snoc: "xs \<noteq> [] \<Longrightarrow> join sep (xs @ [x]) = join sep xs @ sep @ x"
  by (induction sep xs rule: join.induct) auto

lemma split_sentence: "words ws \<Longrightarrow> split_whitespace (join '' '' ws) = ws"
proof (induction "'' ''" ws rule: join.induct)
  case (3 x y ys)
  then show ?case
    using split_whitespace_step [of x "join '' '' (y # ys)"] by (simp add: words_def)
qed (simp_all add: words_def split_whitespace_word)

lemma trim_sentence:
  assumes "words ws"
  shows "trim (join '' '' ws) = join '' '' ws"
proof -
  obtain x xs where ws: "ws = x # xs" and x: "no_ws x" "x \<noteq> []"
    using assms by (cases ws) (auto simp: words_def)
  have "ws_len (join '' '' ws) = 0"
    using x by (cases xs) (auto simp: ws no_ws_front intro: ws_len_append)
  then have start: "trim_start (join '' '' ws) = join '' '' ws" by (rule trim_start_word)
  show ?thesis
  proof (cases xs rule: rev_cases)
    case Nil
    with start x show ?thesis by (simp add: trim_def ws trim_end_word)
  next
    case (snoc ys y)
    have "no_ws y" "y \<noteq> []" using assms by (simp_all add: words_def ws snoc)
    with start show ?thesis
      using join_snoc [of "x # ys" "'' ''" y] by (simp add: trim_def ws snoc trim_end_append)
  qed
qed

lemma join_nonempty: "words ws \<Longrightarrow> join sep ws \<noteq> []"
  by (induction sep ws rule: join.induct) (auto simp: words_def)

lemma set_join: "set (join sep xs) \<subseteq> set sep \<union> \<Union> (set (map set xs))"
  by (induction sep xs rule: join.induct) auto

subsection \<open>Numbers\<close>

lemma digits_value_snoc: "digits_value (s @ [c]) = digits_value s * 10 + (code c - 48)"
  by (simp add: digits_value_def)

lemma code_digit: "n < 10 \<Longrightarrow> code (char_of (48 + n :: nat)) = 48 + n"
  by simp

lemma string_of_nat_digits:
  "list_all is_digit (string_of_nat n) \<and> string_of_nat n \<noteq> [] \<and> digits_value (string_of_nat n) = n"
proof (induction n rule: string_of_nat.induct)
  case (1 n)
  show ?case
  proof (cases "n < 10")
    case True
    then show ?thesis by (simp add: string_of_nat.simps [of n] is_digit_def digits_value_def code_digit)
  next
    case False
    with 1 show ?thesis
      by (simp add: string_of_nat.simps [of n] digits_value_snoc is_digit_def code_digit)
  qed
qed

lemma is_digit_plain: "is_digit c \<Longrightarrow> ws_len (c # s) = 0 \<and> c \<noteq> CHR '','' \<and> c \<noteq> CHR ''+'' \<and> c \<noteq> CHR ''.''"
  by (auto simp: is_digit_def intro!: ws_len_ascii)

lemma digits_no_ws: "list_all is_digit s \<Longrightarrow> no_ws s \<and> CHR '','' \<notin> set s \<and> CHR ''.'' \<notin> set s"
  using is_digit_plain by (induction s) auto

lemma parse_unsigned_string_of_nat: "n < bound \<Longrightarrow> parse_unsigned bound (string_of_nat n) = Some n"
  using string_of_nat_digits [of n] is_digit_plain
  by (cases "string_of_nat n") (auto simp: parse_unsigned_def)

lemma parse_u32_show [simp]: "parse_u32 (string_of_nat (unat n)) = Some n"
  using unat_bound [of n] by (simp add: parse_u32_def parse_unsigned_string_of_nat)

lemma no_ws_string_of_nat [simp]: "no_ws (string_of_nat n)" "string_of_nat n \<noteq> []" "CHR '','' \<notin> set (string_of_nat n)"
  using string_of_nat_digits [of n] digits_no_ws by auto

subsection \<open>Addresses\<close>

lemma split_on_parts: "join [c] (split_on c s) = s"
proof (induction s)
  case (Cons x s)
  then show ?case by (cases "split_on c s"; cases "tl (split_on c s)") auto
qed simp

lemma dotted_no_ws: "list_all (\<lambda>c. is_digit c \<or> c = CHR ''.'') s \<Longrightarrow> no_ws s \<and> CHR '','' \<notin> set s"
proof (induction s)
  case (Cons c s)
  moreover have "ws_len (CHR ''.'' # s) = 0" by (rule ws_len_ascii) simp_all
  ultimately show ?case using is_digit_plain [of c s] by auto
qed simp

lemma parse_ipv4_split:
  "parse_ipv4 s = Some ip \<Longrightarrow> \<exists>a b c d. split_on CHR ''.'' s = [a, b, c, d] \<and>
     (\<forall>x\<in>set [a, b, c, d]. \<exists>o1. parse_octet x = Some o1)"
  by (auto simp: parse_ipv4_def split: if_splits list.splits option.splits)

lemma parse_octet_digits: "parse_octet s = Some b \<Longrightarrow> list_all is_digit s \<and> s \<noteq> []"
  by (auto simp: parse_octet_def split: if_splits)

lemma parse_ipv4_plain:
  assumes "parse_ipv4 s = Some ip"
  shows "no_ws s" and "s \<noteq> []" and "CHR '','' \<notin> set s"
proof -
  obtain a b c d where parts: "split_on CHR ''.'' s = [a, b, c, d]"
    and oct: "\<forall>x\<in>set [a, b, c, d]. list_all is_digit x \<and> x \<noteq> []"
    using parse_ipv4_split [OF assms] parse_octet_digits by meson
  have s: "s = join ''.'' [a, b, c, d]" using split_on_parts [of "CHR ''.''" s] by (simp add: parts)
  have "list_all (\<lambda>c. is_digit c \<or> c = CHR ''.'') s"
    using oct by (auto simp: s list_all_iff)
  with dotted_no_ws show "no_ws s" and "CHR '','' \<notin> set s" by auto
  show "s \<noteq> []" by (simp add: s)
qed

lemma string_of_nat_octet:
  assumes "n < 256"
  shows "length (string_of_nat n) \<le> 3" and "\<not> (hd (string_of_nat n) = CHR ''0'' \<and> length (string_of_nat n) > 1)"
proof -
  have small: "string_of_nat m = [char_of (48 + m)]" if "m < 10" for m :: nat
    using that by (simp add: string_of_nat.simps)
  have nz: "char_of (48 + m) \<noteq> CHR ''0''" if "0 < m" "m < 10" for m :: nat
  proof
    assume "char_of (48 + m) = CHR ''0''"
    then have "code (char_of (48 + m)) = code (CHR ''0'')" by simp
    with that show False by (simp add: code_digit)
  qed
  have two: "string_of_nat m = [char_of (48 + m div 10), char_of (48 + m mod 10)]" if "10 \<le> m" "m < 100" for m :: nat
    using that by (simp add: string_of_nat.simps [of m] small)
  have three: "string_of_nat m = [char_of (48 + m div 10 div 10), char_of (48 + m div 10 mod 10), char_of (48 + m mod 10)]"
    if "100 \<le> m" "m < 256" for m :: nat
    using that by (simp add: string_of_nat.simps [of m] two)
  consider "n < 10" | "10 \<le> n" "n < 100" | "100 \<le> n" by linarith
  then have "length (string_of_nat n) \<le> 3 \<and> \<not> (hd (string_of_nat n) = CHR ''0'' \<and> length (string_of_nat n) > 1)"
  proof cases
    case 1
    then show ?thesis by (simp add: small)
  next
    case 2
    then show ?thesis using nz [of "n div 10"] by (simp add: two)
  next
    case 3
    then have "0 < n div 10 div 10" "n div 10 div 10 < 10" using assms by simp_all
    with 3 assms show ?thesis using nz [of "n div 10 div 10"] by (simp add: three)
  qed
  then show "length (string_of_nat n) \<le> 3"
    and "\<not> (hd (string_of_nat n) = CHR ''0'' \<and> length (string_of_nat n) > 1)" by blast+
qed

lemma parse_octet_show: "parse_octet (show_octet b) = Some b"
  using string_of_nat_octet [of "unat b"] string_of_nat_digits [of "unat b"] unat_bound [of b]
  by (simp add: parse_octet_def show_octet_def)

lemma show_octet_plain: "CHR ''.'' \<notin> set (show_octet b)" "length (show_octet b) \<le> 3"
  using string_of_nat_octet [of "unat b"] string_of_nat_digits [of "unat b"] digits_no_ws unat_bound [of b]
  by (auto simp: show_octet_def)

lemma u32_to_be_bytes_cases: obtains a b c d where "u32_to_be_bytes ip = [a, b, c, d]"
  using length_4_cases [of "u32_to_be_bytes ip"] by (simp add: u32_to_be_bytes_def)

text \<open>An address printed is read back.\<close>

lemma parse_show_ipv4: "parse_ipv4 (show_ipv4 ip) = Some ip"
proof -
  obtain a b c d where ip: "u32_to_be_bytes ip = [a, b, c, d]" by (rule u32_to_be_bytes_cases)
  have "split_on CHR ''.'' (show_ipv4 ip) = map show_octet [a, b, c, d]"
    unfolding show_ipv4_def ip by (rule split_on_join) (auto simp: show_octet_plain)
  moreover have "length (show_ipv4 ip) \<le> 15"
    using show_octet_plain(2) [of a] show_octet_plain(2) [of b] show_octet_plain(2) [of c] show_octet_plain(2) [of d]
    by (simp add: show_ipv4_def ip)
  moreover have "u32_from_be_bytes [a, b, c, d] = ip"
    using ip by (metis u32_from_to_be_bytes)
  ultimately show ?thesis
    by (simp add: parse_ipv4_def parse_octet_show)
qed

end
