(* ===== verification/Control_Messages.thy ===== *)
theory Control_Messages
  imports Std_Text
begin

text \<open>
  \<open>crates/corevpn-protocol/src/control.rs\<close>: the messages of the control channel inside TLS, that
  is the pushed configuration, the authentication message and the key exchange of key method 2.
\<close>

section \<open>Topology and routes\<close>

definition validate_ipv4 :: "string \<Rightarrow> (ProtocolError, unit) res" where
  "validate_ipv4 s =
     (case parse_ipv4 s of
        Some _ \<Rightarrow> Inr ()
      | None \<Rightarrow> Inl (Err (InvalidPacket (''invalid IPv4 address: '' @ s))))"

datatype Topology = Net30 | P2P | Subnet

text \<open>
  \<open>to_lowercase\<close> maps no character outside ASCII to a letter of the three names, so only the ASCII
  letters matter.
\<close>

definition ascii_lower :: "char \<Rightarrow> char" where
  "ascii_lower c = (if 65 \<le> code c \<and> code c \<le> 90 then char_of (code c + 32) else c)"

definition Topology_parse :: "string \<Rightarrow> Topology" where
  "Topology_parse s =
     (let l = map ascii_lower s in
      if l = ''net30'' then Net30 else if l = ''p2p'' then P2P else if l = ''subnet'' then Subnet else Subnet)"

fun Topology_as_str :: "Topology \<Rightarrow> string" where
  "Topology_as_str Net30 = ''net30''"
| "Topology_as_str P2P = ''p2p''"
| "Topology_as_str Subnet = ''subnet''"

record PushRoute =
  pr_network :: string
  pr_netmask :: string
  pr_gateway :: "string option"
  pr_metric :: "u32 option"

definition PushRoute_new :: "string \<Rightarrow> string \<Rightarrow> PushRoute" where
  "PushRoute_new network netmask =
     \<lparr>pr_network = network, pr_netmask = netmask, pr_gateway = None, pr_metric = None\<rparr>"

definition PushRoute_encode :: "PushRoute \<Rightarrow> string" where
  "PushRoute_encode r =
     (let s = ''route '' @ pr_network r @ '' '' @ pr_netmask r;
          s = (case pr_gateway r of Some gw \<Rightarrow> s @ '' '' @ gw | None \<Rightarrow> s @ '' vpn_gateway'')
      in case pr_metric r of Some metric \<Rightarrow> s @ '' '' @ string_of_nat (unat metric) | None \<Rightarrow> s)"

text \<open>\<open>tokens.next()\<close>: the next token, if there is one, and the tokens after it.\<close>

fun next_token :: "string list \<Rightarrow> string option \<times> string list" where
  "next_token [] = (None, [])"
| "next_token (t # ts) = (Some t, ts)"

definition PushRoute_parse :: "string \<Rightarrow> (ProtocolError, PushRoute) res" where
  "PushRoute_parse s =
     (let tokens = snd (next_token (split_whitespace s));
          (network, tokens) = next_token tokens
      in case network of
           None \<Rightarrow> Inl (Err (InvalidPacket ''missing network in route''))
         | Some network \<Rightarrow>
             and_then (validate_ipv4 network) (\<lambda>_.
             let (netmask, tokens) = next_token tokens in
             case netmask of
               None \<Rightarrow> Inl (Err (InvalidPacket ''missing netmask in route''))
             | Some netmask \<Rightarrow>
                 and_then (validate_ipv4 netmask) (\<lambda>_.
                 let (g, tokens) = next_token tokens;
                     gateway = (case g of
                       None \<Rightarrow> None
                     | Some g \<Rightarrow> if g = ''vpn_gateway'' then None
                                else if validate_ipv4 g = Inr () then Some g else None);
                     (m, tokens) = next_token tokens;
                     metric = (case m of
                       None \<Rightarrow> None
                     | Some m \<Rightarrow> (case parse_u32 m of
                                   Some m \<Rightarrow> if m \<le> 9999 then Some m else None | None \<Rightarrow> None))
                 in Inr \<lparr>pr_network = network, pr_netmask = netmask, pr_gateway = gateway, pr_metric = metric\<rparr>)))"

section \<open>The pushed configuration\<close>

record PushReply =
  pu_routes :: "PushRoute list"
  pu_ifconfig :: "(string \<times> string) option"
  pu_ifconfig_ipv6 :: "string option"
  pu_dns :: "string list"
  pu_dns_search :: "string list"
  pu_redirect_gateway :: bool
  pu_route_gateway :: "string option"
  pu_topology :: Topology
  pu_ping :: u32
  pu_ping_restart :: u32
  pu_options :: "string list"

definition PushReply_default :: PushReply where
  "PushReply_default =
     \<lparr>pu_routes = [], pu_ifconfig = None, pu_ifconfig_ipv6 = None, pu_dns = [], pu_dns_search = [],
      pu_redirect_gateway = False, pu_route_gateway = None, pu_topology = Subnet, pu_ping = 10,
      pu_ping_restart = 60, pu_options = []\<rparr>"

text \<open>The vector \<open>parts\<close> after its first element.\<close>

definition PushReply_parts :: "PushReply \<Rightarrow> string list" where
  "PushReply_parts r =
     [''topology '' @ Topology_as_str (pu_topology r)]
     @ (case pu_ifconfig r of Some (ip, netmask) \<Rightarrow> [''ifconfig '' @ ip @ '' '' @ netmask] | None \<Rightarrow> [])
     @ (case pu_ifconfig_ipv6 r of Some ipv6 \<Rightarrow> [''ifconfig-ipv6 '' @ ipv6] | None \<Rightarrow> [])
     @ map PushRoute_encode (pu_routes r)
     @ (case pu_route_gateway r of Some gw \<Rightarrow> [''route-gateway '' @ gw] | None \<Rightarrow> [])
     @ (if pu_redirect_gateway r then [''redirect-gateway def1''] else [])
     @ map (\<lambda>dns. ''dhcp-option DNS '' @ dns) (pu_dns r)
     @ map (\<lambda>domain. ''dhcp-option DOMAIN '' @ domain) (pu_dns_search r)
     @ [''ping '' @ string_of_nat (unat (pu_ping r)),
        ''ping-restart '' @ string_of_nat (unat (pu_ping_restart r))]
     @ pu_options r"

definition PushReply_encode :: "PushReply \<Rightarrow> string" where
  "PushReply_encode r = join '','' (''PUSH_REPLY'' # PushReply_parts r)"

text \<open>The body of the loop of \<open>PushReply::parse\<close>, for one part.\<close>

definition parse_directive :: "PushReply \<Rightarrow> string \<Rightarrow> string list \<Rightarrow> PushReply" where
  "parse_directive reply part all_tokens =
     (let (keyword, tokens) = next_token all_tokens; (arg, tokens) = next_token tokens in
      if keyword = Some ''topology'' then
        (case arg of Some topo \<Rightarrow> reply\<lparr>pu_topology := Topology_parse topo\<rparr> | None \<Rightarrow> reply)
      else if keyword = Some ''ifconfig'' then
        let ip = (case arg of Some s \<Rightarrow> s | None \<Rightarrow> []);
            netmask = (case fst (next_token tokens) of Some s \<Rightarrow> s | None \<Rightarrow> [])
        in reply\<lparr>pu_ifconfig := Some (ip, netmask)\<rparr>
      else if keyword = Some ''ifconfig-ipv6'' then
        (case arg of Some ipv6 \<Rightarrow> reply\<lparr>pu_ifconfig_ipv6 := Some ipv6\<rparr> | None \<Rightarrow> reply)
      else if keyword = Some ''route'' then
        (case PushRoute_parse part of
           Inr route \<Rightarrow> reply\<lparr>pu_routes := pu_routes reply @ [route]\<rparr> | Inl _ \<Rightarrow> reply)
      else if keyword = Some ''route-gateway'' then
        (case arg of Some gw \<Rightarrow> reply\<lparr>pu_route_gateway := Some gw\<rparr> | None \<Rightarrow> reply)
      else if keyword = Some ''redirect-gateway'' then reply\<lparr>pu_redirect_gateway := True\<rparr>
      else if keyword = Some ''dhcp-option'' then
        (if arg = Some ''DNS'' then
           (case fst (next_token tokens) of
              Some dns \<Rightarrow> reply\<lparr>pu_dns := pu_dns reply @ [dns]\<rparr> | None \<Rightarrow> reply)
         else if arg = Some ''DOMAIN'' then
           (case fst (next_token tokens) of
              Some domain \<Rightarrow> reply\<lparr>pu_dns_search := pu_dns_search reply @ [domain]\<rparr> | None \<Rightarrow> reply)
         else reply)
      else if keyword = Some ''ping'' then
        (case arg of Some s \<Rightarrow> (case parse_u32 s of Some p \<Rightarrow> reply\<lparr>pu_ping := p\<rparr> | None \<Rightarrow> reply) | None \<Rightarrow> reply)
      else if keyword = Some ''ping-restart'' then
        (case arg of Some s \<Rightarrow> (case parse_u32 s of Some p \<Rightarrow> reply\<lparr>pu_ping_restart := p\<rparr> | None \<Rightarrow> reply) | None \<Rightarrow> reply)
      else reply\<lparr>pu_options := pu_options reply @ [part]\<rparr>)"

definition parse_part :: "PushReply \<Rightarrow> string \<Rightarrow> PushReply" where
  "parse_part reply part =
     (let part = trim part in
      if part = [] then reply else parse_directive reply part (split_whitespace part))"

definition PushReply_parse :: "string \<Rightarrow> (ProtocolError, PushReply) res" where
  "PushReply_parse s =
     (let s = (case strip_prefix ''PUSH_REPLY,'' s of Some t \<Rightarrow> t | None \<Rightarrow> s)
      in Inr (foldl parse_part PushReply_default (split_on CHR '','' s)))"

section \<open>The authentication message\<close>

record AuthMessage =
  am_username :: string
  am_password :: string

definition MAX_USERNAME_LEN :: nat where "MAX_USERNAME_LEN = 256"

definition MAX_PASSWORD_LEN :: nat where "MAX_PASSWORD_LEN = 1024"

definition AuthMessage_parse :: "bytes \<Rightarrow> (ProtocolError, AuthMessage) res" where
  "AuthMessage_parse data =
     and_then (ensure (\<not> length data > MAX_USERNAME_LEN + MAX_PASSWORD_LEN + 2) (InvalidPacket ''auth data too long'')) (\<lambda>_.
     case from_utf8 data of
       None \<Rightarrow> Inl (Err (InvalidPacket ''invalid UTF-8 in auth''))
     | Some s \<Rightarrow>
         let parts = split_on (CHR 0x00) s in
         and_then (ensure (\<not> length parts < 2) (InvalidPacket ''missing auth fields'')) (\<lambda>_.
         and_then (elem_at parts 0) (\<lambda>username.
         and_then (elem_at parts 1) (\<lambda>password.
         and_then (ensure (\<not> length username > MAX_USERNAME_LEN)
           (InvalidPacket (''username too long (max '' @ string_of_nat MAX_USERNAME_LEN @ '' bytes)''))) (\<lambda>_.
         and_then (ensure (\<not> length password > MAX_PASSWORD_LEN)
           (InvalidPacket (''password too long (max '' @ string_of_nat MAX_PASSWORD_LEN @ '' bytes)''))) (\<lambda>_.
         Inr \<lparr>am_username = username, am_password = password\<rparr>))))))"

definition AuthMessage_encode :: "AuthMessage \<Rightarrow> bytes" where
  "AuthMessage_encode m = str_bytes (am_username m) @ [0] @ str_bytes (am_password m) @ [0]"

section \<open>Control messages\<close>

datatype ControlMessage =
    CmTlsData bytes
  | CmPushRequest
  | CmPushReply PushReply
  | CmAuth AuthMessage
  | CmInfo string
  | CmExit

record ControlPacket =
  ctl_packet_id :: u32
  ctl_message :: ControlMessage

definition ControlPacket_new :: "u32 \<Rightarrow> ControlMessage \<Rightarrow> ControlPacket" where
  "ControlPacket_new packet_id message = \<lparr>ctl_packet_id = packet_id, ctl_message = message\<rparr>"

section \<open>Key method 2\<close>

record KeyMethodV2 =
  km_pre_master :: bytes
  km_random1 :: bytes
  km_random2 :: bytes
  km_options :: string
  km_username :: "string option"
  km_password :: "string option"
  km_peer_info :: "string option"

definition trim_end_nul :: "string \<Rightarrow> string" where
  "trim_end_nul s = rev (dropWhile (\<lambda>c. c = CHR 0x00) (rev s))"

definition read_length_prefixed_string :: "bytes \<Rightarrow> nat \<Rightarrow> (ProtocolError, string \<times> nat) res" where
  "read_length_prefixed_string data offset =
     and_then (ensure (\<not> offset + 2 > length data) (PacketTooShort (offset + 2) (length data))) (\<lambda>_.
     and_then (byte_at data offset) (\<lambda>hi.
     and_then (byte_at data (offset + 1)) (\<lambda>lo.
     let len = unat (u16_from_be_bytes hi lo); offset = offset + 2 in
     and_then (ensure (\<not> offset + len > length data) (PacketTooShort (offset + len) (length data))) (\<lambda>_.
     and_then (byte_range data offset (offset + len)) (\<lambda>body.
     case from_utf8 body of
       None \<Rightarrow> Inl (Err (InvalidPacket ''invalid UTF-8 in key method v2''))
     | Some s \<Rightarrow> Inr (trim_end_nul s, offset + len))))))"

text \<open>The optional fields: read if there is room for a length, and an empty string is none.\<close>

definition read_optional_string :: "bytes \<Rightarrow> nat \<Rightarrow> (ProtocolError, string option \<times> nat) res" where
  "read_optional_string data offset =
     (if offset + 2 \<le> length data then
        and_then (read_length_prefixed_string data offset) (\<lambda>(s, offset).
        Inr (if s = [] then None else Some s, offset))
      else Inr (None, offset))"

definition KeyMethodV2_parse :: "bytes \<Rightarrow> (ProtocolError, KeyMethodV2) res" where
  "KeyMethodV2_parse data =
     and_then (ensure (\<not> length data < 119) (PacketTooShort 119 (length data))) (\<lambda>_.
     let offset = 0 + 4 in
     and_then (byte_at data offset) (\<lambda>key_method.
     let offset = offset + 1 in
     and_then (ensure (\<not> key_method \<noteq> 2)
       (InvalidPacket (''unsupported key method: '' @ string_of_nat (unat key_method)))) (\<lambda>_.
     and_then (byte_range data offset (offset + 48)) (\<lambda>pre_master.
     let offset = offset + 48 in
     and_then (byte_range data offset (offset + 32)) (\<lambda>random1.
     let offset = offset + 32 in
     and_then (byte_range data offset (offset + 32)) (\<lambda>random2.
     let offset = offset + 32 in
     and_then (read_length_prefixed_string data offset) (\<lambda>(options, offset).
     and_then (read_optional_string data offset) (\<lambda>(username, offset).
     and_then (read_optional_string data offset) (\<lambda>(password, offset).
     and_then (read_optional_string data offset) (\<lambda>(peer_info, offset).
     Inr \<lparr>km_pre_master = pre_master, km_random1 = random1, km_random2 = random2, km_options = options,
          km_username = username, km_password = password, km_peer_info = peer_info\<rparr>))))))))))"

definition KeyMethodV2_parse_from_server :: "bytes \<Rightarrow> (ProtocolError, KeyMethodV2) res" where
  "KeyMethodV2_parse_from_server data =
     and_then (ensure (\<not> length data < 71) (PacketTooShort 71 (length data))) (\<lambda>_.
     let offset = 0 + 4 in
     and_then (byte_at data offset) (\<lambda>key_method.
     let offset = offset + 1 in
     and_then (ensure (\<not> key_method \<noteq> 2)
       (InvalidPacket (''unsupported key method: '' @ string_of_nat (unat key_method)))) (\<lambda>_.
     and_then (byte_range data offset (offset + 32)) (\<lambda>random1.
     let offset = offset + 32 in
     and_then (byte_range data offset (offset + 32)) (\<lambda>random2.
     let offset = offset + 32 in
     and_then (read_length_prefixed_string data offset) (\<lambda>(options, offset).
     Inr \<lparr>km_pre_master = replicate 48 0, km_random1 = random1, km_random2 = random2, km_options = options,
          km_username = None, km_password = None, km_peer_info = None\<rparr>))))))"

definition write_string :: "bytes \<Rightarrow> string \<Rightarrow> bytes" where
  "write_string buf s =
     (let len = length s + 1 in buf @ u16_to_be_bytes (of_nat len) @ str_bytes s @ [0])"

definition KeyMethodV2_encode :: "KeyMethodV2 \<Rightarrow> bool \<Rightarrow> bytes" where
  "KeyMethodV2_encode k is_server =
     (let buf = replicate 4 0 @ [2];
          buf = (if \<not> is_server then buf @ km_pre_master k else buf);
          buf = buf @ km_random1 k;
          buf = buf @ km_random2 k;
          buf = write_string buf (km_options k);
          buf = (case km_username k of Some username \<Rightarrow> write_string buf username | None \<Rightarrow> write_string buf []);
          buf = (case km_password k of Some password \<Rightarrow> write_string buf password | None \<Rightarrow> write_string buf [])
      in case km_peer_info k of Some peer_info \<Rightarrow> write_string buf peer_info | None \<Rightarrow> buf)"

section \<open>Parsers do not panic\<close>

lemma AuthMessage_parse_no_panic: "no_panic (AuthMessage_parse data)"
  by (auto simp: AuthMessage_parse_def Let_def res_simps intro!: no_panic_intros split: option.split)

lemma read_length_prefixed_string_no_panic: "no_panic (read_length_prefixed_string data offset)"
  by (auto simp: read_length_prefixed_string_def Let_def res_simps intro!: no_panic_intros split: option.split)

lemma read_optional_string_no_panic: "no_panic (read_optional_string data offset)"
  by (auto simp: read_optional_string_def read_length_prefixed_string_no_panic intro!: no_panic_intros)

lemma KeyMethodV2_parse_no_panic:
  "no_panic (KeyMethodV2_parse data)" "no_panic (KeyMethodV2_parse_from_server data)"
  by (auto simp: KeyMethodV2_parse_def KeyMethodV2_parse_from_server_def Let_def res_simps
        read_length_prefixed_string_no_panic read_optional_string_no_panic intro!: no_panic_intros)

lemma PushReply_parse_no_panic: "no_panic (PushReply_parse s)"
  by (simp add: PushReply_parse_def Let_def)

section \<open>Strings on the wire\<close>

text \<open>A string that the length field can hold, that is UTF-8 and does not end in a NUL.\<close>

definition wire_string :: "string \<Rightarrow> bool" where
  "wire_string s \<longleftrightarrow> length s + 1 < 2 ^ 16 \<and> utf8_ok (str_bytes s) \<and> (s \<noteq> [] \<longrightarrow> List.last s \<noteq> CHR 0x00)"

lemma trim_end_nul_wire: "s = [] \<or> List.last s \<noteq> CHR 0x00 \<Longrightarrow> trim_end_nul (s @ [CHR 0x00]) = s"
  by (cases s rule: rev_cases) (auto simp: trim_end_nul_def)

lemma read_written_string:
  assumes "wire_string s"
  shows "read_length_prefixed_string (write_string buf s @ rest) (length buf)
     = Inr (s, length (write_string buf s))"
proof -
  have "utf8_ok (str_bytes s @ [0])"
    using assms by (intro utf8_ok_append) (simp_all add: wire_string_def)
  then have utf8: "from_utf8 (str_bytes s @ [0]) = Some (s @ [CHR 0x00])"
    by (simp add: from_utf8_def)
  let ?n = "of_nat (Suc (length s)) :: u16" and ?d = "write_string buf s @ rest"
  have len: "unat ?n = Suc (length s)"
    using assms by (simp add: wire_string_def unsigned_of_nat take_bit_nat_eq_self del: of_nat_Suc)
  have d: "?d = buf @ u16_to_be_bytes ?n @ (str_bytes s @ [0]) @ rest"
    by (simp add: write_string_def Let_def del: of_nat_Suc)
  have total: "length (write_string buf s) = Suc (Suc (Suc (length buf + length s)))"
    by (simp add: write_string_def Let_def)
  have field: "u16_from_be_bytes (?d ! length buf) (?d ! Suc (length buf)) = ?n"
    unfolding d by (simp add: nth_append del: of_nat_Suc)
  have body: "drop (Suc (Suc (length buf))) (write_string buf s) = str_bytes s @ [0]"
    by (simp add: write_string_def Let_def del: of_nat_Suc)
  have trimmed: "trim_end_nul (s @ [CHR 0x00]) = s"
    using assms by (intro trim_end_nul_wire) (auto simp: wire_string_def)
  show ?thesis
    by (simp add: read_length_prefixed_string_def total field len body utf8 trimmed Let_def del: of_nat_Suc)
qed

text \<open>An optional string: \<open>Some\<close> of an empty one would be read as \<open>None\<close>.\<close>

definition wire_option :: "string option \<Rightarrow> bool" where
  "wire_option u \<longleftrightarrow> (\<forall>s. u = Some s \<longrightarrow> wire_string s \<and> s \<noteq> [])"

definition or_empty :: "string option \<Rightarrow> string" where
  "or_empty u = (case u of Some s \<Rightarrow> s | None \<Rightarrow> [])"

lemma wire_or_empty: "wire_option u \<Longrightarrow> wire_string (or_empty u)"
  by (auto simp: wire_option_def or_empty_def wire_string_def split: option.split)

lemma read_written_option:
  assumes "wire_option u"
  shows "read_optional_string (write_string buf (or_empty u) @ rest) (length buf)
     = Inr (u, length (write_string buf (or_empty u)))"
proof -
  have "length buf + 2 \<le> length (write_string buf (or_empty u) @ rest)"
    by (simp add: write_string_def Let_def)
  with read_written_string [OF wire_or_empty [OF assms], of buf rest] assms show ?thesis
    by (auto simp: read_optional_string_def or_empty_def wire_option_def split: option.split)
qed

lemma write_string_append: "write_string buf s = buf @ write_string [] s"
  by (simp add: write_string_def Let_def)

text \<open>The client's message, and what follows the server's fixed part.\<close>

definition key_method_ok :: "KeyMethodV2 \<Rightarrow> bool" where
  "key_method_ok k \<longleftrightarrow> length (km_pre_master k) = 48 \<and> length (km_random1 k) = 32 \<and> length (km_random2 k) = 32 \<and>
     wire_string (km_options k) \<and> wire_option (km_username k) \<and> wire_option (km_password k) \<and>
     wire_option (km_peer_info k)"

lemma KeyMethodV2_encode_strings:
  "KeyMethodV2_encode k srv =
     (let b0 = replicate 4 0 @ [2] @ (if srv then [] else km_pre_master k) @ km_random1 k @ km_random2 k;
          b1 = write_string b0 (km_options k);
          b2 = write_string b1 (or_empty (km_username k));
          b3 = write_string b2 (or_empty (km_password k))
      in case km_peer_info k of Some p \<Rightarrow> write_string b3 p | None \<Rightarrow> b3)"
  by (simp add: KeyMethodV2_encode_def or_empty_def Let_def split: option.split)

lemma encode_extends:
  obtains rest where "KeyMethodV2_encode k srv =
     write_string (replicate 4 0 @ [2] @ (if srv then [] else km_pre_master k) @ km_random1 k @ km_random2 k) (km_options k) @ rest"
  using that unfolding KeyMethodV2_encode_strings Let_def
  by (metis (no_types, lifting) append_assoc append_Nil2 option.case_eq_if write_string_append)

lemma read_strings:
  assumes "wire_string options" and "wire_option u" and "wire_option p" and "wire_option i"
    and data: "data = (let b1 = write_string b0 options; b2 = write_string b1 (or_empty u); b3 = write_string b2 (or_empty p)
      in case i of Some x \<Rightarrow> write_string b3 x | None \<Rightarrow> b3)"
  shows "\<exists>o1 o2 o3 o4. read_length_prefixed_string data (length b0) = Inr (options, o1) \<and>
     read_optional_string data o1 = Inr (u, o2) \<and> read_optional_string data o2 = Inr (p, o3) \<and>
     read_optional_string data o3 = Inr (i, o4)"
proof -
  define b1 where "b1 = write_string b0 options"
  define b2 where "b2 = write_string b1 (or_empty u)"
  define b3 where "b3 = write_string b2 (or_empty p)"
  define r3 where "r3 = (case i of Some x \<Rightarrow> write_string [] x | None \<Rightarrow> [])"
  have d3: "data = b3 @ r3"
    using data by (auto simp: b1_def b2_def b3_def r3_def Let_def write_string_append [of "write_string _ _"] split: option.split)
  have d2: "data = write_string b2 (or_empty p) @ r3" using d3 by (simp add: b3_def)
  have d1: "data = write_string b1 (or_empty u) @ write_string [] (or_empty p) @ r3"
    using d2 write_string_append [of b2] by (simp add: b2_def)
  have d0: "data = write_string b0 options @ write_string [] (or_empty u) @ write_string [] (or_empty p) @ r3"
    using d1 write_string_append [of b1] by (simp add: b1_def)
  have "read_length_prefixed_string data (length b0) = Inr (options, length b1)"
    unfolding d0 b1_def by (rule read_written_string [OF assms(1)])
  moreover have "read_optional_string data (length b1) = Inr (u, length b2)"
    unfolding d1 b2_def by (rule read_written_option [OF assms(2)])
  moreover have "read_optional_string data (length b2) = Inr (p, length b3)"
    unfolding d2 b3_def by (rule read_written_option [OF assms(3)])
  moreover have "\<exists>o4. read_optional_string data (length b3) = Inr (i, o4)"
  proof (cases i)
    case None
    then show ?thesis by (simp add: d3 r3_def read_optional_string_def)
  next
    case (Some x)
    then have "data = write_string b3 (or_empty i) @ []"
      by (simp add: d3 r3_def or_empty_def write_string_append [of b3])
    then show ?thesis using read_written_option [OF assms(4), of b3 "[]"] by auto
  qed
  ultimately show ?thesis by blast
qed

lemma KeyMethodV2_client_roundtrip:
  assumes "key_method_ok k"
  shows "KeyMethodV2_parse (KeyMethodV2_encode k False) = Inr k"
proof -
  let ?b0 = "replicate 4 0 @ [2] @ km_pre_master k @ km_random1 k @ km_random2 k" and ?d = "KeyMethodV2_encode k False"
  have len: "length (km_pre_master k) = 48" "length (km_random1 k) = 32" "length (km_random2 k) = 32"
    using assms by (simp_all add: key_method_ok_def)
  obtain o1 o2 o3 o4 where reads: "read_length_prefixed_string ?d (length ?b0) = Inr (km_options k, o1)"
    "read_optional_string ?d o1 = Inr (km_username k, o2)" "read_optional_string ?d o2 = Inr (km_password k, o3)"
    "read_optional_string ?d o3 = Inr (km_peer_info k, o4)"
    using read_strings [of "km_options k" "km_username k" "km_password k" "km_peer_info k" ?d ?b0] assms
    by (auto simp: key_method_ok_def KeyMethodV2_encode_strings)
  obtain rest where d: "?d = write_string ?b0 (km_options k) @ rest"
    using encode_extends [of k False] by auto
  have b0: "length ?b0 = 117" using len by simp
  obtain r where r: "?d = ?b0 @ r" "2 \<le> length r"
    using d by (auto simp: write_string_def Let_def)
  show ?thesis
    using reads len r(2) unfolding b0
    by (simp add: KeyMethodV2_parse_def r(1) Let_def nth_append)
qed

lemma KeyMethodV2_server_roundtrip:
  assumes "key_method_ok k"
  shows "KeyMethodV2_parse_from_server (KeyMethodV2_encode k True) =
     Inr (k\<lparr>km_pre_master := replicate 48 0, km_username := None, km_password := None, km_peer_info := None\<rparr>)"
proof -
  let ?b0 = "replicate 4 0 @ [2] @ km_random1 k @ km_random2 k" and ?d = "KeyMethodV2_encode k True"
  have len: "length (km_random1 k) = 32" "length (km_random2 k) = 32" and opts: "wire_string (km_options k)"
    using assms by (simp_all add: key_method_ok_def)
  obtain rest where d: "?d = write_string ?b0 (km_options k) @ rest"
    using encode_extends [of k True] by auto
  have read: "read_length_prefixed_string ?d (length ?b0) = Inr (km_options k, length (write_string ?b0 (km_options k)))"
    unfolding d by (rule read_written_string [OF opts])
  have b0: "length ?b0 = 69" using len by simp
  obtain r where r: "?d = ?b0 @ r" "2 \<le> length r"
    using d by (auto simp: write_string_def Let_def)
  show ?thesis
    using read len r(2) unfolding b0
    by (simp add: KeyMethodV2_parse_from_server_def r(1) Let_def nth_append)
qed

section \<open>The authentication message\<close>

lemma AuthMessage_roundtrip:
  assumes "CHR 0x00 \<notin> set (am_username m)" and "CHR 0x00 \<notin> set (am_password m)"
    and "length (am_username m) \<le> MAX_USERNAME_LEN" and "length (am_password m) \<le> MAX_PASSWORD_LEN"
    and "utf8_ok (str_bytes (am_username m))" and "utf8_ok (str_bytes (am_password m))"
  shows "AuthMessage_parse (AuthMessage_encode m) = Inr m"
proof -
  let ?s = "am_username m @ CHR 0x00 # am_password m @ CHR 0x00 # []"
  have nul: "str_bytes [CHR 0x00] = [0]" by code_simp
  have enc: "AuthMessage_encode m = str_bytes ?s"
    using nul by (simp add: AuthMessage_encode_def str_bytes_def)
  have "utf8_ok (AuthMessage_encode m)"
    using assms(5,6) unfolding AuthMessage_encode_def by (intro utf8_ok_append) simp_all
  then have utf8: "from_utf8 (AuthMessage_encode m) = Some ?s"
    by (simp add: from_utf8_iff enc)
  have parts: "split_on (CHR 0x00) ?s = [am_username m, am_password m, []]"
    using assms(1,2) by (simp add: split_on_append)
  have "length (AuthMessage_encode m) \<le> MAX_USERNAME_LEN + MAX_PASSWORD_LEN + 2"
    using assms(3,4) by (simp add: AuthMessage_encode_def)
  then show ?thesis
    using assms(3,4) by (simp add: AuthMessage_parse_def utf8 parts Let_def)
qed

section \<open>The pushed configuration\<close>

text \<open>What a route, an argument and an additional option may be.\<close>

definition is_ipv4 :: "string \<Rightarrow> bool" where
  "is_ipv4 s \<longleftrightarrow> parse_ipv4 s \<noteq> None"

definition plain :: "string \<Rightarrow> bool" where
  "plain w \<longleftrightarrow> no_ws w \<and> w \<noteq> [] \<and> CHR '','' \<notin> set w"

definition route_ok :: "PushRoute \<Rightarrow> bool" where
  "route_ok r \<longleftrightarrow> is_ipv4 (pr_network r) \<and> is_ipv4 (pr_netmask r) \<and>
     (case pr_gateway r of Some g \<Rightarrow> is_ipv4 g | None \<Rightarrow> True) \<and>
     (case pr_metric r of Some m \<Rightarrow> m \<le> 9999 | None \<Rightarrow> True)"

definition directive_names :: "string list" where
  "directive_names = [''topology'', ''ifconfig'', ''ifconfig-ipv6'', ''route'', ''route-gateway'', ''redirect-gateway'',
     ''dhcp-option'', ''ping'', ''ping-restart'']"

definition option_ok :: "string \<Rightarrow> bool" where
  "option_ok s \<longleftrightarrow> trim s = s \<and> s \<noteq> [] \<and> CHR '','' \<notin> set s \<and>
     fst (next_token (split_whitespace s)) \<notin> set (map Some directive_names)"

definition push_ok :: "PushReply \<Rightarrow> bool" where
  "push_ok r \<longleftrightarrow> list_all route_ok (pu_routes r) \<and>
     (case pu_ifconfig r of Some (ip, netmask) \<Rightarrow> plain ip \<and> plain netmask | None \<Rightarrow> True) \<and>
     (case pu_ifconfig_ipv6 r of Some ip \<Rightarrow> plain ip | None \<Rightarrow> True) \<and>
     list_all plain (pu_dns r) \<and> list_all plain (pu_dns_search r) \<and>
     (case pu_route_gateway r of Some gw \<Rightarrow> plain gw | None \<Rightarrow> True) \<and>
     list_all option_ok (pu_options r)"

lemma is_ipv4_plain: "is_ipv4 s \<Longrightarrow> plain s"
  by (auto simp: is_ipv4_def plain_def dest: parse_ipv4_plain)

lemma plain_number: "plain (string_of_nat n)"
  by (simp add: plain_def)

lemma plain_directives: "list_all plain directive_names"
  "list_all plain [''def1'', ''DNS'', ''DOMAIN'', ''vpn_gateway'', ''net30'', ''p2p'', ''subnet'']"
  by code_simp+

text \<open>A sentence of plain words is one part, and is read as its words.\<close>

lemma plain_words: "ws \<noteq> [] \<Longrightarrow> list_all plain ws \<Longrightarrow> words ws"
  by (auto simp: words_def plain_def list_all_iff)

lemma parse_part_sentence:
  "ws \<noteq> [] \<Longrightarrow> list_all plain ws \<Longrightarrow> parse_part r (join '' '' ws) = parse_directive r (join '' '' ws) ws"
  using plain_words [of ws] by (simp add: parse_part_def trim_sentence join_nonempty split_sentence)

lemma comma_free_sentence: "list_all plain ws \<Longrightarrow> CHR '','' \<notin> set (join '' '' ws)"
  using set_join [of "'' ''" ws] by (auto simp: list_all_iff plain_def)

definition route_words :: "PushRoute \<Rightarrow> string list" where
  "route_words r =
     [''route'', pr_network r, pr_netmask r, case pr_gateway r of Some g \<Rightarrow> g | None \<Rightarrow> ''vpn_gateway'']
     @ (case pr_metric r of Some m \<Rightarrow> [string_of_nat (unat m)] | None \<Rightarrow> [])"

lemma route_sentence: "PushRoute_encode r = join '' '' (route_words r)"
  by (simp add: PushRoute_encode_def route_words_def Let_def split: option.split)

lemma route_words_plain: "route_ok r \<Longrightarrow> list_all plain (route_words r)"
  using plain_directives
  by (auto simp: route_ok_def route_words_def is_ipv4_plain plain_number directive_names_def split: option.splits)

lemma vpn_gateway_no_ip: "\<not> is_ipv4 ''vpn_gateway''"
  unfolding is_ipv4_def by code_simp

lemma PushRoute_roundtrip:
  assumes "route_ok r"
  shows "PushRoute_parse (PushRoute_encode r) = Inr r"
proof -
  have split: "split_whitespace (PushRoute_encode r) = route_words r"
    unfolding route_sentence
    by (rule split_sentence [OF plain_words [OF _ route_words_plain [OF assms]]]) (simp add: route_words_def)
  have valid: "validate_ipv4 s = Inr ()" if "is_ipv4 s" for s
    using that by (auto simp: is_ipv4_def validate_ipv4_def)
  have "PushRoute_parse (PushRoute_encode r) = Inr \<lparr>pr_network = pr_network r, pr_netmask = pr_netmask r,
      pr_gateway = pr_gateway r, pr_metric = pr_metric r\<rparr>"
    using assms vpn_gateway_no_ip
    by (auto simp: PushRoute_parse_def split route_words_def route_ok_def valid Let_def split: option.splits)
  then show ?thesis by simp
qed

text \<open>Each group of directives sets its field.\<close>

lemma parse_route: "route_ok rt \<Longrightarrow> parse_part r (PushRoute_encode rt) = r\<lparr>pu_routes := pu_routes r @ [rt]\<rparr>"
proof -
  assume ok: "route_ok rt"
  have ne: "route_words rt \<noteq> []" by (simp add: route_words_def)
  have "parse_part r (PushRoute_encode rt) = parse_directive r (PushRoute_encode rt) (route_words rt)"
    unfolding route_sentence by (rule parse_part_sentence [OF ne route_words_plain [OF ok]])
  also have "\<dots> = r\<lparr>pu_routes := pu_routes r @ [rt]\<rparr>"
    by (simp add: parse_directive_def route_words_def PushRoute_roundtrip [OF ok])
  finally show ?thesis .
qed

lemma parse_routes:
  "list_all route_ok rs \<Longrightarrow> foldl parse_part r (map PushRoute_encode rs) = r\<lparr>pu_routes := pu_routes r @ rs\<rparr>"
  by (induction rs arbitrary: r) (simp_all add: parse_route)

lemma parse_two_words:
  assumes "plain a" and "plain b"
  shows "parse_part r (a @ '' '' @ b) = parse_directive r (a @ '' '' @ b) [a, b]"
  using parse_part_sentence [of "[a, b]" r] assms by simp

lemma parse_three_words:
  assumes "plain a" and "plain b" and "plain c"
  shows "parse_part r (a @ '' '' @ b @ '' '' @ c) = parse_directive r (a @ '' '' @ b @ '' '' @ c) [a, b, c]"
  using parse_part_sentence [of "[a, b, c]" r] assms by simp


lemma plain_names:
  "plain ''topology''" "plain ''ifconfig''" "plain ''ifconfig-ipv6''" "plain ''route-gateway''"
  "plain ''redirect-gateway''" "plain ''dhcp-option''" "plain ''ping''" "plain ''ping-restart''"
  "plain ''def1''" "plain ''DNS''" "plain ''DOMAIN''" "plain ''net30''" "plain ''p2p''" "plain ''subnet''"
  using plain_directives by (simp_all add: directive_names_def)

lemma Topology_roundtrip: "Topology_parse (Topology_as_str t) = t"
  by (cases t; simp only: Topology_as_str.simps; code_simp)

lemma parse_topology:
  "parse_part r (''topology '' @ Topology_as_str t) = r\<lparr>pu_topology := t\<rparr>"
proof -
  have "plain (Topology_as_str t)" by (cases t) (simp_all only: Topology_as_str.simps plain_names)
  from parse_two_words [OF plain_names(1) this, of r] show ?thesis
    by (simp add: parse_directive_def Topology_roundtrip)
qed

lemma parse_ifconfig:
  "plain ip \<Longrightarrow> plain netmask \<Longrightarrow>
     parse_part r (''ifconfig '' @ ip @ '' '' @ netmask) = r\<lparr>pu_ifconfig := Some (ip, netmask)\<rparr>"
  using parse_three_words [OF plain_names(2), of ip netmask r] by (simp add: parse_directive_def)

lemma parse_ipv6: "plain ip \<Longrightarrow> parse_part r (''ifconfig-ipv6 '' @ ip) = r\<lparr>pu_ifconfig_ipv6 := Some ip\<rparr>"
  using parse_two_words [OF plain_names(3), of ip r] by (simp add: parse_directive_def)

lemma parse_gateway: "plain gw \<Longrightarrow> parse_part r (''route-gateway '' @ gw) = r\<lparr>pu_route_gateway := Some gw\<rparr>"
  using parse_two_words [OF plain_names(4), of gw r] by (simp add: parse_directive_def)

lemma parse_redirect: "parse_part r ''redirect-gateway def1'' = r\<lparr>pu_redirect_gateway := True\<rparr>"
  using parse_two_words [OF plain_names(5) plain_names(9), of r] by (simp add: parse_directive_def)

lemma parse_dns:
  "list_all plain ds \<Longrightarrow> foldl parse_part r (map (\<lambda>d. ''dhcp-option DNS '' @ d) ds) = r\<lparr>pu_dns := pu_dns r @ ds\<rparr>"
proof (induction ds arbitrary: r)
  case (Cons d ds)
  then show ?case
    using parse_three_words [OF plain_names(6) plain_names(10), of d r] by (simp add: parse_directive_def)
qed simp

lemma parse_domains:
  "list_all plain ds \<Longrightarrow>
     foldl parse_part r (map (\<lambda>d. ''dhcp-option DOMAIN '' @ d) ds) = r\<lparr>pu_dns_search := pu_dns_search r @ ds\<rparr>"
proof (induction ds arbitrary: r)
  case (Cons d ds)
  then show ?case
    using parse_three_words [OF plain_names(6) plain_names(11), of d r] by (simp add: parse_directive_def)
qed simp

lemma parse_ping: "parse_part r (''ping '' @ string_of_nat (unat n)) = r\<lparr>pu_ping := n\<rparr>"
  using parse_two_words [OF plain_names(7) plain_number, of r "unat n"] by (simp add: parse_directive_def)

lemma parse_ping_restart: "parse_part r (''ping-restart '' @ string_of_nat (unat n)) = r\<lparr>pu_ping_restart := n\<rparr>"
  using parse_two_words [OF plain_names(8) plain_number, of r "unat n"] by (simp add: parse_directive_def)

lemma parse_options:
  "list_all option_ok os \<Longrightarrow> foldl parse_part r os = r\<lparr>pu_options := pu_options r @ os\<rparr>"
proof (induction os arbitrary: r)
  case (Cons x os)
  then have "parse_part r x = r\<lparr>pu_options := pu_options r @ [x]\<rparr>"
    by (simp add: parse_part_def option_ok_def parse_directive_def directive_names_def split_beta Let_def)
  with Cons show ?case by simp
qed simp

lemmas parse_groups = parse_topology parse_ifconfig parse_ipv6 parse_gateway parse_redirect parse_dns parse_domains
  parse_ping parse_ping_restart parse_options parse_routes

text \<open>No part contains a comma.\<close>

lemma two_words_comma: "plain a \<Longrightarrow> plain b \<Longrightarrow> CHR '','' \<notin> set (a @ '' '' @ b)"
  by (auto simp: plain_def)

lemma parts_comma_free:
  assumes "push_ok r" and "x \<in> set (PushReply_parts r)"
  shows "CHR '','' \<notin> set x"
proof -
  have rt: "CHR '','' \<notin> set (PushRoute_encode rt)" if "rt \<in> set (pu_routes r)" for rt
    using that assms(1) comma_free_sentence [OF route_words_plain [of rt]]
    by (auto simp: route_sentence push_ok_def list_all_iff)
  have "plain (Topology_as_str t)" for t by (cases t) (simp_all only: Topology_as_str.simps plain_names)
  with assms rt plain_number show ?thesis
    by (auto simp: PushReply_parts_def push_ok_def list_all_iff plain_def option_ok_def split: option.splits if_splits)
qed

lemma PushReply_roundtrip:
  assumes "push_ok r"
  shows "PushReply_parse (PushReply_encode r) = Inr r"
proof -
  have ne: "PushReply_parts r \<noteq> []" by (simp add: PushReply_parts_def)
  have "PushReply_encode r = ''PUSH_REPLY,'' @ join '','' (PushReply_parts r)"
    using ne by (cases "PushReply_parts r") (simp_all add: PushReply_encode_def)
  then have strip: "strip_prefix ''PUSH_REPLY,'' (PushReply_encode r) = Some (join '','' (PushReply_parts r))"
    by (simp only: strip_prefix_append)
  have split: "split_on CHR '','' (join '','' (PushReply_parts r)) = PushReply_parts r"
    by (rule split_on_join [OF ne]) (use parts_comma_free [OF assms] in blast)
  have "foldl parse_part PushReply_default (PushReply_parts r) = r"
    using assms
    by (cases r) (auto simp: PushReply_parts_def push_ok_def PushReply_default_def parse_groups
        simp del: append_Cons append_Nil split: option.split)
  then show ?thesis
    by (simp only: PushReply_parse_def strip split Let_def option.case)
qed

section \<open>Properties\<close>

text \<open>
  C19. A pushed configuration is read back as it was written: encoding and parsing give the same
  routes, addresses, name servers, search domains, gateway, topology and timers, and the
  additional options unchanged, if every argument is a word without comma, every route is made of
  IPv4 addresses with a metric of at most 9999, and no additional option begins with one of the
  nine directive names or with white space.
\<close>

theorem push_reply_roundtrip:
  assumes "push_ok r"
  shows "PushReply_parse (PushReply_encode r) = Inr r"
  using assms by (rule PushReply_roundtrip)

definition sample_push :: PushReply where
  "sample_push = PushReply_default
     \<lparr>pu_ifconfig := Some (''10.8.0.2'', ''255.255.255.0''), pu_redirect_gateway := True, pu_topology := Net30,
      pu_dns := [''1.1.1.1''],
      pu_routes := [(PushRoute_new ''192.168.1.0'' ''255.255.255.0'')\<lparr>pr_metric := Some 20\<rparr>],
      pu_options := [''peer-id 7'']\<rparr>"

theorem push_reply_roundtrip_witness:
  "PushReply_parse (PushReply_encode sample_push) = Inr sample_push"
  by (rule push_reply_roundtrip) code_simp

text \<open>
  C20. Key method 2 is read back as it was written. The client's message gives the server the
  pre-master secret, both random values, the options and the credentials; the server's message gives
  the client both random values and the options, and never carries a pre-master secret. The
  strings must be UTF-8 of less than 65535 bytes and not end in a NUL, and optional ones not be
  empty.
\<close>

theorem key_method_roundtrip:
  assumes "key_method_ok k"
  shows "KeyMethodV2_parse (KeyMethodV2_encode k False) = Inr k \<and>
     KeyMethodV2_parse_from_server (KeyMethodV2_encode k True) =
       Inr (k\<lparr>km_pre_master := replicate 48 0, km_username := None, km_password := None, km_peer_info := None\<rparr>)"
  using KeyMethodV2_client_roundtrip [OF assms] KeyMethodV2_server_roundtrip [OF assms] by blast

definition sample_key_method :: KeyMethodV2 where
  "sample_key_method =
     \<lparr>km_pre_master = replicate 48 1, km_random1 = replicate 32 2, km_random2 = replicate 32 3,
      km_options = ''V4,dev-type tun'', km_username = Some ''alice'', km_password = Some ''secret'',
      km_peer_info = None\<rparr>"

lemma sample_key_method_ok: "key_method_ok sample_key_method"
  unfolding key_method_ok_def wire_string_def wire_option_def sample_key_method_def
  by simp (intro conjI; code_simp)

theorem key_method_roundtrip_witness:
  "KeyMethodV2_parse (KeyMethodV2_encode sample_key_method False) = Inr sample_key_method \<and>
   KeyMethodV2_parse_from_server (KeyMethodV2_encode sample_key_method True) =
     Inr (sample_key_method\<lparr>km_pre_master := replicate 48 0, km_username := None, km_password := None,
       km_peer_info := None\<rparr>)"
  using sample_key_method_ok by (rule key_method_roundtrip)

text \<open>
  Credentials are read back as they were written, if they are UTF-8 without NUL within the
  limits of 256 and 1024 bytes.
\<close>

theorem auth_message_roundtrip:
  assumes "CHR 0x00 \<notin> set (am_username m)" and "CHR 0x00 \<notin> set (am_password m)"
    and "length (am_username m) \<le> MAX_USERNAME_LEN" and "length (am_password m) \<le> MAX_PASSWORD_LEN"
    and "utf8_ok (str_bytes (am_username m))" and "utf8_ok (str_bytes (am_password m))"
  shows "AuthMessage_parse (AuthMessage_encode m) = Inr m"
  using assms by (rule AuthMessage_roundtrip)

theorem auth_message_roundtrip_witness:
  "AuthMessage_parse (AuthMessage_encode \<lparr>am_username = ''user'', am_password = ''pass''\<rparr>)
     = Inr \<lparr>am_username = ''user'', am_password = ''pass''\<rparr>"
  by (rule auth_message_roundtrip; code_simp)

text \<open>
  C21. No input panics a parser of control messages: credentials, both directions of key
  method 2, pushed routes and pushed configurations.
\<close>

theorem control_message_parsers_total:
  "no_panic (AuthMessage_parse data) \<and> no_panic (KeyMethodV2_parse data) \<and>
   no_panic (KeyMethodV2_parse_from_server data) \<and> no_panic (PushRoute_parse s) \<and> no_panic (PushReply_parse s)"
proof -
  have "no_panic (validate_ipv4 t)" for t by (simp add: validate_ipv4_def split: option.split)
  then have "no_panic (PushRoute_parse s)"
    by (auto simp: PushRoute_parse_def Let_def split_beta intro!: no_panic_intros split: option.split)
  then show ?thesis
    by (simp add: AuthMessage_parse_no_panic KeyMethodV2_parse_no_panic PushReply_parse_no_panic)
qed

end
