(* ===== verification/Address_Pool.thy ===== *)
theory Address_Pool
  imports Std_Text
begin

text \<open>
  \<open>crates/corevpn-core/src/network.rs\<close>: addresses, routes and the pool that assigns addresses to
  clients. Addresses are words; a \<open>HashSet\<close> of addresses is a set. Networks belong to the crate
  \<open>ipnet\<close>: they are an abstract type, and the operations the pool calls are a parameter \<open>I\<close> whose
  documented behaviour is \<open>ipnet_laws\<close>.
\<close>

unbundle bit_operations_syntax

section \<open>Addresses\<close>

datatype IpAddr = V4 u32 | V6 u128

record VpnAddress =
  va_ipv4 :: "u32 option"
  va_ipv6 :: "u128 option"

definition VpnAddress_v4 :: "u32 \<Rightarrow> VpnAddress" where
  "VpnAddress_v4 addr = \<lparr>va_ipv4 = Some addr, va_ipv6 = None\<rparr>"

definition VpnAddress_v6 :: "u128 \<Rightarrow> VpnAddress" where
  "VpnAddress_v6 addr = \<lparr>va_ipv4 = None, va_ipv6 = Some addr\<rparr>"

definition dual :: "u32 \<Rightarrow> u128 \<Rightarrow> VpnAddress" where
  "dual ipv4 ipv6 = \<lparr>va_ipv4 = Some ipv4, va_ipv6 = Some ipv6\<rparr>"

definition primary :: "VpnAddress \<Rightarrow> IpAddr option" where
  "primary a =
     (case map_option V4 (va_ipv4 a) of Some x \<Rightarrow> Some x | None \<Rightarrow> map_option V6 (va_ipv6 a))"

text \<open>The predicates of \<open>std::net\<close> that the code uses.\<close>

definition v4_is_loopback :: "u32 \<Rightarrow> bool" where "v4_is_loopback a \<longleftrightarrow> drop_bit 24 a = 127"
definition v4_is_unspecified :: "u32 \<Rightarrow> bool" where "v4_is_unspecified a \<longleftrightarrow> a = 0"
definition v4_is_multicast :: "u32 \<Rightarrow> bool" where "v4_is_multicast a \<longleftrightarrow> drop_bit 28 a = 14"
definition v6_is_loopback :: "u128 \<Rightarrow> bool" where "v6_is_loopback a \<longleftrightarrow> a = 1"
definition v6_is_unspecified :: "u128 \<Rightarrow> bool" where "v6_is_unspecified a \<longleftrightarrow> a = 0"
definition v6_is_multicast :: "u128 \<Rightarrow> bool" where "v6_is_multicast a \<longleftrightarrow> drop_bit 120 a = 0xFF"

section \<open>Networks\<close>

datatype ('n, 'm) IpNet = NetV4 'n | NetV6 'm

record ('n, 'm) ipnet =
  n4_prefix_len :: "'n \<Rightarrow> nat"
  n4_network :: "'n \<Rightarrow> u32"
  n4_broadcast :: "'n \<Rightarrow> u32"
  n4_contains :: "'n \<Rightarrow> u32 \<Rightarrow> bool"
  n4_hosts_count :: "'n \<Rightarrow> nat"
  n4_show :: "'n \<Rightarrow> string"
  n6_prefix_len :: "'m \<Rightarrow> nat"
  n6_network :: "'m \<Rightarrow> u128"
  n6_contains :: "'m \<Rightarrow> u128 \<Rightarrow> bool"
  n6_show :: "'m \<Rightarrow> string"
  v6_show :: "u128 \<Rightarrow> string"
  parse_ipnet :: "string \<Rightarrow> ('n, 'm) IpNet option"

definition ipnet_laws :: "('n, 'm) ipnet \<Rightarrow> bool" where
  "ipnet_laws I \<longleftrightarrow>
     (\<forall>n. n4_prefix_len I n \<le> 32 \<and> 2 ^ (32 - n4_prefix_len I n) dvd unat (n4_network I n) \<and>
        unat (n4_broadcast I n) = unat (n4_network I n) + (2 ^ (32 - n4_prefix_len I n) - 1) \<and>
        (\<forall>a. n4_contains I n a \<longleftrightarrow> n4_network I n \<le> a \<and> a \<le> n4_broadcast I n) \<and>
        (n4_prefix_len I n \<le> 30 \<longrightarrow> n4_hosts_count I n = 2 ^ (32 - n4_prefix_len I n) - 2)) \<and>
     (\<forall>m. n6_prefix_len I m \<le> 128 \<and> 2 ^ (128 - n6_prefix_len I m) dvd unat (n6_network I m) \<and>
        (\<forall>a. n6_contains I m a \<longleftrightarrow>
           n6_network I m \<le> a \<and> unat a < unat (n6_network I m) + 2 ^ (128 - n6_prefix_len I m)))"

section \<open>Routes\<close>

record ('n, 'm) Route =
  ro_network :: "('n, 'm) IpNet"
  ro_gateway :: "IpAddr option"
  ro_metric :: u32

definition validate_network :: "('n, 'm) ipnet \<Rightarrow> ('n, 'm) IpNet \<Rightarrow> (CoreError, unit) res" where
  "validate_network I network =
     (case network of
        NetV4 v4_net \<Rightarrow>
          ensure (\<not> n4_prefix_len I v4_net > 32) (CoreError.ConfigError ''Invalid IPv4 network prefix length'')
      | NetV6 v6_net \<Rightarrow>
          ensure (\<not> n6_prefix_len I v6_net > 128) (CoreError.ConfigError ''Invalid IPv6 network prefix length''))"

definition Route_new :: "('n, 'm) ipnet \<Rightarrow> ('n, 'm) IpNet \<Rightarrow> (CoreError, ('n, 'm) Route) res" where
  "Route_new I network =
     and_then (validate_network I network) (\<lambda>_.
     Inr \<lparr>ro_network = network, ro_gateway = None, ro_metric = 0\<rparr>)"

definition default_v4 :: "('n, 'm) ipnet \<Rightarrow> (CoreError, ('n, 'm) Route) res" where
  "default_v4 I =
     (case parse_ipnet I ''0.0.0.0/0'' of
        Some network \<Rightarrow> Inr \<lparr>ro_network = network, ro_gateway = None, ro_metric = 0\<rparr>
      | None \<Rightarrow> Inl Panic)"

definition default_v6 :: "('n, 'm) ipnet \<Rightarrow> (CoreError, ('n, 'm) Route) res" where
  "default_v6 I =
     (case parse_ipnet I ''::/0'' of
        Some network \<Rightarrow> Inr \<lparr>ro_network = network, ro_gateway = None, ro_metric = 0\<rparr>
      | None \<Rightarrow> Inl Panic)"

definition with_gateway :: "('n, 'm) Route \<Rightarrow> IpAddr \<Rightarrow> ('n, 'm) Route" where
  "with_gateway r gateway = r\<lparr>ro_gateway := Some gateway\<rparr>"

definition with_metric :: "('n, 'm) Route \<Rightarrow> u32 \<Rightarrow> ('n, 'm) Route" where
  "with_metric r metric = r\<lparr>ro_metric := metric\<rparr>"

section \<open>The pool\<close>

record ('n, 'm) AddressPool =
  ap_ipv4_net :: "'n option"
  ap_ipv6_net :: "'m option"
  ap_allocated_v4 :: "u32 set"
  ap_allocated_v6 :: "u128 set"
  ap_reserved_v4 :: "u32 set"
  ap_reserved_v6 :: "u128 set"

definition new_unchecked :: "('n, 'm) ipnet \<Rightarrow> 'n option \<Rightarrow> 'm option \<Rightarrow> ('n, 'm) AddressPool" where
  "new_unchecked I ipv4_net ipv6_net =
     (let reserved_v4 = (case ipv4_net of
            Some net \<Rightarrow> insert (n4_network I net + 1) (insert (n4_broadcast I net) (insert (n4_network I net) {}))
          | None \<Rightarrow> {});
          reserved_v6 = (case ipv6_net of
            Some net \<Rightarrow> insert (n6_network I net + 1) {}
          | None \<Rightarrow> {})
      in \<lparr>ap_ipv4_net = ipv4_net, ap_ipv6_net = ipv6_net, ap_allocated_v4 = {}, ap_allocated_v6 = {},
          ap_reserved_v4 = reserved_v4, ap_reserved_v6 = reserved_v6\<rparr>)"

definition validate_ipv4_net :: "('n, 'm) ipnet \<Rightarrow> 'n \<Rightarrow> (CoreError, unit) res" where
  "validate_ipv4_net I net =
     (let prefix_len = n4_prefix_len I net in
      and_then (ensure (\<not> prefix_len < 8) (CoreError.ConfigError
        (''IPv4 network prefix length '' @ string_of_nat prefix_len @ '' is too small (minimum 8)''))) (\<lambda>_.
      and_then (ensure (\<not> prefix_len > 30) (CoreError.ConfigError
        (''IPv4 network prefix length '' @ string_of_nat prefix_len @ '' is too large (maximum 30)''))) (\<lambda>_.
      let network_addr = n4_network I net in
      and_then (ensure (\<not> (v4_is_loopback network_addr \<or> v4_is_unspecified network_addr)) (CoreError.ConfigError
        ''IPv4 network cannot be a loopback or unspecified address'')) (\<lambda>_.
      and_then (ensure (\<not> v4_is_multicast network_addr) (CoreError.ConfigError
        ''IPv4 network cannot be a multicast address'')) (\<lambda>_.
      ensure (\<not> (u32_to_be_bytes network_addr ! 0 = 169 \<and> u32_to_be_bytes network_addr ! 1 = 254))
        (CoreError.ConfigError ''IPv4 network cannot be in the link-local range (169.254.0.0/16)''))))))"

definition validate_ipv6_net :: "('n, 'm) ipnet \<Rightarrow> 'm \<Rightarrow> (CoreError, unit) res" where
  "validate_ipv6_net I net =
     (let prefix_len = n6_prefix_len I net in
      and_then (ensure (\<not> prefix_len < 48) (CoreError.ConfigError
        (''IPv6 network prefix length '' @ string_of_nat prefix_len @ '' is too small (minimum 48)''))) (\<lambda>_.
      and_then (ensure (\<not> prefix_len > 120) (CoreError.ConfigError
        (''IPv6 network prefix length '' @ string_of_nat prefix_len @ '' is too large (maximum 120)''))) (\<lambda>_.
      let network_addr = n6_network I net in
      and_then (ensure (\<not> (v6_is_loopback network_addr \<or> v6_is_unspecified network_addr)) (CoreError.ConfigError
        ''IPv6 network cannot be a loopback or unspecified address'')) (\<lambda>_.
      and_then (ensure (\<not> v6_is_multicast network_addr) (CoreError.ConfigError
        ''IPv6 network cannot be a multicast address'')) (\<lambda>_.
      let segment0 = (ucast (drop_bit 112 network_addr) :: u16) in
      ensure (\<not> segment0 AND 0xffc0 = 0xfe80)
        (CoreError.ConfigError ''IPv6 network cannot be in the link-local range (fe80::/10)''))))))"

definition AddressPool_new ::
    "('n, 'm) ipnet \<Rightarrow> 'n option \<Rightarrow> 'm option \<Rightarrow> (CoreError, ('n, 'm) AddressPool) res" where
  "AddressPool_new I ipv4_net ipv6_net =
     and_then (case ipv4_net of Some net \<Rightarrow> validate_ipv4_net I net | None \<Rightarrow> Inr ()) (\<lambda>_.
     and_then (case ipv6_net of Some net \<Rightarrow> validate_ipv6_net I net | None \<Rightarrow> Inr ()) (\<lambda>_.
     and_then (ensure (\<not> (ipv4_net = None \<and> ipv6_net = None))
       (CoreError.ConfigError ''At least one network (IPv4 or IPv6) must be provided'')) (\<lambda>_.
     Inr (new_unchecked I ipv4_net ipv6_net))))"

definition gateway_v4 :: "('n, 'm) ipnet \<Rightarrow> ('n, 'm) AddressPool \<Rightarrow> u32 option" where
  "gateway_v4 I p = map_option (\<lambda>net. n4_network I net + 1) (ap_ipv4_net p)"

definition gateway_v6 :: "('n, 'm) ipnet \<Rightarrow> ('n, 'm) AddressPool \<Rightarrow> u128 option" where
  "gateway_v6 I p = map_option (\<lambda>net. n6_network I net + 1) (ap_ipv6_net p)"

text \<open>\<open>for a in start..end\<close>, stopping at the first address that is not taken.\<close>

function first_free :: "('a::len word \<Rightarrow> bool) \<Rightarrow> 'a word \<Rightarrow> 'a word \<Rightarrow> 'a word option" where
  "first_free taken a stop =
     (if a < stop then if \<not> taken a then Some a else first_free taken (a + 1) stop else None)"
  by pat_completeness auto

lemma unat_Suc_below:
  assumes "a < b"
  shows "unat (a + 1 :: 'a::len word) = Suc (unat a)"
proof -
  have "unat a + 1 \<le> unat b" using assms by (simp add: word_less_nat_alt)
  also note unat_bound [of b]
  finally show ?thesis by (subst unat_add_one) simp_all
qed

termination first_free
  by (relation "measure (\<lambda>(taken, a, stop). unat stop - unat a)")
     (auto simp: unat_Suc_below word_less_nat_alt)

declare first_free.simps [simp del]

definition allocate_v4 ::
    "('n, 'm) ipnet \<Rightarrow> ('n, 'm) AddressPool \<Rightarrow> 'n \<Rightarrow> (CoreError, u32) res \<times> ('n, 'm) AddressPool" where
  "allocate_v4 I p net =
     (let start = n4_network I net + 2; stop = n4_broadcast I net in
      case first_free (\<lambda>addr. addr \<in> ap_reserved_v4 p \<or> addr \<in> ap_allocated_v4 p) start stop of
        Some addr \<Rightarrow> (Inr addr, p\<lparr>ap_allocated_v4 := insert addr (ap_allocated_v4 p)\<rparr>)
      | None \<Rightarrow> (Inl (Err AddressPoolExhausted), p))"

definition allocate_v6 ::
    "('n, 'm) ipnet \<Rightarrow> ('n, 'm) AddressPool \<Rightarrow> 'm \<Rightarrow> (CoreError, u128) res \<times> ('n, 'm) AddressPool" where
  "allocate_v6 I p net =
     (let start = n6_network I net + 2; stop = start + 65534 in
      case first_free (\<lambda>addr. addr \<in> ap_reserved_v6 p \<or> addr \<in> ap_allocated_v6 p) start stop of
        Some addr \<Rightarrow> (Inr addr, p\<lparr>ap_allocated_v6 := insert addr (ap_allocated_v6 p)\<rparr>)
      | None \<Rightarrow> (Inl (Err AddressPoolExhausted), p))"

definition allocate ::
    "('n, 'm) ipnet \<Rightarrow> ('n, 'm) AddressPool \<Rightarrow> (CoreError, VpnAddress) res \<times> ('n, 'm) AddressPool" where
  "allocate I p =
     (let (ipv4, p) = (case ap_ipv4_net p of
            Some net \<Rightarrow> let (r, p) = allocate_v4 I p net in (and_then r (\<lambda>a. Inr (Some a)), p)
          | None \<Rightarrow> (Inr None, p))
      in case ipv4 of
           Inl e \<Rightarrow> (Inl e, p)
         | Inr ipv4 \<Rightarrow>
             let (ipv6, p) = (case ap_ipv6_net p of
                   Some net \<Rightarrow> let (r, p) = allocate_v6 I p net in (and_then r (\<lambda>a. Inr (Some a)), p)
                 | None \<Rightarrow> (Inr None, p))
             in case ipv6 of
                  Inl e \<Rightarrow> (Inl e, p)
                | Inr ipv6 \<Rightarrow>
                    if ipv4 = None \<and> ipv6 = None
                    then (Inl (Err (CoreError.ConfigError ''No address pools configured'')), p)
                    else (Inr \<lparr>va_ipv4 = ipv4, va_ipv6 = ipv6\<rparr>, p))"

text \<open>The two halves of \<open>allocate_specific\<close>, for the address of one family.\<close>

definition claim_v4 ::
    "('n, 'm) ipnet \<Rightarrow> ('n, 'm) AddressPool \<Rightarrow> u32 \<Rightarrow> (CoreError, unit) res \<times> ('n, 'm) AddressPool" where
  "claim_v4 I p v4 =
     (case and_then
        (case ap_ipv4_net p of
           Some net \<Rightarrow> ensure (n4_contains I net v4)
             (InvalidAddress (show_ipv4 v4 @ '' not in pool '' @ n4_show I net))
         | None \<Rightarrow> Inr ()) (\<lambda>_.
        ensure (\<not> (v4 \<in> ap_reserved_v4 p \<or> v4 \<in> ap_allocated_v4 p))
          (InvalidAddress (show_ipv4 v4 @ '' is reserved or already allocated''))) of
        Inl e \<Rightarrow> (Inl e, p)
      | Inr _ \<Rightarrow> (Inr (), p\<lparr>ap_allocated_v4 := insert v4 (ap_allocated_v4 p)\<rparr>))"

definition claim_v6 ::
    "('n, 'm) ipnet \<Rightarrow> ('n, 'm) AddressPool \<Rightarrow> u128 \<Rightarrow> (CoreError, unit) res \<times> ('n, 'm) AddressPool" where
  "claim_v6 I p v6 =
     (case and_then
        (case ap_ipv6_net p of
           Some net \<Rightarrow> ensure (n6_contains I net v6)
             (InvalidAddress (v6_show I v6 @ '' not in pool '' @ n6_show I net))
         | None \<Rightarrow> Inr ()) (\<lambda>_.
        ensure (\<not> (v6 \<in> ap_reserved_v6 p \<or> v6 \<in> ap_allocated_v6 p))
          (InvalidAddress (v6_show I v6 @ '' is reserved or already allocated''))) of
        Inl e \<Rightarrow> (Inl e, p)
      | Inr _ \<Rightarrow> (Inr (), p\<lparr>ap_allocated_v6 := insert v6 (ap_allocated_v6 p)\<rparr>))"

definition allocate_specific ::
    "('n, 'm) ipnet \<Rightarrow> ('n, 'm) AddressPool \<Rightarrow> VpnAddress \<Rightarrow> (CoreError, VpnAddress) res \<times> ('n, 'm) AddressPool" where
  "allocate_specific I p addr =
     (let (r, p) = (case va_ipv4 addr of Some v4 \<Rightarrow> claim_v4 I p v4 | None \<Rightarrow> (Inr (), p)) in
      case r of
        Inl e \<Rightarrow> (Inl e, p)
      | Inr _ \<Rightarrow>
          let (r, p) = (case va_ipv6 addr of Some v6 \<Rightarrow> claim_v6 I p v6 | None \<Rightarrow> (Inr (), p)) in
          (and_then r (\<lambda>_. Inr addr), p))"

definition release :: "('n, 'm) AddressPool \<Rightarrow> VpnAddress \<Rightarrow> ('n, 'm) AddressPool" where
  "release p addr =
     (let p = (case va_ipv4 addr of
            Some v4 \<Rightarrow> p\<lparr>ap_allocated_v4 := ap_allocated_v4 p - {v4}\<rparr> | None \<Rightarrow> p)
      in case va_ipv6 addr of
           Some v6 \<Rightarrow> p\<lparr>ap_allocated_v6 := ap_allocated_v6 p - {v6}\<rparr> | None \<Rightarrow> p)"

definition available_v4 :: "('n, 'm) ipnet \<Rightarrow> ('n, 'm) AddressPool \<Rightarrow> nat" where
  "available_v4 I p =
     (case ap_ipv4_net p of
        Some net \<Rightarrow>
          let total = n4_hosts_count I net;
              reserved = card (ap_reserved_v4 p);
              allocated = card (ap_allocated_v4 p)
          in total - reserved - allocated
      | None \<Rightarrow> 0)"

definition available_v6 :: "('n, 'm) AddressPool \<Rightarrow> nat" where
  "available_v6 p = (if ap_ipv6_net p \<noteq> None then 65534 - card (ap_allocated_v6 p) else 0)"

record PoolStats =
  st_ipv4_total :: nat
  st_ipv4_allocated :: nat
  st_ipv4_available :: nat
  st_ipv6_allocated :: nat
  st_ipv6_available :: nat

definition pool_stats :: "('n, 'm) ipnet \<Rightarrow> ('n, 'm) AddressPool \<Rightarrow> PoolStats" where
  "pool_stats I p =
     \<lparr>st_ipv4_total = (case ap_ipv4_net p of Some n \<Rightarrow> n4_hosts_count I n | None \<Rightarrow> 0),
      st_ipv4_allocated = card (ap_allocated_v4 p), st_ipv4_available = available_v4 I p,
      st_ipv6_allocated = card (ap_allocated_v6 p), st_ipv6_available = available_v6 p\<rparr>"

record DnsConfig =
  dns_servers :: "IpAddr list"
  dns_search_domains :: "string list"

text \<open>\<open>.parse().unwrap()\<close> of an \<open>IpAddr\<close> written as dotted decimal.\<close>

definition unwrap_v4 :: "string \<Rightarrow> (CoreError, IpAddr) res" where
  "unwrap_v4 s = (case parse_ipv4 s of Some a \<Rightarrow> Inr (V4 a) | None \<Rightarrow> Inl Panic)"

definition DnsConfig_default :: "(CoreError, DnsConfig) res" where
  "DnsConfig_default =
     and_then (unwrap_v4 ''1.1.1.1'') (\<lambda>a.
     and_then (unwrap_v4 ''1.0.0.1'') (\<lambda>b.
     Inr \<lparr>dns_servers = [a, b], dns_search_domains = []\<rparr>))"

section \<open>The search\<close>

lemma word_between:
  assumes "a \<le> y" and "y \<noteq> a"
  shows "a + 1 \<le> (y :: 'a::len word)"
  using assms by (intro word_add_one_le) (simp add: order.strict_iff_order)

lemma first_free_Some:
  "first_free taken a stop = Some x \<Longrightarrow> a \<le> x \<and> x < stop \<and> \<not> taken x \<and> (\<forall>y. a \<le> y \<and> y < x \<longrightarrow> taken y)"
proof (induction taken a stop rule: first_free.induct)
  case (1 taken a stop)
  show ?case
  proof (cases "a < stop \<and> taken a")
    case True
    with 1 have ih: "a + 1 \<le> x" "x < stop" "\<not> taken x" "\<forall>y. a + 1 \<le> y \<and> y < x \<longrightarrow> taken y"
      by (auto simp: first_free.simps [of taken a stop])
    have "a \<le> x" using ih(1) True by (simp add: word_le_nat_alt unat_Suc_below [of a stop])
    with ih True show ?thesis using word_between by (metis order.order_iff_strict)
  next
    case False
    with "1.prems" show ?thesis by (auto simp: first_free.simps [of taken a stop] split: if_splits)
  qed
qed

lemma first_free_None: "first_free taken a stop = None \<Longrightarrow> a \<le> y \<Longrightarrow> y < stop \<Longrightarrow> taken y"
proof (induction taken a stop rule: first_free.induct)
  case (1 taken a stop)
  then have "a < stop" by simp
  with "1.prems"(1) have "taken a" and rest: "first_free taken (a + 1) stop = None"
    by (auto simp: first_free.simps [of taken a stop] split: if_splits)
  with "1.IH" [OF \<open>a < stop\<close> _ rest] "1.prems" word_between show ?case
    by (cases "y = a") auto
qed

text \<open>The search returns the least address of the range that is not taken.\<close>

lemma first_free_Min:
  "first_free taken a stop =
     (let F = {y. a \<le> y \<and> y < stop \<and> \<not> taken y} in if F = {} then None else Some (Min F))"
proof (cases "first_free taken a stop")
  case None
  with first_free_None [OF None] show ?thesis by (auto simp: Let_def)
next
  case (Some x)
  let ?F = "{y. a \<le> y \<and> y < stop \<and> \<not> taken y}"
  note x = first_free_Some [OF Some]
  have "Min ?F = x"
    by (rule Min_eqI) (use x in \<open>auto simp: not_less [symmetric]\<close>)
  moreover have "x \<in> ?F" using x by simp
  ultimately show ?thesis using Some by (auto simp: Let_def)
qed

section \<open>The free addresses\<close>

definition host_range :: "('n, 'm) ipnet \<Rightarrow> 'n \<Rightarrow> u32 set" where
  "host_range I net = {a. n4_network I net + 2 \<le> a \<and> a < n4_broadcast I net}"

definition reserved_of :: "('n, 'm) ipnet \<Rightarrow> 'n option \<Rightarrow> u32 set" where
  "reserved_of I net4 =
     (case net4 of Some net \<Rightarrow> {n4_network I net, n4_network I net + 1, n4_broadcast I net} | None \<Rightarrow> {})"

lemma new_unchecked_fields [simp]:
  "ap_ipv4_net (new_unchecked I n m) = n" "ap_ipv6_net (new_unchecked I n m) = m"
  "ap_allocated_v4 (new_unchecked I n m) = {}" "ap_allocated_v6 (new_unchecked I n m) = {}"
  "ap_reserved_v4 (new_unchecked I n m) = reserved_of I n"
  "ap_reserved_v6 (new_unchecked I n m) = (case m of Some net \<Rightarrow> {n6_network I net + 1} | None \<Rightarrow> {})"
  by (auto simp: new_unchecked_def reserved_of_def Let_def split: option.split)

lemma net4_shape:
  assumes "ipnet_laws I" and "n4_prefix_len I net \<le> 30"
  shows "unat (n4_broadcast I net) = unat (n4_network I net) + (2 ^ (32 - n4_prefix_len I net) - 1)"
    and "4 \<le> (2 :: nat) ^ (32 - n4_prefix_len I net)"
    and "unat (n4_network I net + 1) = unat (n4_network I net) + 1"
    and "unat (n4_network I net + 2) = unat (n4_network I net) + 2"
proof -
  let ?k = "32 - n4_prefix_len I net"
  show bc: "unat (n4_broadcast I net) = unat (n4_network I net) + (2 ^ ?k - 1)"
    using assms(1) by (simp add: ipnet_laws_def)
  have "(2 :: nat) ^ 2 \<le> 2 ^ ?k" using assms(2) by (intro power_increasing) auto
  then show four: "4 \<le> (2 :: nat) ^ ?k" by simp
  have "unat (n4_network I net) + 3 < 2 ^ 32"
    using bc four unat_bound [of "n4_broadcast I net"] by simp
  then show "unat (n4_network I net + 1) = unat (n4_network I net) + 1"
    and "unat (n4_network I net + 2) = unat (n4_network I net) + 2"
    by (simp_all add: unat_word_ariths)
qed

lemma host_range_free:
  assumes "ipnet_laws I" and "n4_prefix_len I net \<le> 30"
  shows "host_range I net \<inter> reserved_of I (Some net) = {}"
  using net4_shape [OF assms] by (auto simp: host_range_def reserved_of_def word_le_nat_alt word_less_nat_alt)

lemma card_host_range:
  assumes "ipnet_laws I" and "n4_prefix_len I net \<le> 30"
  shows "card (host_range I net) = 2 ^ (32 - n4_prefix_len I net) - 3"
proof -
  let ?lo = "unat (n4_network I net + 2)" and ?hi = "unat (n4_broadcast I net)"
  have "unat ` host_range I net = {?lo ..< ?hi}"
  proof
    show "unat ` host_range I net \<subseteq> {?lo ..< ?hi}"
      by (auto simp: host_range_def word_le_nat_alt word_less_nat_alt)
    show "{?lo ..< ?hi} \<subseteq> unat ` host_range I net"
    proof
      fix n assume n: "n \<in> {?lo ..< ?hi}"
      then have "unat (of_nat n :: u32) = n"
        using unat_bound [of "n4_broadcast I net"] by (simp add: unsigned_of_nat take_bit_nat_eq_self)
      with n show "n \<in> unat ` host_range I net"
        by (intro image_eqI [of _ _ "of_nat n"]) (auto simp: host_range_def word_le_nat_alt word_less_nat_alt)
    qed
  qed
  moreover have "inj_on unat (host_range I net)" by (simp add: inj_on_def word_unat_eq_iff)
  ultimately have "card (host_range I net) = ?hi - ?lo"
    by (metis card_atLeastLessThan card_image)
  with net4_shape [OF assms] show ?thesis by simp
qed

lemma DnsConfig_default_value:
  "DnsConfig_default = Inr \<lparr>dns_servers = [V4 0x01010101, V4 0x01000001], dns_search_domains = []\<rparr>"
  by code_simp

section \<open>Operations on one family\<close>

lemma allocate_v4_result:
  assumes "allocate_v4 I p net = (r, p')"
  shows "(\<exists>a. r = Inr a \<and> a \<in> host_range I net \<and> a \<notin> ap_reserved_v4 p \<and> a \<notin> ap_allocated_v4 p \<and>
            p' = p\<lparr>ap_allocated_v4 := insert a (ap_allocated_v4 p)\<rparr>) \<or>
         (r = Inl (Err AddressPoolExhausted) \<and> p' = p)"
  using assms
  by (auto simp: allocate_v4_def Let_def host_range_def split: option.splits dest!: first_free_Some)

lemma allocate_v6_result:
  assumes "allocate_v6 I p net = (r, p')"
  shows "(\<exists>a. r = Inr a \<and> a \<notin> ap_reserved_v6 p \<and> a \<notin> ap_allocated_v6 p \<and>
            p' = p\<lparr>ap_allocated_v6 := insert a (ap_allocated_v6 p)\<rparr>) \<or>
         (r = Inl (Err AddressPoolExhausted) \<and> p' = p)"
  using assms by (auto simp: allocate_v6_def Let_def split: option.splits dest!: first_free_Some)

lemma claim_v4_result:
  assumes "claim_v4 I p v4 = (r, p')"
  shows "(r = Inr () \<and> v4 \<notin> ap_reserved_v4 p \<and> v4 \<notin> ap_allocated_v4 p \<and>
            (\<forall>net. ap_ipv4_net p = Some net \<longrightarrow> n4_contains I net v4) \<and>
            p' = p\<lparr>ap_allocated_v4 := insert v4 (ap_allocated_v4 p)\<rparr>) \<or>
         (\<exists>e. r = Inl (Err (InvalidAddress e)) \<and> p' = p)"
  using assms by (auto simp: claim_v4_def ensure_def split: option.splits if_splits)

lemma claim_v6_result:
  assumes "claim_v6 I p v6 = (r, p')"
  shows "(r = Inr () \<and> v6 \<notin> ap_reserved_v6 p \<and> v6 \<notin> ap_allocated_v6 p \<and>
            (\<forall>net. ap_ipv6_net p = Some net \<longrightarrow> n6_contains I net v6) \<and>
            p' = p\<lparr>ap_allocated_v6 := insert v6 (ap_allocated_v6 p)\<rparr>) \<or>
         (\<exists>e. r = Inl (Err (InvalidAddress e)) \<and> p' = p)"
  using assms by (auto simp: claim_v6_def ensure_def split: option.splits if_splits)

section \<open>Leases\<close>

text \<open>
  The pool together with the addresses that clients hold. A client releases an address it holds;
  allocation may fail, and what it took before failing stays taken.
\<close>

type_synonym ('n, 'm) leases = "('n, 'm) AddressPool \<times> VpnAddress list"

inductive lease_step :: "('n, 'm) ipnet \<Rightarrow> ('n, 'm) leases \<Rightarrow> ('n, 'm) leases \<Rightarrow> bool" for I where
  lease_allocate: "allocate I p = (Inr a, p') \<Longrightarrow> lease_step I (p, held) (p', a # held)"
| lease_allocate_fails: "allocate I p = (Inl e, p') \<Longrightarrow> lease_step I (p, held) (p', held)"
| lease_specific: "allocate_specific I p a = (Inr b, p') \<Longrightarrow> lease_step I (p, held) (p', b # held)"
| lease_specific_fails: "allocate_specific I p a = (Inl e, p') \<Longrightarrow> lease_step I (p, held) (p', held)"
| lease_release: "a \<in> set held \<Longrightarrow> lease_step I (p, held) (release p a, remove1 a held)"

definition held_by :: "(VpnAddress \<Rightarrow> 'a option) \<Rightarrow> VpnAddress list \<Rightarrow> 'a list" where
  "held_by f held = List.map_filter f held"

text \<open>Per family: what is held is taken, held once, and allowed by \<open>P\<close>.\<close>

definition family_ok :: "('a \<Rightarrow> bool) \<Rightarrow> 'a set \<Rightarrow> 'a list \<Rightarrow> bool" where
  "family_ok P taken xs \<longleftrightarrow> distinct xs \<and> set xs \<subseteq> taken \<and> (\<forall>x\<in>set xs. P x)"

lemma family_ok_take: "family_ok P taken xs \<Longrightarrow> x \<notin> taken \<Longrightarrow> P x \<Longrightarrow> family_ok P (insert x taken) (x # xs)"
  by (auto simp: family_ok_def)

lemma family_ok_more: "family_ok P taken xs \<Longrightarrow> family_ok P (insert x taken) xs"
  by (auto simp: family_ok_def)

lemma family_ok_drop: "family_ok P taken (xs @ x # ys) \<Longrightarrow> family_ok P (taken - {x}) (xs @ ys)"
  by (auto simp: family_ok_def)

definition allowed_v4 :: "('n, 'm) ipnet \<Rightarrow> 'n option \<Rightarrow> u32 \<Rightarrow> bool" where
  "allowed_v4 I n a \<longleftrightarrow> a \<notin> reserved_of I n \<and> (\<forall>net. n = Some net \<longrightarrow> n4_contains I net a)"

definition allowed_v6 :: "('n, 'm) ipnet \<Rightarrow> 'm option \<Rightarrow> u128 \<Rightarrow> bool" where
  "allowed_v6 I m a \<longleftrightarrow> (\<forall>net. m = Some net \<longrightarrow> a \<noteq> n6_network I net + 1)"

definition lease_inv :: "('n, 'm) ipnet \<Rightarrow> 'n option \<Rightarrow> 'm option \<Rightarrow> ('n, 'm) leases \<Rightarrow> bool" where
  "lease_inv I n m = (\<lambda>(p, held).
     ap_ipv4_net p = n \<and> ap_ipv6_net p = m \<and> ap_reserved_v4 p = reserved_of I n \<and>
     ap_reserved_v6 p = (case m of Some net \<Rightarrow> {n6_network I net + 1} | None \<Rightarrow> {}) \<and>
     family_ok (allowed_v4 I n) (ap_allocated_v4 p) (held_by va_ipv4 held) \<and>
     family_ok (allowed_v6 I m) (ap_allocated_v6 p) (held_by va_ipv6 held))"

lemma held_by_simps [simp]:
  "held_by f [] = []" "held_by f (a # held) = (case f a of Some x \<Rightarrow> x # held_by f held | None \<Rightarrow> held_by f held)"
  "held_by f (xs @ ys) = held_by f xs @ held_by f ys"
  by (simp_all add: held_by_def List.map_filter_def split: option.split)

lemma release_inv:
  assumes "lease_inv I n m (p, held)" and "a \<in> set held"
  shows "lease_inv I n m (release p a, remove1 a held)"
proof -
  obtain xs ys where held: "held = xs @ a # ys" and "a \<notin> set xs"
    using assms(2) by (meson split_list_first)
  then have rm: "remove1 a held = xs @ ys" by (simp add: remove1_append)
  have "lease_inv I n m (p, xs @ a # ys)" using assms(1) by (simp add: held)
  then show ?thesis
    unfolding rm by (auto simp: lease_inv_def release_def Let_def intro: family_ok_drop split: option.splits)
qed

lemma host_range_contained:
  assumes "ipnet_laws I" and "n4_prefix_len I net \<le> 30" and "a \<in> host_range I net"
  shows "n4_contains I net a"
proof -
  have "n4_network I net \<le> a" "a \<le> n4_broadcast I net"
    using assms(3) net4_shape [OF assms(1,2)] by (auto simp: host_range_def word_le_nat_alt word_less_nat_alt)
  with assms(1) show ?thesis by (simp add: ipnet_laws_def)
qed

text \<open>One family at a time: a successful step hands out an allowed address that was not taken.\<close>

definition with_v4 :: "u32 option \<Rightarrow> ('n, 'm) AddressPool \<Rightarrow> ('n, 'm) AddressPool" where
  "with_v4 x p = (case x of Some a \<Rightarrow> p\<lparr>ap_allocated_v4 := insert a (ap_allocated_v4 p)\<rparr> | None \<Rightarrow> p)"

definition with_v6 :: "u128 option \<Rightarrow> ('n, 'm) AddressPool \<Rightarrow> ('n, 'm) AddressPool" where
  "with_v6 x p = (case x of Some a \<Rightarrow> p\<lparr>ap_allocated_v6 := insert a (ap_allocated_v6 p)\<rparr> | None \<Rightarrow> p)"

definition free_v4 :: "('n, 'm) ipnet \<Rightarrow> ('n, 'm) AddressPool \<Rightarrow> u32 option \<Rightarrow> bool" where
  "free_v4 I p x \<longleftrightarrow> (\<forall>a. x = Some a \<longrightarrow> a \<notin> ap_allocated_v4 p \<and> a \<notin> ap_reserved_v4 p \<and>
     (\<forall>net. ap_ipv4_net p = Some net \<longrightarrow> n4_contains I net a))"

definition free_v6 :: "('n, 'm) AddressPool \<Rightarrow> u128 option \<Rightarrow> bool" where
  "free_v6 p x \<longleftrightarrow> (\<forall>a. x = Some a \<longrightarrow> a \<notin> ap_allocated_v6 p \<and> a \<notin> ap_reserved_v6 p)"

text \<open>What both kinds of allocation do: the address they return was free, and only its parts are taken.\<close>

lemma allocate_effect:
  assumes "ipnet_laws I" and "\<forall>net. ap_ipv4_net p = Some net \<longrightarrow> n4_prefix_len I net \<le> 30"
    and "allocate I p = (r, p')"
  shows "\<exists>x y. free_v4 I p x \<and> free_v6 p y \<and> p' = with_v6 y (with_v4 x p) \<and>
     (\<forall>a. r = Inr a \<longrightarrow> a = \<lparr>va_ipv4 = x, va_ipv6 = y\<rparr>)"
proof -
  obtain r1 p1 where one: "(case ap_ipv4_net p of
            Some net \<Rightarrow> let (r, p) = allocate_v4 I p net in (and_then r (\<lambda>a. Inr (Some a)), p)
          | None \<Rightarrow> (Inr None, p)) = (r1, p1)" by fastforce
  have s1: "\<exists>x. free_v4 I p x \<and> p1 = with_v4 x p \<and> (\<forall>z. r1 = Inr z \<longrightarrow> z = x)"
  proof (cases "ap_ipv4_net p")
    case None
    with one show ?thesis by (intro exI [of _ None]) (auto simp: free_v4_def with_v4_def)
  next
    case (Some net)
    obtain q p2 where q: "allocate_v4 I p net = (q, p2)" by fastforce
    with allocate_v4_result [OF q] one Some assms(2) show ?thesis
      by (auto simp: free_v4_def with_v4_def host_range_contained [OF assms(1)] intro: exI [of _ None])
  qed
  then obtain x where x: "free_v4 I p x" "p1 = with_v4 x p" "\<forall>z. r1 = Inr z \<longrightarrow> z = x" by blast
  have same: "ap_ipv6_net p1 = ap_ipv6_net p" "ap_allocated_v6 p1 = ap_allocated_v6 p" "ap_reserved_v6 p1 = ap_reserved_v6 p"
    using x(2) by (auto simp: with_v4_def split: option.split)
  show ?thesis
  proof (cases r1)
    case (Inl e)
    then have "r = Inl e" "p' = p1" using assms(3) one by (simp_all add: allocate_def)
    with x show ?thesis by (intro exI [of _ x] exI [of _ None]) (simp add: free_v6_def with_v6_def)
  next
    case (Inr z)
    obtain r2 p2 where two: "(case ap_ipv6_net p1 of
            Some net \<Rightarrow> let (r, p) = allocate_v6 I p1 net in (and_then r (\<lambda>a. Inr (Some a)), p)
          | None \<Rightarrow> (Inr None, p1)) = (r2, p2)" by fastforce
    have s2: "\<exists>y. free_v6 p y \<and> p2 = with_v6 y p1 \<and> (\<forall>z. r2 = Inr z \<longrightarrow> z = y)"
    proof (cases "ap_ipv6_net p1")
      case None
      with two show ?thesis by (intro exI [of _ None]) (auto simp: free_v6_def with_v6_def)
    next
      case (Some net)
      obtain q p3 where q: "allocate_v6 I p1 net = (q, p3)" by fastforce
      with allocate_v6_result [OF q] two Some same show ?thesis
        by (auto simp: free_v6_def with_v6_def intro: exI [of _ None])
    qed
    have run: "(r, p') = (case r2 of
        Inl e \<Rightarrow> (Inl e, p2)
      | Inr y \<Rightarrow> if z = None \<and> y = None then (Inl (Err (CoreError.ConfigError ''No address pools configured'')), p2)
                else (Inr \<lparr>va_ipv4 = z, va_ipv6 = y\<rparr>, p2))"
      using assms(3) one two Inr by (simp add: allocate_def split: prod.splits)
    from s2 x run Inr show ?thesis
      by (auto split: sum.splits if_splits)
  qed
qed

lemma specific_effect:
  assumes "allocate_specific I p b = (r, p')"
  shows "\<exists>x y. free_v4 I p x \<and> free_v6 p y \<and> p' = with_v6 y (with_v4 x p) \<and>
     (\<forall>a. r = Inr a \<longrightarrow> a = \<lparr>va_ipv4 = x, va_ipv6 = y\<rparr>)"
proof -
  obtain r1 p1 where one: "(case va_ipv4 b of Some v4 \<Rightarrow> claim_v4 I p v4 | None \<Rightarrow> (Inr (), p)) = (r1, p1)" by fastforce
  obtain r2 p2 where two: "(case va_ipv6 b of Some v6 \<Rightarrow> claim_v6 I p1 v6 | None \<Rightarrow> (Inr (), p1)) = (r2, p2)" by fastforce
  have s1: "\<exists>x. free_v4 I p x \<and> p1 = with_v4 x p \<and> (r1 = Inr () \<longrightarrow> x = va_ipv4 b)"
  proof (cases "va_ipv4 b")
    case None
    with one show ?thesis by (intro exI [of _ None]) (auto simp: free_v4_def with_v4_def)
  next
    case (Some v4)
    with one claim_v4_result [of I p v4 r1 p1] show ?thesis
      by (auto simp: free_v4_def with_v4_def intro: exI [of _ None])
  qed
  then obtain x where x: "free_v4 I p x" "p1 = with_v4 x p" "r1 = Inr () \<longrightarrow> x = va_ipv4 b" by blast
  have same: "ap_ipv6_net p1 = ap_ipv6_net p" "ap_allocated_v6 p1 = ap_allocated_v6 p" "ap_reserved_v6 p1 = ap_reserved_v6 p"
    using x(2) by (auto simp: with_v4_def split: option.split)
  have s2: "\<exists>y. free_v6 p y \<and> p2 = with_v6 y p1 \<and> (r2 = Inr () \<longrightarrow> y = va_ipv6 b)"
  proof (cases "va_ipv6 b")
    case None
    with two show ?thesis by (intro exI [of _ None]) (auto simp: free_v6_def with_v6_def)
  next
    case (Some v6)
    with two claim_v6_result [of I p1 v6 r2 p2] same show ?thesis
      by (auto simp: free_v6_def with_v6_def intro: exI [of _ None])
  qed
  show ?thesis
  proof (cases r1)
    case (Inl e)
    then have "r = Inl e" "p' = p1" using assms one by (simp_all add: allocate_specific_def)
    with x show ?thesis by (intro exI [of _ x] exI [of _ None]) (simp add: free_v6_def with_v6_def)
  next
    case (Inr u)
    have "r = and_then r2 (\<lambda>_. Inr b)" "p' = p2"
      using assms one two Inr by (simp_all add: allocate_specific_def)
    moreover obtain y where "free_v6 p y" "p2 = with_v6 y p1" "r2 = Inr () \<longrightarrow> y = va_ipv6 b" using s2 by blast
    ultimately show ?thesis
      using x Inr by (intro exI [of _ x] exI [of _ y]) (auto simp: res_simps)
  qed
qed

lemma effect_inv:
  assumes inv: "lease_inv I n m (p, held)" and "free_v4 I p x" and "free_v6 p y"
  shows "lease_inv I n m (with_v6 y (with_v4 x p), held)"
    and "lease_inv I n m (with_v6 y (with_v4 x p), \<lparr>va_ipv4 = x, va_ipv6 = y\<rparr> # held)"
proof -
  let ?p = "with_v6 y (with_v4 x p)"
  have fields: "ap_ipv4_net ?p = n" "ap_ipv6_net ?p = m" "ap_reserved_v4 ?p = reserved_of I n"
    "ap_reserved_v6 ?p = (case m of Some net \<Rightarrow> {n6_network I net + 1} | None \<Rightarrow> {})"
    "ap_allocated_v4 ?p = (case x of Some a \<Rightarrow> insert a (ap_allocated_v4 p) | None \<Rightarrow> ap_allocated_v4 p)"
    "ap_allocated_v6 ?p = (case y of Some a \<Rightarrow> insert a (ap_allocated_v6 p) | None \<Rightarrow> ap_allocated_v6 p)"
    using inv by (auto simp: lease_inv_def with_v4_def with_v6_def split: option.split)
  have x: "allowed_v4 I n a \<and> a \<notin> ap_allocated_v4 p" if "x = Some a" for a
    using that assms(2) inv by (auto simp: free_v4_def lease_inv_def allowed_v4_def)
  have y: "allowed_v6 I m a \<and> a \<notin> ap_allocated_v6 p" if "y = Some a" for a
    using that assms(3) inv by (auto simp: free_v6_def lease_inv_def allowed_v6_def split: option.splits)
  have ok: "family_ok (allowed_v4 I n) (ap_allocated_v4 p) (held_by va_ipv4 held)"
    "family_ok (allowed_v6 I m) (ap_allocated_v6 p) (held_by va_ipv6 held)"
    using inv by (simp_all add: lease_inv_def)
  show "lease_inv I n m (?p, held)"
    using ok by (auto simp: lease_inv_def fields family_ok_more split: option.split)
  show "lease_inv I n m (?p, \<lparr>va_ipv4 = x, va_ipv6 = y\<rparr> # held)"
    using ok x y by (auto simp: lease_inv_def fields family_ok_take split: option.split)
qed

text \<open>A pool that \<open>AddressPool::new\<close> accepts.\<close>

lemma AddressPool_new_ok:
  assumes "AddressPool_new I n m = Inr p"
  shows "p = new_unchecked I n m" and "\<forall>net. n = Some net \<longrightarrow> 8 \<le> n4_prefix_len I net \<and> n4_prefix_len I net \<le> 30"
    and "\<forall>net. m = Some net \<longrightarrow> 48 \<le> n6_prefix_len I net \<and> n6_prefix_len I net \<le> 120 \<and>
           \<not> v6_is_multicast (n6_network I net)"
  using assms
  by (auto simp: AddressPool_new_def validate_ipv4_net_def validate_ipv6_net_def Let_def res_simps split: option.splits)

lemma lease_inv_new: "lease_inv I n m (new_unchecked I n m, [])"
  by (simp add: lease_inv_def family_ok_def)

text \<open>The invariant holds with the bound on the prefix that \<open>AddressPool::new\<close> checks.\<close>

definition lease_ok :: "('n, 'm) ipnet \<Rightarrow> 'n option \<Rightarrow> 'm option \<Rightarrow> ('n, 'm) leases \<Rightarrow> bool" where
  "lease_ok I n m s \<longleftrightarrow>
     ipnet_laws I \<and> (\<forall>net. n = Some net \<longrightarrow> n4_prefix_len I net \<le> 30) \<and> lease_inv I n m s"

inductive_cases lease_stepE: "lease_step I s t"

interpretation leases: stepper
  "\<lambda>s. ipnet_laws I \<and> (\<exists>p. AddressPool_new I n m = Inr p \<and> s = (p, []))" "lease_step I" "lease_ok I n m" for I n m
proof unfold_locales
  fix s :: "('a, 'b) leases"
  assume "ipnet_laws I \<and> (\<exists>p. AddressPool_new I n m = Inr p \<and> s = (p, []))"
  then show "lease_ok I n m s"
    using AddressPool_new_ok [of I n m] lease_inv_new [of I n m] by (auto simp: lease_ok_def)
next
  fix s t :: "('a, 'b) leases"
  assume step: "lease_step I s t" and ok: "lease_ok I n m s"
  obtain p held where s: "s = (p, held)" by (cases s)
  have inv: "lease_inv I n m (p, held)" and laws: "ipnet_laws I"
    and pre: "\<forall>net. ap_ipv4_net p = Some net \<longrightarrow> n4_prefix_len I net \<le> 30"
    using ok by (auto simp: lease_ok_def s lease_inv_def)
  have "lease_inv I n m t"
    using step unfolding s
  proof (cases rule: lease_step.cases)
    case (lease_allocate a p')
    with allocate_effect [OF laws pre lease_allocate(2)] effect_inv(2) [OF inv] show ?thesis by auto
  next
    case (lease_allocate_fails e p')
    with allocate_effect [OF laws pre lease_allocate_fails(2)] effect_inv(1) [OF inv] show ?thesis by auto
  next
    case (lease_specific a b p')
    with specific_effect [OF lease_specific(2)] effect_inv(2) [OF inv] show ?thesis by auto
  next
    case (lease_specific_fails a e p')
    with specific_effect [OF lease_specific_fails(2)] effect_inv(1) [OF inv] show ?thesis by auto
  next
    case (lease_release a)
    with release_inv [OF inv] show ?thesis by auto
  qed
  with ok show "lease_ok I n m t" by (simp add: lease_ok_def)
qed

section \<open>Counting\<close>

definition free_hosts :: "('n, 'm) ipnet \<Rightarrow> ('n, 'm) AddressPool \<Rightarrow> 'n \<Rightarrow> u32 set" where
  "free_hosts I p net = host_range I net - ap_allocated_v4 p"

lemma card_reserved:
  assumes "ipnet_laws I" and "n4_prefix_len I net \<le> 30"
  shows "card (reserved_of I (Some net)) = 3"
proof -
  have "n4_network I net \<noteq> n4_network I net + 1" "n4_network I net \<noteq> n4_broadcast I net"
    "n4_network I net + 1 \<noteq> n4_broadcast I net"
    using net4_shape [OF assms] by (auto simp: word_unat_eq_iff)
  then show ?thesis by (simp add: reserved_of_def card_insert_if)
qed

text \<open>An IPv4 address taken in an allocation whose IPv6 part fails stays taken.\<close>

lemma allocate_leaks_v4:
  assumes "ap_ipv4_net p = Some n" and "ap_ipv6_net p = Some m"
    and "allocate_v4 I p n = (Inr a, p1)" and "fst (allocate_v6 I p m) = Inl e"
  shows "fst (allocate I p) = Inl e \<and> a \<notin> ap_allocated_v4 p \<and> a \<in> ap_allocated_v4 (snd (allocate I p))"
proof -
  have p1: "p1 = p\<lparr>ap_allocated_v4 := insert a (ap_allocated_v4 p)\<rparr>" and a: "a \<notin> ap_allocated_v4 p"
    using allocate_v4_result [OF assms(3)] by auto
  have "allocate_v6 I p1 m = (Inl e, p1)"
    using assms(4) unfolding p1 by (auto simp: allocate_v6_def Let_def split: option.splits)
  then show ?thesis
    using assms(1-3) a p1 by (simp add: allocate_def Let_def)
qed

lemma below_multicast:
  assumes "\<not> v6_is_multicast a"
  shows "unat a + 65536 < 2 ^ 128"
proof -
  have "unat a div 2 ^ 120 \<noteq> 255"
  proof
    assume eq: "unat a div 2 ^ 120 = 255"
    have "unat (drop_bit 120 a) = unat a div 2 ^ 120"
      by (subst unat_drop_bit_eq) (simp only: drop_bit_eq_div)
    then have "unat (drop_bit 120 a) = 255" using eq by simp
    then have "drop_bit 120 a = 255" by (simp add: word_unat_eq_iff)
    with assms show False by (simp add: v6_is_multicast_def)
  qed
  moreover have "unat a div 2 ^ 120 < 256"
    using unat_bound [of a] by (simp add: less_mult_imp_div_less)
  ultimately have "unat a div 2 ^ 120 < 255" by simp
  then have "unat a < 255 * 2 ^ 120" by (simp add: div_less_iff_less_mult)
  then show ?thesis by simp
qed

section \<open>Properties\<close>

text \<open>Two networks for the witnesses: \<open>10.8.0.0/24\<close> and \<open>fd00::/120\<close>.\<close>

definition sample_nets :: "(unit, unit) ipnet" where
  "sample_nets =
     \<lparr>n4_prefix_len = (\<lambda>_. 24), n4_network = (\<lambda>_. 0x0A080000), n4_broadcast = (\<lambda>_. 0x0A0800FF),
      n4_contains = (\<lambda>_ a. 0x0A080000 \<le> a \<and> a \<le> 0x0A0800FF), n4_hosts_count = (\<lambda>_. 254),
      n4_show = (\<lambda>_. ''10.8.0.0/24''),
      n6_prefix_len = (\<lambda>_. 120), n6_network = (\<lambda>_. 0xfd000000000000000000000000000000),
      n6_contains = (\<lambda>_ a. 0xfd000000000000000000000000000000 \<le> a \<and> a \<le> 0xfd0000000000000000000000000000ff),
      n6_show = (\<lambda>_. ''fd00::/120''), v6_show = (\<lambda>_. []),
      parse_ipnet = (\<lambda>s. None)\<rparr>"

lemma sample_nets_laws: "ipnet_laws sample_nets"
  by (auto simp: ipnet_laws_def sample_nets_def word_le_nat_alt)

lemma sample_pool: "AddressPool_new sample_nets (Some ()) (Some ()) = Inr (new_unchecked sample_nets (Some ()) (Some ()))"
proof -
  have "validate_ipv4_net sample_nets () = Inr ()" by code_simp
  moreover have "validate_ipv6_net sample_nets () = Inr ()" by code_simp
  ultimately show ?thesis by (simp add: AddressPool_new_def)
qed

text \<open>
  C22. The pool never assigns an address twice. From a new pool, after any sequence of automatic and
  static allocations, failed ones included, and releases of held addresses, the IPv4 addresses
  that clients hold are distinct, and so are the IPv6 addresses; every IPv4 address lies in the
  network and is neither the network, the gateway nor the broadcast address, and no IPv6 address
  is the gateway.
\<close>

theorem pool_leases_distinct:
  assumes "ipnet_laws I" and "AddressPool_new I n m = Inr p0" and "(lease_step I)\<^sup>*\<^sup>* (p0, []) (p, held)"
  shows "distinct (held_by va_ipv4 held) \<and> distinct (held_by va_ipv6 held) \<and>
     list_all (allowed_v4 I n) (held_by va_ipv4 held) \<and> list_all (allowed_v6 I m) (held_by va_ipv6 held)"
proof -
  have "lease_ok I n m (p, held)"
    by (rule leases.inv_reachable [OF _ assms(3)]) (use assms(1,2) in blast)
  then show ?thesis
    by (simp add: lease_ok_def lease_inv_def family_ok_def list_all_iff)
qed

theorem pool_leases_distinct_witness:
  "\<exists>p held. (lease_step sample_nets)\<^sup>*\<^sup>* (new_unchecked sample_nets (Some ()) (Some ()), []) (p, held) \<and>
     held_by va_ipv4 held = [0x0A080002] \<and> distinct (held_by va_ipv4 held) \<and>
     list_all (allowed_v4 sample_nets (Some ())) (held_by va_ipv4 held)"
proof -
  let ?p0 = "new_unchecked sample_nets (Some ()) (Some ())"
  obtain p1 where p1: "allocate_v4 sample_nets ?p0 () = (Inr 0x0A080002, p1)"
    by (simp add: allocate_v4_def first_free.simps reserved_of_def sample_nets_def)
  then have "ap_ipv6_net p1 = Some ()" using allocate_v4_result [OF p1] by auto
  moreover obtain b p where "allocate_v6 sample_nets p1 () = (Inr b, p)"
    using allocate_v4_result [OF p1] by (auto simp: allocate_v6_def first_free.simps sample_nets_def)
  ultimately obtain p a where a: "allocate sample_nets ?p0 = (Inr a, p)" "va_ipv4 a = Some 0x0A080002"
    using p1 by (simp add: allocate_def)
  have reach: "(lease_step sample_nets)\<^sup>*\<^sup>* (?p0, []) (p, [a])"
    by (rule r_into_rtranclp) (rule lease_allocate [OF a(1)])
  from pool_leases_distinct [OF sample_nets_laws sample_pool reach] reach a(2) show ?thesis
    by (intro exI [of _ p] exI [of _ "[a]"]) simp
qed

text \<open>
  C23. Allocation of an IPv4 address takes the lowest free host address, from the one after the
  gateway up to the one before the broadcast address, and reports exhaustion, changing nothing,
  exactly when all of them are taken.
\<close>

theorem allocate_v4_lowest_free:
  assumes "ipnet_laws I" and "n4_prefix_len I net \<le> 30" and "ap_reserved_v4 p = reserved_of I (Some net)"
  shows "allocate_v4 I p net =
     (if free_hosts I p net = {} then (Inl (Err AddressPoolExhausted), p)
      else (Inr (Min (free_hosts I p net)),
            p\<lparr>ap_allocated_v4 := insert (Min (free_hosts I p net)) (ap_allocated_v4 p)\<rparr>))"
proof -
  have F: "{y. n4_network I net + 2 \<le> y \<and> y < n4_broadcast I net \<and> \<not> (y \<in> ap_reserved_v4 p \<or> y \<in> ap_allocated_v4 p)}
      = free_hosts I p net"
    using host_range_free [OF assms(1,2)] by (auto simp: free_hosts_def host_range_def assms(3))
  show ?thesis
    unfolding allocate_v4_def Let_def first_free_Min F by simp
qed

theorem allocate_v4_lowest_free_witness:
  "fst (allocate_v4 sample_nets (new_unchecked sample_nets (Some ()) None) ()) \<noteq> Inl (Err AddressPoolExhausted)"
proof -
  have "0x0A080002 \<in> free_hosts sample_nets (new_unchecked sample_nets (Some ()) None) ()"
    by (simp add: free_hosts_def host_range_def sample_nets_def)
  then show ?thesis
    using allocate_v4_lowest_free [OF sample_nets_laws, of "()" "new_unchecked sample_nets (Some ()) None"]
    by (auto simp: sample_nets_def)
qed

text \<open>
  The pool's count of available IPv4 addresses is two too low: it subtracts the network and
  the broadcast address from a total that does not contain them. With two addresses left it
  reports none.
\<close>

theorem available_v4_undercounts:
  assumes "ipnet_laws I" and "n4_prefix_len I net \<le> 30" and "ap_ipv4_net p = Some net"
    and "ap_reserved_v4 p = reserved_of I (Some net)" and "ap_allocated_v4 p \<subseteq> host_range I net"
    and "2 \<le> card (free_hosts I p net)"
  shows "available_v4 I p + 2 = card (free_hosts I p net)"
proof -
  have "card (free_hosts I p net) = 2 ^ (32 - n4_prefix_len I net) - 3 - card (ap_allocated_v4 p)"
    using assms(5) by (simp add: free_hosts_def card_Diff_subset card_host_range [OF assms(1,2)])
  moreover have "n4_hosts_count I net = 2 ^ (32 - n4_prefix_len I net) - 2"
    using assms(1,2) by (simp add: ipnet_laws_def)
  then have "available_v4 I p = 2 ^ (32 - n4_prefix_len I net) - 2 - 3 - card (ap_allocated_v4 p)"
    using assms(3,4) card_reserved [OF assms(1,2)] by (simp add: available_v4_def Let_def)
  ultimately show ?thesis
    using assms(6) by linarith
qed

theorem available_v4_undercounts_witness:
  "available_v4 sample_nets (new_unchecked sample_nets (Some ()) None) + 2 = 253"
proof -
  let ?p = "new_unchecked sample_nets (Some ()) None"
  have pre: "n4_prefix_len sample_nets () = 24" by (simp add: sample_nets_def)
  have "card (free_hosts sample_nets ?p ()) = 253"
    using card_host_range [OF sample_nets_laws, of "()"] by (simp add: free_hosts_def pre)
  with available_v4_undercounts [OF sample_nets_laws, of "()" ?p] pre show ?thesis by simp
qed

text \<open>
  An IPv6 pool with a prefix longer than 112 bits hands out addresses outside its network:
  once the addresses of the network are taken, the next allocation returns one that the network
  does not contain.
\<close>

theorem allocate_v6_leaves_network:
  assumes "ipnet_laws I" and "112 < n6_prefix_len I net" and "n6_prefix_len I net \<le> 120"
    and "\<not> v6_is_multicast (n6_network I net)" and "ap_reserved_v6 p = {n6_network I net + 1}"
    and "ap_allocated_v6 p = {a. n6_contains I net a \<and> n6_network I net + 2 \<le> a}"
  shows "\<exists>a p'. allocate_v6 I p net = (Inr a, p') \<and> \<not> n6_contains I net a"
proof -
  let ?N = "unat (n6_network I net)" and ?k = "128 - n6_prefix_len I net"
  let ?taken = "\<lambda>addr. addr \<in> ap_reserved_v6 p \<or> addr \<in> ap_allocated_v6 p"
  have cont: "n6_contains I net a \<longleftrightarrow> n6_network I net \<le> a \<and> unat a < ?N + 2 ^ ?k" for a
    using assms(1) by (simp add: ipnet_laws_def)
  have "?k \<le> 15" "8 \<le> ?k" using assms(2,3) by linarith+
  then have "(2 :: nat) ^ ?k \<le> 2 ^ 15" "(2 :: nat) ^ 8 \<le> 2 ^ ?k" by (intro power_increasing; simp)+
  then have k: "(2 :: nat) ^ ?k \<le> 32768" "256 \<le> (2 :: nat) ^ ?k" by simp_all
  have low: "?N + 65536 < 2 ^ 128" by (rule below_multicast [OF assms(4)])
  then have start: "unat (n6_network I net + 2) = ?N + 2" and stop: "unat (n6_network I net + 2 + 65534) = ?N + 65536"
    and gw: "unat (n6_network I net + 1) = ?N + 1"
    by (simp_all add: unat_word_ariths)
  define b :: u128 where "b = of_nat (?N + 2 ^ ?k)"
  have "?N + 2 ^ ?k < 2 ^ 128" using k low by linarith
  then have b: "unat b = ?N + 2 ^ ?k"
    unfolding b_def by (simp add: unsigned_of_nat take_bit_nat_eq_self del: of_nat_add)
  have "n6_network I net + 2 \<le> b" "b < n6_network I net + 2 + 65534"
    using k unfolding word_le_nat_alt word_less_nat_alt start stop b by simp_all
  moreover have "\<not> ?taken b"
    using k by (auto simp: assms(5,6) cont b word_unat_eq_iff gw)
  ultimately have "first_free ?taken (n6_network I net + 2) (n6_network I net + 2 + 65534) \<noteq> None"
    using first_free_None by blast
  then obtain a where a: "first_free ?taken (n6_network I net + 2) (n6_network I net + 2 + 65534) = Some a" by blast
  with first_free_Some [OF a] assms(6) show ?thesis
    by (auto simp: allocate_v6_def Let_def)
qed

theorem allocate_v6_leaves_network_witness:
  "let p = (new_unchecked sample_nets None (Some ()))
     \<lparr>ap_allocated_v6 := {a. n6_contains sample_nets () a \<and> n6_network sample_nets () + 2 \<le> a}\<rparr>
   in \<exists>a p'. allocate_v6 sample_nets p () = (Inr a, p') \<and> \<not> n6_contains sample_nets () a"
proof -
  have "n6_prefix_len sample_nets () = 120" by (simp add: sample_nets_def)
  moreover have "\<not> v6_is_multicast (n6_network sample_nets ())" by code_simp
  ultimately show ?thesis
    unfolding Let_def by (intro allocate_v6_leaves_network [OF sample_nets_laws]) simp_all
qed

end
