(* ===== verification/Users.thy ===== *)
theory Users
  imports Address_Pool
begin

text \<open>
  \<open>crates/corevpn-core/src/user.rs\<close>: users, roles, groups and the in-memory user store. Times are
  nanoseconds as integers and the clock is the argument \<open>now\<close>. \<open>str::to_lowercase\<close>, a table of the
  Unicode standard, is the argument \<open>lower\<close>, a random UUID the argument \<open>uuid\<close>.
\<close>

type_synonym date_time = int
type_synonym time_delta = int

section \<open>Users\<close>

datatype UserId = UserId (user_str: string)

definition UserId_new :: "string \<Rightarrow> UserId" where
  "UserId_new s = UserId s"

definition UserId_from_email :: "(string \<Rightarrow> string) \<Rightarrow> string \<Rightarrow> UserId" where
  "UserId_from_email lower email = UserId (lower email)"

definition UserId_random :: "string \<Rightarrow> UserId" where
  "UserId_random uuid = UserId uuid"

datatype UserRole = Admin | User_role | Limited | ReadOnly | Custom string

definition UserRole_default :: UserRole where "UserRole_default = User_role"

record ('n, 'm) User =
  us_id :: UserId
  us_email :: "string option"
  us_name :: "string option"
  us_role :: UserRole
  us_enabled :: bool
  us_oauth_provider :: "string option"
  us_oauth_subject :: "string option"
  us_groups :: "string list"
  us_static_ip :: "VpnAddress option"
  us_custom_routes :: "('n, 'm) Route list"
  us_max_sessions :: u32
  us_created_at :: date_time
  us_last_login :: "date_time option"
  us_expires_at :: "date_time option"
  us_metadata :: "(string \<times> string) list"

definition User_new :: "date_time \<Rightarrow> UserId \<Rightarrow> ('n, 'm) User" where
  "User_new now uid =
     \<lparr>us_id = uid, us_email = None, us_name = None, us_role = UserRole_default, us_enabled = True,
      us_oauth_provider = None, us_oauth_subject = None, us_groups = [], us_static_ip = None,
      us_custom_routes = [], us_max_sessions = 3, us_created_at = now, us_last_login = None,
      us_expires_at = None, us_metadata = []\<rparr>"

definition from_oauth ::
    "(string \<Rightarrow> string) \<Rightarrow> date_time \<Rightarrow> date_time \<Rightarrow> string \<Rightarrow> string \<Rightarrow> string option \<Rightarrow> string option \<Rightarrow> string list
       \<Rightarrow> ('n, 'm) User" where
  "from_oauth lower now now' provider subject email name groups =
     (let uid = (case map_option (UserId_from_email lower) email of
            Some u \<Rightarrow> u
          | None \<Rightarrow> UserId_new (provider @ '':'' @ subject))
      in \<lparr>us_id = uid, us_email = email, us_name = name, us_role = User_role, us_enabled = True,
          us_oauth_provider = Some provider, us_oauth_subject = Some subject, us_groups = groups,
          us_static_ip = None, us_custom_routes = [], us_max_sessions = 3, us_created_at = now,
          us_last_login = Some now', us_expires_at = None, us_metadata = []\<rparr>)"

definition User_is_expired :: "date_time \<Rightarrow> ('n, 'm) User \<Rightarrow> bool" where
  "User_is_expired now u = (case us_expires_at u of Some e \<Rightarrow> now > e | None \<Rightarrow> False)"

definition can_connect :: "date_time \<Rightarrow> ('n, 'm) User \<Rightarrow> bool" where
  "can_connect now u \<longleftrightarrow> us_enabled u \<and> \<not> User_is_expired now u"

definition in_group :: "('n, 'm) User \<Rightarrow> string \<Rightarrow> bool" where
  "in_group u grp \<longleftrightarrow> list_ex (\<lambda>g. g = grp) (us_groups u)"

definition is_admin :: "('n, 'm) User \<Rightarrow> bool" where
  "is_admin u = (case us_role u of Admin \<Rightarrow> True | _ \<Rightarrow> False)"

definition record_login :: "date_time \<Rightarrow> ('n, 'm) User \<Rightarrow> ('n, 'm) User" where
  "record_login now u = u\<lparr>us_last_login := Some now\<rparr>"

definition with_email :: "('n, 'm) User \<Rightarrow> string \<Rightarrow> ('n, 'm) User" where
  "with_email u email = u\<lparr>us_email := Some email\<rparr>"

definition with_name :: "('n, 'm) User \<Rightarrow> string \<Rightarrow> ('n, 'm) User" where
  "with_name u name = u\<lparr>us_name := Some name\<rparr>"

definition with_role :: "('n, 'm) User \<Rightarrow> UserRole \<Rightarrow> ('n, 'm) User" where
  "with_role u role = u\<lparr>us_role := role\<rparr>"

definition add_group :: "('n, 'm) User \<Rightarrow> string \<Rightarrow> ('n, 'm) User" where
  "add_group u grp = (if \<not> in_group u grp then u\<lparr>us_groups := us_groups u @ [grp]\<rparr> else u)"

definition remove_group :: "('n, 'm) User \<Rightarrow> string \<Rightarrow> ('n, 'm) User" where
  "remove_group u grp = u\<lparr>us_groups := filter (\<lambda>g. g \<noteq> grp) (us_groups u)\<rparr>"

section \<open>The in-memory store\<close>

type_synonym ('n, 'm) MemoryUserStore = "(UserId \<times> ('n, 'm) User) list"

definition MemoryUserStore_new :: "('n, 'm) MemoryUserStore" where
  "MemoryUserStore_new = []"

definition get_user :: "('n, 'm) MemoryUserStore \<Rightarrow> UserId \<Rightarrow> ('n, 'm) User option" where
  "get_user users uid = map_of users uid"

definition get_user_by_email ::
    "(string \<Rightarrow> string) \<Rightarrow> ('n, 'm) MemoryUserStore \<Rightarrow> string \<Rightarrow> ('n, 'm) User option" where
  "get_user_by_email lower users email =
     (let email_lower = lower email in
      List.find (\<lambda>u. map_option lower (us_email u) = Some email_lower) (map snd users))"

definition get_user_by_oauth :: "('n, 'm) MemoryUserStore \<Rightarrow> string \<Rightarrow> string \<Rightarrow> ('n, 'm) User option" where
  "get_user_by_oauth users provider subject =
     List.find (\<lambda>u. us_oauth_provider u = Some provider \<and> us_oauth_subject u = Some subject) (map snd users)"

definition upsert_user :: "('n, 'm) MemoryUserStore \<Rightarrow> ('n, 'm) User \<Rightarrow> ('n, 'm) MemoryUserStore" where
  "upsert_user users u = AList.update (us_id u) u users"

definition delete_user :: "('n, 'm) MemoryUserStore \<Rightarrow> UserId \<Rightarrow> ('n, 'm) MemoryUserStore" where
  "delete_user users uid = AList.delete uid users"

definition list_users :: "('n, 'm) MemoryUserStore \<Rightarrow> ('n, 'm) User list" where
  "list_users users = map snd users"

definition get_users_in_group :: "('n, 'm) MemoryUserStore \<Rightarrow> string \<Rightarrow> ('n, 'm) User list" where
  "get_users_in_group users grp = filter (\<lambda>u. in_group u grp) (map snd users)"

section \<open>Lemmas\<close>

text \<open>Groups behave as a set without repetition.\<close>

lemma in_group_add: "in_group (add_group u g) h \<longleftrightarrow> h = g \<or> in_group u h"
  by (auto simp: add_group_def in_group_def list_ex_iff)

lemma in_group_remove: "in_group (remove_group u g) h \<longleftrightarrow> h \<noteq> g \<and> in_group u h"
  by (auto simp: remove_group_def in_group_def list_ex_iff)

lemma distinct_groups:
  "distinct (us_groups u) \<Longrightarrow> distinct (us_groups (add_group u g)) \<and> distinct (us_groups (remove_group u g))"
  by (auto simp: add_group_def remove_group_def in_group_def list_ex_iff)

text \<open>The store maps every id to a user of this id.\<close>

definition store_ok :: "('n, 'm) MemoryUserStore \<Rightarrow> bool" where
  "store_ok users \<longleftrightarrow> hm_wf users \<and> (\<forall>uid u. map_of users uid = Some u \<longrightarrow> us_id u = uid)"

inductive store_step :: "('n, 'm) MemoryUserStore \<Rightarrow> ('n, 'm) MemoryUserStore \<Rightarrow> bool" where
  step_upsert: "store_step users (upsert_user users u)"
| step_delete: "store_step users (delete_user users uid)"

interpretation store: stepper "\<lambda>users. users = MemoryUserStore_new" store_step store_ok
proof unfold_locales
  fix users users' :: "('a, 'b) MemoryUserStore"
  assume "store_step users users'" and "store_ok users"
  then show "store_ok users'"
    by cases (auto simp: store_ok_def upsert_user_def delete_user_def hm.wf_put hm.wf_remove hm.lookup_put
        hm.lookup_remove split: if_splits)
qed (simp add: store_ok_def MemoryUserStore_new_def hm_wf_def)

lemma find_Some_mem: "List.find P xs = Some x \<Longrightarrow> x \<in> set xs \<and> P x"
  by (induction xs) (auto split: if_splits)

lemma find_None: "List.find P xs = None \<longleftrightarrow> (\<forall>x\<in>set xs. \<not> P x)"
  by (induction xs) auto

lemma store_values:
  assumes "store_ok users"
  shows "u \<in> set (map snd users) \<longleftrightarrow> get_user users (us_id u) = Some u"
proof
  assume "u \<in> set (map snd users)"
  then obtain uid where "(uid, u) \<in> set users" by auto
  then have "map_of users uid = Some u" using assms by (simp add: store_ok_def hm_wf_def)
  with assms show "get_user users (us_id u) = Some u" by (auto simp: store_ok_def get_user_def)
next
  assume "get_user users (us_id u) = Some u"
  from map_of_SomeD [OF this [unfolded get_user_def]] show "u \<in> set (map snd users)" by (auto intro: rev_image_eqI)
qed

text \<open>What the store finds is what it holds, and it finds something whenever there is something.\<close>

lemma lookup_by_email:
  assumes "store_ok users"
  shows "get_user_by_email lower users e = Some u \<Longrightarrow>
      get_user users (us_id u) = Some u \<and> map_option lower (us_email u) = Some (lower e)"
    and "get_user users uid = Some v \<Longrightarrow> map_option lower (us_email v) = Some (lower e) \<Longrightarrow>
      get_user_by_email lower users e \<noteq> None"
proof -
  show "get_user users (us_id u) = Some u \<and> map_option lower (us_email u) = Some (lower e)"
    if "get_user_by_email lower users e = Some u"
    using find_Some_mem [OF that [unfolded get_user_by_email_def Let_def]] store_values [OF assms, of u] by blast
  show "get_user_by_email lower users e \<noteq> None"
    if v: "get_user users uid = Some v" "map_option lower (us_email v) = Some (lower e)"
  proof -
    have "v \<in> set (map snd users)"
      using map_of_SomeD [OF v(1) [unfolded get_user_def]] by (auto intro: rev_image_eqI)
    with v(2) show ?thesis unfolding get_user_by_email_def Let_def find_None by blast
  qed
qed

end
