(* ===== verification/Core_Sessions.thy ===== *)
theory Core_Sessions
  imports Users
begin

text \<open>
  \<open>crates/corevpn-core/src/session.rs\<close>: the VPN session with its state machine and the session
  manager. A session id is the 16 bytes of a UUID; the random id of a new session and the clock
  are arguments, and so is the printing of a UUID, which belongs to another crate.
\<close>

section \<open>Sessions\<close>

type_synonym SessionId = bytes

datatype SessionState = Connecting | Handshaking | Authenticating | Active | Disconnecting | Terminated

fun SessionState_fmt :: "SessionState \<Rightarrow> string" where
  "SessionState_fmt Connecting = ''Connecting''"
| "SessionState_fmt Handshaking = ''Handshaking''"
| "SessionState_fmt Authenticating = ''Authenticating''"
| "SessionState_fmt Active = ''Active''"
| "SessionState_fmt Disconnecting = ''Disconnecting''"
| "SessionState_fmt Terminated = ''Terminated''"

record Session =
  se_id :: SessionId
  se_user_id :: "UserId option"
  se_state :: SessionState
  se_vpn_address :: "VpnAddress option"
  se_client_ip :: IpAddr
  se_client_port :: u16
  se_created_at :: date_time
  se_last_activity :: date_time
  se_expires_at :: date_time
  se_bytes_rx :: u64
  se_bytes_tx :: u64
  se_packets_rx :: u64
  se_packets_tx :: u64
  se_client_version :: "string option"
  se_oauth_token :: "string option"

definition Session_new :: "SessionId \<Rightarrow> date_time \<Rightarrow> IpAddr \<Rightarrow> u16 \<Rightarrow> time_delta \<Rightarrow> Session" where
  "Session_new sid now client_ip client_port lifetime =
     \<lparr>se_id = sid, se_user_id = None, se_state = Connecting, se_vpn_address = None,
      se_client_ip = client_ip, se_client_port = client_port, se_created_at = now,
      se_last_activity = now, se_expires_at = now + lifetime, se_bytes_rx = 0, se_bytes_tx = 0,
      se_packets_rx = 0, se_packets_tx = 0, se_client_version = None, se_oauth_token = None\<rparr>"

definition Session_is_expired :: "date_time \<Rightarrow> Session \<Rightarrow> bool" where
  "Session_is_expired now s \<longleftrightarrow> now > se_expires_at s"

definition is_active :: "date_time \<Rightarrow> Session \<Rightarrow> bool" where
  "is_active now s \<longleftrightarrow> se_state s = Active \<and> \<not> Session_is_expired now s"

definition touch :: "date_time \<Rightarrow> Session \<Rightarrow> Session" where
  "touch now s = s\<lparr>se_last_activity := now\<rparr>"

definition record_rx :: "date_time \<Rightarrow> Session \<Rightarrow> u64 \<Rightarrow> Session" where
  "record_rx now s n =
     touch now (s\<lparr>se_bytes_rx := se_bytes_rx s + n, se_packets_rx := se_packets_rx s + 1\<rparr>)"

definition record_tx :: "date_time \<Rightarrow> Session \<Rightarrow> u64 \<Rightarrow> Session" where
  "record_tx now s n =
     touch now (s\<lparr>se_bytes_tx := se_bytes_tx s + n, se_packets_tx := se_packets_tx s + 1\<rparr>)"

fun valid_transition :: "SessionState \<Rightarrow> SessionState \<Rightarrow> bool" where
  "valid_transition Connecting Handshaking = True"
| "valid_transition Handshaking Authenticating = True"
| "valid_transition Authenticating Active = True"
| "valid_transition Active Disconnecting = True"
| "valid_transition _ Terminated = True"
| "valid_transition _ _ = False"

definition transition :: "Session \<Rightarrow> SessionState \<Rightarrow> (CoreError, unit) res \<times> Session" where
  "transition s new_state =
     (if valid_transition (se_state s) new_state then (Inr (), s\<lparr>se_state := new_state\<rparr>)
      else (Inl (Err (CoreError.Internal (''Invalid state transition: '' @ SessionState_fmt (se_state s) @ '' -> ''
             @ SessionState_fmt new_state))), s))"

definition duration_of :: "date_time \<Rightarrow> Session \<Rightarrow> time_delta" where
  "duration_of now s = now - se_created_at s"

definition idle_time_of :: "date_time \<Rightarrow> Session \<Rightarrow> time_delta" where
  "idle_time_of now s = now - se_last_activity s"

definition extend_session :: "date_time \<Rightarrow> Session \<Rightarrow> time_delta \<Rightarrow> Session" where
  "extend_session now s d = s\<lparr>se_expires_at := now + d\<rparr>"

section \<open>The session manager\<close>

record SessionManager =
  sm_sessions :: "(SessionId \<times> Session) list"
  sm_max_sessions :: nat
  sm_default_lifetime :: time_delta

definition SessionManager_new :: "nat \<Rightarrow> time_delta \<Rightarrow> SessionManager" where
  "SessionManager_new max_sessions default_lifetime =
     \<lparr>sm_sessions = [], sm_max_sessions = max_sessions, sm_default_lifetime = default_lifetime\<rparr>"

definition create_session ::
    "SessionManager \<Rightarrow> SessionId \<Rightarrow> date_time \<Rightarrow> IpAddr \<Rightarrow> u16 \<Rightarrow> (CoreError, Session) res \<times> SessionManager" where
  "create_session m sid now client_ip client_port =
     (let m = (if length (sm_sessions m) \<ge> sm_max_sessions m
               then m\<lparr>sm_sessions := hm_retain (\<lambda>_ s. \<not> Session_is_expired now s) (sm_sessions m)\<rparr> else m)
      in if length (sm_sessions m) \<ge> sm_max_sessions m
         then (Inl (Err (CoreError.Internal ''Maximum sessions reached'')), m)
         else
           let session = Session_new sid now client_ip client_port (sm_default_lifetime m)
           in (Inr session, m\<lparr>sm_sessions := AList.update (se_id session) session (sm_sessions m)\<rparr>))"

definition get_session :: "SessionManager \<Rightarrow> SessionId \<Rightarrow> Session option" where
  "get_session m sid = map_of (sm_sessions m) sid"

definition update_session ::
    "(SessionId \<Rightarrow> string) \<Rightarrow> SessionManager \<Rightarrow> Session \<Rightarrow> (CoreError, unit) res \<times> SessionManager" where
  "update_session show_uuid m session =
     (case map_of (sm_sessions m) (se_id session) of
        Some _ \<Rightarrow> (Inr (), m\<lparr>sm_sessions := AList.update (se_id session) session (sm_sessions m)\<rparr>)
      | None \<Rightarrow> (Inl (Err (CoreError.SessionNotFound (show_uuid (se_id session)))), m))"

definition remove_session :: "SessionManager \<Rightarrow> SessionId \<Rightarrow> Session option \<times> SessionManager" where
  "remove_session m sid = (map_of (sm_sessions m) sid, m\<lparr>sm_sessions := AList.delete sid (sm_sessions m)\<rparr>)"

definition active_sessions :: "date_time \<Rightarrow> SessionManager \<Rightarrow> Session list" where
  "active_sessions now m = filter (is_active now) (map snd (sm_sessions m))"

definition session_count :: "SessionManager \<Rightarrow> nat" where
  "session_count m = length (sm_sessions m)"

definition cleanup_expired :: "date_time \<Rightarrow> SessionManager \<Rightarrow> nat \<times> SessionManager" where
  "cleanup_expired now m =
     (let before = length (sm_sessions m);
          m = m\<lparr>sm_sessions := hm_retain (\<lambda>_ s. \<not> Session_is_expired now s) (sm_sessions m)\<rparr>
      in (before - length (sm_sessions m), m))"

definition get_user_sessions :: "SessionManager \<Rightarrow> UserId \<Rightarrow> Session list" where
  "get_user_sessions m uid = filter (\<lambda>s. se_user_id s = Some uid) (map snd (sm_sessions m))"

definition terminate_user_sessions :: "SessionManager \<Rightarrow> UserId \<Rightarrow> nat \<times> SessionManager" where
  "terminate_user_sessions m uid =
     (length (filter (\<lambda>s. se_user_id s = Some uid) (map snd (sm_sessions m))),
      m\<lparr>sm_sessions := map (\<lambda>(k, s). (k, if se_user_id s = Some uid then s\<lparr>se_state := Terminated\<rparr> else s))
                          (sm_sessions m)\<rparr>)"

section \<open>The state machine\<close>

text \<open>A sequence of requested transitions; refused ones change nothing.\<close>

fun transitions :: "Session \<Rightarrow> SessionState list \<Rightarrow> SessionState list \<times> Session" where
  "transitions s [] = ([], s)"
| "transitions s (st # sts) =
     (let (r, s') = transition s st; (done_states, s'') = transitions s' sts
      in (if is_ok r then st # done_states else done_states, s''))"

lemma transition_cases:
  "transition s st = (r, s') \<Longrightarrow>
     (valid_transition (se_state s) st \<and> r = Inr () \<and> s' = s\<lparr>se_state := st\<rparr>) \<or>
     (\<not> valid_transition (se_state s) st \<and> \<not> is_ok r \<and> s' = s)"
  by (auto simp: transition_def is_ok_def split: if_splits)

text \<open>The sequence of accepted states is a path of the state diagram from the first to the last state.\<close>

fun path :: "SessionState \<Rightarrow> SessionState list \<Rightarrow> SessionState \<Rightarrow> bool" where
  "path a [] b = (a = b)"
| "path a (c # cs) b = (valid_transition a c \<and> path c cs b)"

lemma transitions_path: "path (se_state s) (fst (transitions s sts)) (se_state (snd (transitions s sts)))"
proof (induction sts arbitrary: s)
  case (Cons st sts)
  obtain r s' where step: "transition s st = (r, s')" by fastforce
  from transition_cases [OF step] Cons [of s'] show ?case
    by (auto simp: step split_beta is_ok_def)
qed simp

lemma path_from_Terminated: "path Terminated p b \<Longrightarrow> b = Terminated \<and> set p \<subseteq> {Terminated}"
proof (induction p)
  case (Cons c cs)
  then show ?case by (cases c) auto
qed simp

lemma path_from_Disconnecting: "path Disconnecting p b \<Longrightarrow> b = Disconnecting \<or> b = Terminated"
proof (cases p)
  case (Cons c cs)
  assume "path Disconnecting p b"
  with Cons show ?thesis using path_from_Terminated by (cases c) auto
qed simp

lemma path_to_Active:
  "path Active p Active \<Longrightarrow> p = []"
  "path Authenticating p Active \<Longrightarrow> p = [Active]"
  "path Handshaking p Active \<Longrightarrow> p = [Authenticating, Active]"
  "path Connecting p Active \<Longrightarrow> p = [Handshaking, Authenticating, Active]"
proof -
  show a: "p = []" if "path Active p Active" for p
    using that path_from_Terminated path_from_Disconnecting by (cases p rule: list.exhaust; cases "hd p") fastforce+
  show b: "p = [Active]" if "path Authenticating p Active" for p
    using that a path_from_Terminated by (cases p rule: list.exhaust; cases "hd p") fastforce+
  show c: "p = [Authenticating, Active]" if "path Handshaking p Active" for p
    using that b path_from_Terminated by (cases p rule: list.exhaust; cases "hd p") fastforce+
  show "p = [Handshaking, Authenticating, Active]" if "path Connecting p Active" for p
    using that c path_from_Terminated by (cases p rule: list.exhaust; cases "hd p") fastforce+
qed

section \<open>The manager's invariant\<close>

definition manager_ok :: "SessionManager \<Rightarrow> bool" where
  "manager_ok m \<longleftrightarrow> hm_wf (sm_sessions m) \<and> length (sm_sessions m) \<le> sm_max_sessions m \<and>
     (\<forall>sid s. map_of (sm_sessions m) sid = Some s \<longrightarrow> se_id s = sid)"

inductive manager_step :: "SessionManager \<Rightarrow> SessionManager \<Rightarrow> bool" where
  manager_create: "manager_step m (snd (create_session m sid now ip port))"
| manager_update: "manager_step m (snd (update_session show_uuid m s))"
| manager_remove: "manager_step m (snd (remove_session m sid))"
| manager_cleanup: "manager_step m (snd (cleanup_expired now m))"
| manager_terminate: "manager_step m (snd (terminate_user_sessions m uid))"

lemma manager_ok_retain:
  "manager_ok m \<Longrightarrow> manager_ok (m\<lparr>sm_sessions := hm_retain P (sm_sessions m)\<rparr>)"
  using length_hm_retain_le [of P "sm_sessions m"]
  by (auto simp: manager_ok_def hm_wf_retain map_of_hm_retain split: option.splits if_splits)

lemma manager_ok_put:
  "manager_ok m \<Longrightarrow> length (sm_sessions m) < sm_max_sessions m \<or> map_of (sm_sessions m) (se_id s) \<noteq> None \<Longrightarrow>
     manager_ok (m\<lparr>sm_sessions := AList.update (se_id s) s (sm_sessions m)\<rparr>)"
  using hm.size_put_le [of "sm_sessions m" "se_id s" s] hm.size_put_present [of "sm_sessions m" "se_id s" s]
  by (auto simp: manager_ok_def hm.wf_put hm.lookup_put split: if_splits)

lemma map_of_map_values: "map_of (map (\<lambda>(k, v). (k, f v)) m) k = map_option f (map_of m k)"
  by (induction m) auto

interpretation manager: stepper "\<lambda>m. \<exists>n d. m = SessionManager_new n d" manager_step manager_ok
proof unfold_locales
  fix m m'
  assume "manager_step m m'" and ok: "manager_ok m"
  then show "manager_ok m'"
  proof cases
    case (manager_create sid now ip port)
    then show ?thesis
      using manager_ok_retain [OF ok] manager_ok_put ok
      by (auto simp: create_session_def Let_def not_le)
  next
    case (manager_update show_uuid s)
    then show ?thesis
      using ok manager_ok_put [OF ok, of s] by (auto simp: update_session_def split: option.split)
  next
    case (manager_remove sid)
    then show ?thesis
      using ok hm.size_remove_le [of "sm_sessions m" sid]
      by (auto simp: remove_session_def manager_ok_def hm.wf_remove hm.lookup_remove split: if_splits)
  next
    case (manager_cleanup now)
    then show ?thesis using manager_ok_retain [OF ok] by (simp add: cleanup_expired_def Let_def)
  next
    case (manager_terminate uid)
    then show ?thesis
      using ok map_of_map_values [of "\<lambda>s. if se_user_id s = Some uid then s\<lparr>se_state := Terminated\<rparr> else s" "sm_sessions m"]
      by (auto simp: terminate_user_sessions_def manager_ok_def hm_wf_def comp_def split_beta)
  qed
qed (auto simp: manager_ok_def SessionManager_new_def hm_wf_def)

text \<open>The number of sessions that a cleanup would keep.\<close>

definition unexpired :: "date_time \<Rightarrow> SessionManager \<Rightarrow> nat" where
  "unexpired now m = length (filter (\<lambda>s. \<not> Session_is_expired now s) (map snd (sm_sessions m)))"

lemma length_hm_retain: "length (hm_retain (\<lambda>_ v. P v) m) = length (filter P (map snd m))"
  by (induction m) (auto simp: hm_retain_def)

lemma unexpired_le: "unexpired now m \<le> length (sm_sessions m)"
  by (simp add: unexpired_def order.trans [OF length_filter_le])

lemma create_session_ok_iff:
  "is_ok (fst (create_session m sid now ip port)) \<longleftrightarrow> unexpired now m < sm_max_sessions m"
proof (cases "sm_max_sessions m \<le> length (sm_sessions m)")
  case True
  then show ?thesis
    by (auto simp: create_session_def Let_def is_ok_def length_hm_retain unexpired_def)
next
  case False
  with unexpired_le [of now m] show ?thesis by (auto simp: create_session_def Let_def is_ok_def)
qed

lemma create_session_stored:
  assumes "manager_ok m" and "create_session m sid now ip port = (Inr s, m')"
  shows "get_session m' sid = Some s \<and> se_id s = sid \<and> se_state s = Connecting"
proof -
  have "hm_wf (hm_retain P (sm_sessions m))" for P using assms(1) by (simp add: manager_ok_def hm_wf_retain)
  with assms show ?thesis
    by (auto simp: create_session_def get_session_def Let_def hm.lookup_put manager_ok_def Session_new_def
          split: if_splits)
qed

lemma manager_step_max: "manager_step m m' \<Longrightarrow> sm_max_sessions m' = sm_max_sessions m"
  by (cases rule: manager_step.cases, assumption)
     (auto simp: create_session_def update_session_def remove_session_def cleanup_expired_def
       terminate_user_sessions_def Let_def split: option.split)

section \<open>Properties\<close>

text \<open>
  C24. A session becomes active only by handshake and authentication, in this order: whatever
  transitions are requested of a new session, if it ends up active, then exactly the transitions
  to \<open>Handshaking\<close>, \<open>Authenticating\<close> and \<open>Active\<close> were accepted. A session that is then
  terminated stays terminated.
\<close>

theorem active_only_after_authentication:
  assumes "se_state (snd (transitions (Session_new sid now ip port lifetime) sts)) = Active"
  shows "fst (transitions (Session_new sid now ip port lifetime) sts) = [Handshaking, Authenticating, Active] \<and>
     se_state (snd (transitions (snd (transitions (Session_new sid now ip port lifetime) sts)) (Terminated # later)))
       = Terminated"
proof -
  let ?s = "Session_new sid now ip port lifetime" and ?t = "snd (transitions (Session_new sid now ip port lifetime) sts)"
  have "path Connecting (fst (transitions ?s sts)) Active"
    using transitions_path [of ?s sts] assms by (simp add: Session_new_def)
  moreover have "se_state (snd (transitions ?t (Terminated # later))) = Terminated"
    using path_from_Terminated transitions_path [of "?t\<lparr>se_state := Terminated\<rparr>" later] assms
    by (auto simp: transition_def split_beta)
  ultimately show ?thesis by (simp add: path_to_Active)
qed

theorem active_only_after_authentication_witness:
  "let s = Session_new (replicate 16 0) 0 (V4 0x0A000001) 1194 3600;
       sts = [Active, Handshaking, Active, Authenticating, Active]
   in fst (transitions s sts) = [Handshaking, Authenticating, Active] \<and>
      se_state (snd (transitions (snd (transitions s sts)) [Terminated, Active])) = Terminated"
proof -
  let ?s = "Session_new (replicate 16 0) 0 (V4 0x0A000001) 1194 3600"
  have "se_state (snd (transitions ?s [Active, Handshaking, Active, Authenticating, Active])) = Active"
    by (simp add: Session_new_def transition_def)
  from active_only_after_authentication [OF this, of "[Active]"] show ?thesis by simp
qed

text \<open>
  C25. The session limit holds and is not stricter than it says: in every reachable state of the
  manager there are at most \<open>max_sessions\<close> sessions, each stored under its own id; a new session is
  refused exactly when \<open>max_sessions\<close> sessions have not expired, and otherwise is found under its id.
\<close>

theorem session_limit_exact:
  assumes "manager_step\<^sup>*\<^sup>* (SessionManager_new n d) m"
  shows "session_count m \<le> n \<and> (\<forall>k s. get_session m k = Some s \<longrightarrow> se_id s = k) \<and>
     (is_ok (fst (create_session m sid now ip port)) \<longleftrightarrow> unexpired now m < n) \<and>
     (\<forall>s m'. create_session m sid now ip port = (Inr s, m') \<longrightarrow> get_session m' sid = Some s)"
proof -
  have ok: "manager_ok m" by (rule manager.inv_reachable [OF _ assms]) blast
  have "sm_max_sessions m = n"
    using assms by (induction rule: rtranclp_induct) (simp_all add: SessionManager_new_def manager_step_max)
  with ok show ?thesis
    using create_session_ok_iff [of m sid now ip port] create_session_stored [OF ok]
    by (auto simp: manager_ok_def session_count_def get_session_def)
qed

theorem session_limit_exact_witness:
  "\<not> is_ok (fst (create_session (snd (create_session (SessionManager_new 1 60) (replicate 16 1) 0 (V4 1) 1194))
       (replicate 16 2) 60 (V4 2) 1194)) \<and>
   is_ok (fst (create_session (snd (create_session (SessionManager_new 1 60) (replicate 16 1) 0 (V4 1) 1194))
       (replicate 16 2) 61 (V4 2) 1194))"
proof -
  let ?m = "snd (create_session (SessionManager_new 1 60) (replicate 16 1) 0 (V4 1) 1194)"
  have reach: "manager_step\<^sup>*\<^sup>* (SessionManager_new 1 60) ?m"
    by (rule r_into_rtranclp) (rule manager_create)
  have "unexpired 60 ?m = 1" "unexpired 61 ?m = 0"
    by (simp_all add: unexpired_def create_session_def SessionManager_new_def Session_new_def Session_is_expired_def Let_def)
  with session_limit_exact [OF reach] show ?thesis by auto
qed

end
