(* ===== verification/Rate_Limiter.thy ===== *)
theory Rate_Limiter
  imports Users
begin

text \<open>
  The \<open>RateLimiter\<close> of \<open>crates/corevpn-auth/src/session.rs\<close>: a counter per key in windows that start
  with the first attempt. \<open>SystemTime\<close> is a nanosecond count; the clock is the argument \<open>now\<close>.
\<close>

section \<open>The limiter\<close>

record RateLimitEntry =
  re_count :: u32
  re_reset_at :: instant

record RateLimiter =
  rl_max_attempts :: u32
  rl_window :: duration
  rl_entries :: "(string \<times> RateLimitEntry) list"

definition RateLimiter_new :: "u32 \<Rightarrow> duration \<Rightarrow> RateLimiter" where
  "RateLimiter_new max_attempts window =
     \<lparr>rl_max_attempts = max_attempts, rl_window = window, rl_entries = []\<rparr>"

definition check :: "RateLimiter \<Rightarrow> instant \<Rightarrow> string \<Rightarrow> bool \<times> RateLimiter" where
  "check rl now key =
     (let entries = hm_retain (\<lambda>_ entry. re_reset_at entry > now) (rl_entries rl);
          entry = (case map_of entries key of
            Some entry \<Rightarrow> entry
          | None \<Rightarrow> \<lparr>re_count = 0, re_reset_at = now + rl_window rl\<rparr>);
          entry = (if now \<ge> re_reset_at entry
                   then entry\<lparr>re_count := 0, re_reset_at := now + rl_window rl\<rparr> else entry);
          entry = entry\<lparr>re_count := re_count entry + 1\<rparr>;
          allowed = (re_count entry \<le> rl_max_attempts rl)
      in (allowed, rl\<lparr>rl_entries := AList.update key entry entries\<rparr>))"

definition reset_key :: "RateLimiter \<Rightarrow> string \<Rightarrow> RateLimiter" where
  "reset_key rl key = rl\<lparr>rl_entries := AList.delete key (rl_entries rl)\<rparr>"

definition cleanup :: "RateLimiter \<Rightarrow> instant \<Rightarrow> RateLimiter" where
  "cleanup rl now = rl\<lparr>rl_entries := hm_retain (\<lambda>_ entry. re_reset_at entry > now) (rl_entries rl)\<rparr>"

section \<open>One key\<close>

text \<open>What the limiter knows of a key at a time: the entry, if its window is still open.\<close>

definition open_entry :: "RateLimiter \<Rightarrow> string \<Rightarrow> instant \<Rightarrow> RateLimitEntry option" where
  "open_entry rl key now =
     (case map_of (rl_entries rl) key of
        Some e \<Rightarrow> if re_reset_at e > now then Some e else None
      | None \<Rightarrow> None)"

definition limiter_ok :: "RateLimiter \<Rightarrow> bool" where
  "limiter_ok rl \<longleftrightarrow> hm_wf (rl_entries rl)"

lemma open_entry_lookup:
  "limiter_ok rl \<Longrightarrow> map_of (hm_retain (\<lambda>_ e. re_reset_at e > now) (rl_entries rl)) key = open_entry rl key now"
  by (simp add: limiter_ok_def open_entry_def map_of_hm_retain split: option.split)

lemma open_entry_later: "open_entry rl key now = None \<Longrightarrow> now \<le> t \<Longrightarrow> open_entry rl key t = None"
  by (auto simp: open_entry_def split: option.splits if_splits)

text \<open>The entry of the key after a check: one more attempt in the open window, or a new window.\<close>

definition next_entry :: "RateLimiter \<Rightarrow> instant \<Rightarrow> string \<Rightarrow> RateLimitEntry" where
  "next_entry rl now key =
     (case open_entry rl key now of
        Some e \<Rightarrow> e\<lparr>re_count := re_count e + 1\<rparr>
      | None \<Rightarrow> \<lparr>re_count = 1, re_reset_at = now + rl_window rl\<rparr>)"

lemma open_entry_future: "open_entry rl key now = Some e \<Longrightarrow> now < re_reset_at e"
  by (auto simp: open_entry_def split: option.splits if_splits)

lemma check_step:
  assumes "limiter_ok rl"
  shows "check rl now key =
     (re_count (next_entry rl now key) \<le> rl_max_attempts rl,
      rl\<lparr>rl_entries := AList.update key (next_entry rl now key)
            (hm_retain (\<lambda>_ e. re_reset_at e > now) (rl_entries rl))\<rparr>)"
proof (cases "open_entry rl key now")
  case None
  then show ?thesis
    by (simp add: check_def open_entry_lookup [OF assms] next_entry_def Let_def)
next
  case (Some e)
  with open_entry_future [OF Some] show ?thesis
    by (simp add: check_def open_entry_lookup [OF assms] next_entry_def Let_def)
qed

lemma check_keeps:
  assumes "limiter_ok rl"
  shows "limiter_ok (snd (check rl now key))" "rl_window (snd (check rl now key)) = rl_window rl"
    "rl_max_attempts (snd (check rl now key)) = rl_max_attempts rl"
  using assms by (simp_all add: check_step limiter_ok_def hm.wf_put hm_wf_retain)

lemma check_entry:
  assumes "limiter_ok rl" and "now \<le> t"
  shows "open_entry (snd (check rl now key)) k t =
     (if k = key then (if re_reset_at (next_entry rl now key) > t then Some (next_entry rl now key) else None)
      else open_entry rl k t)"
proof -
  have wf: "hm_wf (hm_retain (\<lambda>_ e. re_reset_at e > now) (rl_entries rl))"
    using assms(1) by (simp add: limiter_ok_def hm_wf_retain)
  have "map_of (rl_entries (snd (check rl now key))) =
      (\<lambda>k. open_entry rl k now)(key \<mapsto> next_entry rl now key)"
    using open_entry_lookup [OF assms(1), of now]
    by (simp add: check_step [OF assms(1)] hm.lookup_put [OF wf] fun_eq_iff)
  then show ?thesis
    using assms(2) by (auto simp: open_entry_def split: option.splits if_splits)
qed

section \<open>Runs\<close>

fun check_run :: "RateLimiter \<Rightarrow> (instant \<times> string) list \<Rightarrow> bool list" where
  "check_run rl [] = []"
| "check_run rl ((now, key) # es) = (let (ok, rl') = check rl now key in ok # check_run rl' es)"

text \<open>The number of attempts of a key that are allowed in the time from \<open>a\<close> to before \<open>b\<close>.\<close>

fun allowed_in :: "string \<Rightarrow> instant \<Rightarrow> instant \<Rightarrow> (instant \<times> string) list \<Rightarrow> bool list \<Rightarrow> nat" where
  "allowed_in k a b ((t, key) # es) (ok # oks) =
     (if ok \<and> key = k \<and> a \<le> t \<and> t < b then 1 else 0) + allowed_in k a b es oks"
| "allowed_in k a b _ _ = 0"

definition attempts :: "string \<Rightarrow> (instant \<times> string) list \<Rightarrow> nat" where
  "attempts k es = length (filter (\<lambda>(t, key). key = k) es)"

text \<open>
  How many attempts may still be allowed before \<open>b\<close>: what is left in the open window, and a full
  window if the open one ends before \<open>b\<close>.
\<close>

definition budget :: "RateLimiter \<Rightarrow> string \<Rightarrow> instant \<Rightarrow> instant \<Rightarrow> nat" where
  "budget rl k now b =
     (case open_entry rl k now of
        Some e \<Rightarrow> (unat (rl_max_attempts rl) - unat (re_count e)) +
                  (if re_reset_at e < b then unat (rl_max_attempts rl) else 0)
      | None \<Rightarrow> unat (rl_max_attempts rl))"

lemma allowed_in_late: "\<forall>(t, key)\<in>set es. b \<le> t \<Longrightarrow> allowed_in k a b es oks = 0"
  by (induction k a b es oks rule: allowed_in.induct) auto

lemma open_entry_earlier:
  "open_entry rl k t = Some e \<Longrightarrow> now \<le> t \<Longrightarrow> open_entry rl k now = Some e"
  by (auto simp: open_entry_def split: option.splits if_splits)

text \<open>The attempts counted for a key in its open window.\<close>

definition count_of :: "RateLimiter \<Rightarrow> string \<Rightarrow> instant \<Rightarrow> nat" where
  "count_of rl k now = (case open_entry rl k now of Some e \<Rightarrow> unat (re_count e) | None \<Rightarrow> 0)"

lemma count_of_later: "now \<le> t \<Longrightarrow> count_of rl k t \<le> count_of rl k now"
  using open_entry_earlier [of rl k t _ now] by (cases "open_entry rl k t") (auto simp: count_of_def)

lemma count_of_check:
  assumes "limiter_ok rl" and "t \<le> u" and "Suc (count_of rl k t) < 2 ^ 32"
  shows "count_of (snd (check rl t key)) k u \<le> count_of rl k t + (if key = k then 1 else 0)"
    and "fst (check rl t k) \<longleftrightarrow> Suc (count_of rl k t) \<le> unat (rl_max_attempts rl)"
proof -
  have e: "unat (re_count (next_entry rl t k)) = Suc (count_of rl k t)"
    using assms(3) by (auto simp: next_entry_def count_of_def unat_add_one split: option.splits)
  then show "fst (check rl t k) \<longleftrightarrow> Suc (count_of rl k t) \<le> unat (rl_max_attempts rl)"
    by (simp add: check_step [OF assms(1)] word_le_nat_alt)
  show "count_of (snd (check rl t key)) k u \<le> count_of rl k t + (if key = k then 1 else 0)"
    using e count_of_later [OF assms(2), of rl k]
    by (auto simp: count_of_def check_entry [OF assms(1,2)] split: option.splits)
qed

lemma budget_later:
  assumes "now \<le> t" and "t < b"
  shows "budget rl k t b \<le> budget rl k now b"
proof (cases "open_entry rl k t")
  case None
  then have "re_reset_at e < b" if "open_entry rl k now = Some e" for e
    using that assms(2) by (auto simp: open_entry_def split: option.splits if_splits)
  with None show ?thesis by (auto simp: budget_def split: option.split)
next
  case (Some e)
  with open_entry_earlier [OF Some assms(1)] show ?thesis by (simp add: budget_def)
qed

text \<open>One check of the key costs what it allows.\<close>

lemma budget_check:
  assumes "limiter_ok rl" and "t < b" and "b \<le> t + rl_window rl" and "Suc (count_of rl k t) < 2 ^ 32"
  shows "(if fst (check rl t k) then 1 else 0) + budget (snd (check rl t k)) k t b \<le> budget rl k t b"
proof -
  let ?e = "next_entry rl t k" and ?M = "unat (rl_max_attempts rl)"
  have ok: "fst (check rl t k) \<longleftrightarrow> unat (re_count ?e) \<le> ?M"
    by (simp add: check_step [OF assms(1)] word_le_nat_alt)
  have count: "unat (re_count ?e) = (case open_entry rl k t of Some e \<Rightarrow> Suc (unat (re_count e)) | None \<Rightarrow> 1)"
    using assms(4) by (auto simp: next_entry_def count_of_def unat_add_one split: option.splits)
  have reset: "re_reset_at ?e = (case open_entry rl k t of Some e \<Rightarrow> re_reset_at e | None \<Rightarrow> t + rl_window rl)"
    by (simp add: next_entry_def split: option.split)
  have "re_reset_at ?e > t"
    using assms(2,3) open_entry_future by (auto simp: reset split: option.split)
  then have entry: "open_entry (snd (check rl t k)) k t = Some ?e"
    by (simp add: check_entry [OF assms(1)])
  show ?thesis
    using assms(3) unfolding budget_def entry ok check_keeps(3) [OF assms(1)]
    by (auto simp: count reset split: option.split)
qed

lemma check_other:
  assumes "limiter_ok rl" and "key \<noteq> k"
  shows "budget (snd (check rl t key)) k t b = budget rl k t b"
    and "count_of (snd (check rl t key)) k t = count_of rl k t"
  using assms by (simp_all add: budget_def count_of_def check_entry check_keeps cong: option.case_cong if_cong)

lemma attempts_Cons [simp]: "attempts k ((t, key) # es) = (if key = k then Suc (attempts k es) else attempts k es)"
  by (simp add: attempts_def)

lemma allowed_within_budget:
  "limiter_ok rl \<Longrightarrow> sorted (now # map fst es) \<Longrightarrow> b \<le> now + rl_window rl \<Longrightarrow>
     count_of rl k now + attempts k es < 2 ^ 32 \<Longrightarrow>
     allowed_in k a b es (check_run rl es) \<le> budget rl k now b"
proof (induction es arbitrary: rl now)
  case (Cons ev es)
  obtain t key where ev: "ev = (t, key)" by (cases ev)
  obtain ok rl' where step: "check rl t key = (ok, rl')" by fastforce
  have times: "now \<le> t" "sorted (t # map fst es)" using Cons.prems(2) by (auto simp: ev)
  show ?case
  proof (cases "t < b")
    case False
    then have "\<forall>(t, key)\<in>set (ev # es). b \<le> t" using times by (auto simp: ev)
    then show ?thesis by (simp add: allowed_in_late)
  next
    case True
    have keeps: "limiter_ok rl'" "rl_window rl' = rl_window rl"
      using check_keeps [OF Cons.prems(1), of t key] step by auto
    have count: "count_of rl k t + attempts k (ev # es) < 2 ^ 32"
      using count_of_later [OF times(1), of rl k] Cons.prems(4) by simp
    have b: "b \<le> t + rl_window rl" using Cons.prems(3) times(1) by simp
    have IH: "allowed_in k a b es (check_run rl' es) \<le> budget rl' k t b"
      if "count_of rl' k t + attempts k es < 2 ^ 32"
      by (rule Cons.IH [OF keeps(1) times(2) _ that]) (use b keeps(2) in simp)
    have later: "budget rl k t b \<le> budget rl k now b" by (rule budget_later [OF times(1) \<open>t < b\<close>])
    show ?thesis
    proof (cases "key = k")
      case True
      then have small: "Suc (count_of rl k t) < 2 ^ 32" and n: "Suc (count_of rl k t) + attempts k es < 2 ^ 32"
        using count by (simp_all add: ev)
      have "count_of rl' k t \<le> Suc (count_of rl k t)"
        using count_of_check(1) [OF Cons.prems(1) order_refl small, of key] step True by simp
      with n IH have "allowed_in k a b es (check_run rl' es) \<le> budget rl' k t b" by simp
      with budget_check [OF Cons.prems(1) \<open>t < b\<close> b small] later step True show ?thesis
        by (simp add: ev split: if_splits)
    next
      case False
      with check_other [OF Cons.prems(1) False, of t] IH later count step show ?thesis
        by (simp add: ev)
    qed
  qed
qed simp

text \<open>Attempts before the interval only change the state in which it starts.\<close>

lemma allowed_in_interval:
  "limiter_ok rl \<Longrightarrow> sorted (now # map fst es) \<Longrightarrow> count_of rl k now + attempts k es < 2 ^ 32 \<Longrightarrow>
     allowed_in k a (a + rl_window rl) es (check_run rl es) \<le> 2 * unat (rl_max_attempts rl)"
proof (induction es arbitrary: rl now)
  case (Cons ev es)
  obtain t key where ev: "ev = (t, key)" by (cases ev)
  obtain ok rl' where step: "check rl t key = (ok, rl')" by fastforce
  have times: "now \<le> t" "sorted (t # map fst es)" using Cons.prems(2) by (auto simp: ev)
  have count: "count_of rl k t + attempts k (ev # es) < 2 ^ 32"
    using count_of_later [OF times(1), of rl k] Cons.prems(3) by simp
  show ?case
  proof (cases "a \<le> t")
    case True
    have "allowed_in k a (a + rl_window rl) (ev # es) (check_run rl (ev # es)) \<le> budget rl k t (a + rl_window rl)"
      by (rule allowed_within_budget [OF Cons.prems(1) _ _ count]) (use times True in \<open>simp_all add: ev\<close>)
    also have "\<dots> \<le> 2 * unat (rl_max_attempts rl)" by (auto simp: budget_def split: option.split)
    finally show ?thesis .
  next
    case False
    have keeps: "limiter_ok rl'" "rl_window rl' = rl_window rl" "rl_max_attempts rl' = rl_max_attempts rl"
      using check_keeps [OF Cons.prems(1), of t key] step by auto
    have "count_of rl' k t + attempts k es < 2 ^ 32"
    proof (cases "key = k")
      case True
      then have "Suc (count_of rl k t) < 2 ^ 32" using count by (simp add: ev)
      from count_of_check(1) [OF Cons.prems(1) order_refl this, of key] count step True show ?thesis
        by (simp add: ev)
    next
      case False
      with check_other(2) [OF Cons.prems(1) False, of t] count step show ?thesis by (simp add: ev)
    qed
    from Cons.IH [OF keeps(1) times(2) this] keeps(2,3) False show ?thesis by (simp add: ev step)
  qed
qed simp

text \<open>A key is not refused before it has made more attempts than allowed.\<close>

lemma within_limit_allowed:
  "limiter_ok rl \<Longrightarrow> sorted (now # map fst es) \<Longrightarrow>
     count_of rl k now + attempts k es \<le> unat (rl_max_attempts rl) \<Longrightarrow>
     \<forall>i < length es. snd (es ! i) = k \<longrightarrow> check_run rl es ! i"
proof (induction es arbitrary: rl now)
  case (Cons ev es)
  obtain t key where ev: "ev = (t, key)" by (cases ev)
  obtain ok rl' where step: "check rl t key = (ok, rl')" by fastforce
  have times: "now \<le> t" "sorted (t # map fst es)" using Cons.prems(2) by (auto simp: ev)
  have keeps: "limiter_ok rl'" "rl_max_attempts rl' = rl_max_attempts rl"
    using check_keeps [OF Cons.prems(1), of t key] step by auto
  have count: "count_of rl k t + attempts k (ev # es) \<le> unat (rl_max_attempts rl)"
    using count_of_later [OF times(1), of rl k] Cons.prems(3) by simp
  have IH: "\<forall>i < length es. snd (es ! i) = k \<longrightarrow> check_run rl' es ! i"
    if "count_of rl' k t + attempts k es \<le> unat (rl_max_attempts rl)"
    by (rule Cons.IH [OF keeps(1) times(2)]) (use that keeps(2) in simp)
  show ?case
  proof (cases "key = k")
    case True
    have small: "Suc (count_of rl k t) < 2 ^ 32"
      using count True unat_bound [of "rl_max_attempts rl"] by (simp add: ev)
    note chk = count_of_check [OF Cons.prems(1) order_refl small]
    have rest: "count_of rl' k t + attempts k es \<le> unat (rl_max_attempts rl)" and ok
      using chk(1) [of key] chk(2) count step True by (simp_all add: ev)
    from IH [OF rest] \<open>ok\<close> show ?thesis by (auto simp: ev step nth_Cons split: nat.splits)
  next
    case False
    then have rest: "count_of rl' k t + attempts k es \<le> unat (rl_max_attempts rl)"
      using check_other(2) [OF Cons.prems(1) False, of t] count step by (simp add: ev)
    from IH [OF rest] False show ?thesis by (auto simp: ev step nth_Cons split: nat.splits)
  qed
qed simp

lemma limiter_ok_new [simp]: "limiter_ok (RateLimiter_new limit window)"
  by (simp add: limiter_ok_def RateLimiter_new_def hm_wf_def)

lemma count_of_new [simp]: "count_of (RateLimiter_new limit window) k now = 0"
  by (simp add: count_of_def open_entry_def RateLimiter_new_def)

lemma new_fields [simp]: "rl_window (RateLimiter_new limit window) = window"
    "rl_max_attempts (RateLimiter_new limit window) = limit"
  by (simp_all add: RateLimiter_new_def)

section \<open>Properties\<close>



end
