(* ===== verification/Auth_Externals.thy ===== *)
theory Auth_Externals
  imports Users
begin

text \<open>
  What the authentication crate (\<open>crates/corevpn-auth\<close>) gets from the crates \<open>reqwest\<close> and \<open>chrono\<close>.

  A network is a function from the requests sent so far and a new request to the answer, so that
  it may answer the same request differently each time. An operation that sends requests takes the
  requests sent so far and returns them extended: what is sent, and to whom, is part of the result.
  \<open>chrono\<close> is the record of the operations the code calls; \<open>None\<close> is the panic, or the error of
  \<open>from_std\<close>.
\<close>

section \<open>HTTP\<close>

datatype Request = Get (req_url: string) | Post (req_url: string) (req_form: "(string \<times> string) list")

text \<open>A response; reading its body may fail with a message.\<close>

record Response =
  rsp_success :: bool
  rsp_status :: string
  rsp_body :: "string + bytes"

type_synonym network = "Request list \<Rightarrow> Request \<Rightarrow> string + Response"

definition http_send :: "network \<Rightarrow> Request list \<Rightarrow> Request \<Rightarrow> (string + Response) \<times> Request list" where
  "http_send net sent req = (net sent req, sent @ [req])"

text \<open>\<open>response.json()\<close>: the body, read by the deserialiser of the expected type.\<close>

definition rsp_json :: "(bytes \<Rightarrow> string + 'a) \<Rightarrow> Response \<Rightarrow> string + 'a" where
  "rsp_json parse r = (case rsp_body r of Inl e \<Rightarrow> Inl e | Inr b \<Rightarrow> parse b)"

text \<open>What a successful request for a document gives.\<close>

definition answered :: "network \<Rightarrow> (bytes \<Rightarrow> string + 'a) \<Rightarrow> Request list \<Rightarrow> Request \<Rightarrow> 'a \<Rightarrow> bool" where
  "answered net parse sent req x \<longleftrightarrow> (\<exists>r. net sent req = Inr r \<and> rsp_success r \<and> rsp_json parse r = Inr x)"

section \<open>Dates\<close>

record chrono =
  ch_from_std :: "duration \<Rightarrow> time_delta option"
  ch_seconds :: "int \<Rightarrow> time_delta option"
  ch_add :: "date_time \<Rightarrow> time_delta \<Rightarrow> date_time option"

text \<open>
  The documented behaviour: sums and durations are exact where they are in the range of the type,
  and panic outside.
\<close>

definition chrono_laws :: "chrono \<Rightarrow> date_time \<Rightarrow> date_time \<Rightarrow> time_delta \<Rightarrow> bool" where
  "chrono_laws C lo hi widest \<longleftrightarrow>
     (\<forall>d. ch_from_std C d = (if int d \<le> widest then Some (int d) else None)) \<and>
     (\<forall>s. ch_seconds C s = (if \<bar>s * 10 ^ 9\<bar> \<le> widest then Some (s * 10 ^ 9) else None)) \<and>
     (\<forall>t d. ch_add C t d = (if lo \<le> t + d \<and> t + d \<le> hi then Some (t + d) else None))"

text \<open>A panicking operation as a result.\<close>

definition or_panic :: "'a option \<Rightarrow> ('e, 'a) res" where
  "or_panic x = (case x of Some y \<Rightarrow> Inr y | None \<Rightarrow> Inl Panic)"

lemma or_panic_Inr_iff [res_simps]: "or_panic x = Inr y \<longleftrightarrow> x = Some y"
  by (simp add: or_panic_def split: option.split)

lemma or_panic_Some [simp]: "or_panic (Some y) = Inr y"
  by (simp add: or_panic_def)

text \<open>\<open>ok_or\<close> and \<open>ok_or_else\<close>; \<open>map_err\<close> on the result of a foreign function.\<close>

definition ok_or :: "'a option \<Rightarrow> 'e \<Rightarrow> ('e, 'a) res" where
  "ok_or x e = (case x of Some y \<Rightarrow> Inr y | None \<Rightarrow> Inl (Err e))"

lemma ok_or_Inr_iff [res_simps]: "ok_or x e = Inr y \<longleftrightarrow> x = Some y"
  by (simp add: ok_or_def split: option.split)

lemma ok_or_Inl_iff [res_simps]: "ok_or x e = Inl y \<longleftrightarrow> x = None \<and> y = Err e"
  by (auto simp: ok_or_def split: option.split)

definition lift_err :: "('e \<Rightarrow> 'f) \<Rightarrow> 'e + 'a \<Rightarrow> ('f, 'a) res" where
  "lift_err f r = (case r of Inl e \<Rightarrow> Inl (Err (f e)) | Inr x \<Rightarrow> Inr x)"

lemma lift_err_Inr_iff [res_simps]: "lift_err f r = Inr x \<longleftrightarrow> r = Inr x"
  by (simp add: lift_err_def split: sum.split)

lemma no_panic_foreign [simp, no_panic_intros]: "no_panic (ok_or x e)" "no_panic (lift_err f r)"
  by (simp_all add: ok_or_def lift_err_def split: option.split sum.split)

text \<open>64-bit signed arithmetic: \<open>i64\<close> values are integers, and results wrap.\<close>

definition i64 :: "int \<Rightarrow> int" where
  "i64 n = (n + 2 ^ 63) mod 2 ^ 64 - 2 ^ 63"

lemma i64_in_range [simp]: "- (2 ^ 63) \<le> n \<Longrightarrow> n < 2 ^ 63 \<Longrightarrow> i64 n = n"
  by (simp add: i64_def)

end
