(* ===== verification/Auth_Tokens.thy ===== *)
theory Auth_Tokens
  imports Auth_Externals
begin

text \<open>
  \<open>crates/corevpn-auth/src/token.rs\<close>: token sets, ID token claims, the cache of key sets and the
  token validator. The crates \<open>jsonwebtoken\<close>, \<open>base64\<close>, \<open>serde_json\<close> and \<open>reqwest\<close> are the record
  \<open>token_libs\<close>; decoding keys and JSON values are type variables. \<open>SystemTime\<close> is a nanosecond count,
  \<open>i64\<close> an integer whose arithmetic wraps.
\<close>

section \<open>Token sets and claims\<close>

record TokenSet =
  tk_access_token :: string
  tk_refresh_token :: "string option"
  tk_id_token :: "string option"
  tk_expires_at :: date_time
  tk_token_type :: string
  tk_scopes :: "string list"

definition TokenSet_is_expired :: "date_time \<Rightarrow> TokenSet \<Rightarrow> bool" where
  "TokenSet_is_expired now t \<longleftrightarrow> now > tk_expires_at t"

definition expires_within :: "chrono \<Rightarrow> date_time \<Rightarrow> TokenSet \<Rightarrow> time_delta \<Rightarrow> (AuthError, bool) res" where
  "expires_within C now t d = and_then (or_panic (ch_add C now d)) (\<lambda>later. Inr (later > tk_expires_at t))"

definition remaining_lifetime :: "date_time \<Rightarrow> TokenSet \<Rightarrow> time_delta" where
  "remaining_lifetime now t = tk_expires_at t - now"

datatype StringOrArray = SingleString string | StringArray "string list"

fun StringOrArray_contains :: "StringOrArray \<Rightarrow> string \<Rightarrow> bool" where
  "StringOrArray_contains (SingleString s) v \<longleftrightarrow> s = v"
| "StringOrArray_contains (StringArray arr) v \<longleftrightarrow> list_ex (\<lambda>s. s = v) arr"

record 'j IdTokenClaims =
  cl_iss :: string
  cl_sub :: string
  cl_aud :: StringOrArray
  cl_exp :: int
  cl_iat :: int
  cl_nonce :: "string option"
  cl_email :: "string option"
  cl_email_verified :: "bool option"
  cl_name :: "string option"
  cl_given_name :: "string option"
  cl_family_name :: "string option"
  cl_picture :: "string option"
  cl_groups :: "string list"
  cl_additional :: "(string \<times> 'j) list"

section \<open>Key sets and their cache\<close>

record Jwk =
  jk_kid :: "string option"
  jk_kty :: string
  jk_alg :: "string option"
  jk_n :: "string option"
  jk_e :: "string option"
  jk_key_use :: "string option"

record JwkSet =
  jw_keys :: "Jwk list"

record JwtHeader =
  jh_alg :: string
  jh_kid :: "string option"

record Validation =
  vd_alg :: string
  vd_issuer :: "string list"
  vd_audience :: "string list"
  vd_leeway :: u64

record ('key, 'j) token_libs =
  tl_net :: network
  tl_parse_jwks :: "bytes \<Rightarrow> string + JwkSet"
  tl_decode_header :: "string \<Rightarrow> string + JwtHeader"
  tl_rsa_key :: "string \<Rightarrow> string \<Rightarrow> string + 'key"
  tl_jwt_decode :: "string \<Rightarrow> 'key \<Rightarrow> Validation \<Rightarrow> string + unit"
  tl_b64_decode :: "string \<Rightarrow> string + bytes"
  tl_parse_claims :: "bytes \<Rightarrow> string + 'j IdTokenClaims"

definition to_decoding_key :: "('key, 'j) token_libs \<Rightarrow> Jwk \<Rightarrow> (string, 'key) res" where
  "to_decoding_key L jwk =
     (if jk_kty jwk = ''RSA''
      then and_then (ok_or (jk_n jwk) ''Missing 'n' in RSA key'') (\<lambda>n.
           and_then (ok_or (jk_e jwk) ''Missing 'e' in RSA key'') (\<lambda>e.
           lift_err (\<lambda>m. ''Failed to create RSA key: '' @ m) (tl_rsa_key L n e)))
      else Inl (Err (''Unsupported key type: '' @ jk_kty jwk)))"

record JwksCacheEntry =
  je_jwks :: JwkSet
  je_expires_at :: instant

record JwksCache =
  jc_entries :: "(string \<times> JwksCacheEntry) list"
  jc_ttl :: duration

definition JwksCache_new :: "duration \<Rightarrow> JwksCache" where
  "JwksCache_new ttl = \<lparr>jc_entries = [], jc_ttl = ttl\<rparr>"

definition JwksCache_get :: "JwksCache \<Rightarrow> instant \<Rightarrow> string \<Rightarrow> JwkSet option" where
  "JwksCache_get c now jwks_uri =
     (case map_of (jc_entries c) jwks_uri of
        Some entry \<Rightarrow> if now < je_expires_at entry then Some (je_jwks entry) else None
      | None \<Rightarrow> None)"

definition JwksCache_insert :: "JwksCache \<Rightarrow> instant \<Rightarrow> string \<Rightarrow> JwkSet \<Rightarrow> JwksCache" where
  "JwksCache_insert c now jwks_uri jwks =
     c\<lparr>jc_entries := AList.update jwks_uri \<lparr>je_jwks = jwks, je_expires_at = now + jc_ttl c\<rparr> (jc_entries c)\<rparr>"

definition clear_expired :: "JwksCache \<Rightarrow> instant \<Rightarrow> JwksCache" where
  "clear_expired c now = c\<lparr>jc_entries := hm_retain (\<lambda>_ entry. je_expires_at entry > now) (jc_entries c)\<rparr>"

section \<open>The validator\<close>

record TokenValidator =
  tv_issuer :: string
  tv_audience :: string
  tv_clock_skew :: int
  tv_jwks_uri :: "string option"
  tv_jwks_cache :: JwksCache

definition TokenValidator_new :: "string \<Rightarrow> string \<Rightarrow> TokenValidator" where
  "TokenValidator_new issuer audience =
     \<lparr>tv_issuer = issuer, tv_audience = audience, tv_clock_skew = 60, tv_jwks_uri = None,
      tv_jwks_cache = JwksCache_new (3600 * 10 ^ 9)\<rparr>"

definition with_jwks_uri :: "string \<Rightarrow> string \<Rightarrow> string \<Rightarrow> TokenValidator" where
  "with_jwks_uri issuer audience jwks_uri =
     \<lparr>tv_issuer = issuer, tv_audience = audience, tv_clock_skew = 60, tv_jwks_uri = Some jwks_uri,
      tv_jwks_cache = JwksCache_new (3600 * 10 ^ 9)\<rparr>"

definition with_clock_skew :: "TokenValidator \<Rightarrow> int \<Rightarrow> TokenValidator" where
  "with_clock_skew v seconds = v\<lparr>tv_clock_skew := seconds\<rparr>"

text \<open>\<open>Utc::now().timestamp()\<close>.\<close>

definition timestamp :: "date_time \<Rightarrow> int" where
  "timestamp now = now div 10 ^ 9"

definition validate_claims ::
    "TokenValidator \<Rightarrow> date_time \<Rightarrow> 'j IdTokenClaims \<Rightarrow> string option \<Rightarrow> (AuthError, unit) res" where
  "validate_claims v utc_now claims expected_nonce =
     and_then (ensure (cl_iss claims = tv_issuer v)
       (TokenValidationFailed (''invalid issuer: expected '' @ tv_issuer v @ '', got '' @ cl_iss claims))) (\<lambda>_.
     and_then (ensure (StringOrArray_contains (cl_aud claims) (tv_audience v))
       (TokenValidationFailed ''token audience mismatch'')) (\<lambda>_.
     let now = timestamp utc_now in
     and_then (ensure (\<not> cl_exp claims < i64 (now - tv_clock_skew v)) TokenExpired) (\<lambda>_.
     and_then (ensure (\<not> cl_iat claims > i64 (now + tv_clock_skew v))
       (TokenValidationFailed ''token issued in the future'')) (\<lambda>_.
     case expected_nonce of
       Some expected \<Rightarrow> ensure (cl_nonce claims = Some expected) InvalidNonce
     | None \<Rightarrow> Inr ()))))"

text \<open>
  Keys come from the cache or the network. The clock is read when the cache is searched, when the
  answer is stored, and when the cache is cleaned.
\<close>

definition fetch_jwks ::
    "('key, 'j) token_libs \<Rightarrow> instant \<times> instant \<times> instant \<Rightarrow> TokenValidator \<Rightarrow> string \<Rightarrow> Request list
       \<Rightarrow> (AuthError, JwkSet) res \<times> TokenValidator \<times> Request list" where
  "fetch_jwks L ts v jwks_uri sent =
     (let (t_get, t_insert, t_clear) = ts in
      case JwksCache_get (tv_jwks_cache v) t_get jwks_uri of
        Some jwks \<Rightarrow> (Inr jwks, v, sent)
      | None \<Rightarrow>
          (let (answer, sent) = http_send (tl_net L) sent (Get jwks_uri) in
           case answer of
             Inl e \<Rightarrow> (Inl (Err (HttpError (''Failed to fetch JWKS: '' @ e))), v, sent)
           | Inr response \<Rightarrow>
               if \<not> rsp_success response
               then (Inl (Err (HttpError (''JWKS fetch failed with status: '' @ rsp_status response))), v, sent)
               else (case rsp_json (tl_parse_jwks L) response of
                   Inl e \<Rightarrow> (Inl (Err (HttpError (''Failed to parse JWKS: '' @ e))), v, sent)
                 | Inr jwks \<Rightarrow>
                     (Inr jwks,
                      v\<lparr>tv_jwks_cache := clear_expired (JwksCache_insert (tv_jwks_cache v) t_insert jwks_uri jwks) t_clear\<rparr>,
                      sent))))"

text \<open>What is checked once the key set is there.\<close>

definition check_signature ::
    "('key, 'j) token_libs \<Rightarrow> TokenValidator \<Rightarrow> string \<Rightarrow> JwtHeader \<Rightarrow> string \<Rightarrow> JwkSet \<Rightarrow> (AuthError, unit) res" where
  "check_signature L v token header kid jwks =
     and_then (ok_or (List.find (\<lambda>k. jk_kid k = Some kid) (jw_keys jwks))
       (TokenValidationFailed (''Key '' @ kid @ '' not found in JWKS''))) (\<lambda>jwk.
     and_then (map_err TokenValidationFailed (to_decoding_key L jwk)) (\<lambda>decoding_key.
     lift_err (\<lambda>e. TokenValidationFailed (''JWT signature verification failed: '' @ e))
       (tl_jwt_decode L token decoding_key
          \<lparr>vd_alg = jh_alg header, vd_issuer = [tv_issuer v], vd_audience = [tv_audience v],
           vd_leeway = word_of_int (tv_clock_skew v)\<rparr>)))"

definition verify_signature ::
    "('key, 'j) token_libs \<Rightarrow> instant \<times> instant \<times> instant \<Rightarrow> TokenValidator \<Rightarrow> string \<Rightarrow> Request list
       \<Rightarrow> (AuthError, unit) res \<times> TokenValidator \<times> Request list" where
  "verify_signature L ts v token sent =
     (case tv_jwks_uri v of
        None \<Rightarrow> (Inl (Err (TokenValidationFailed ''JWKS URI not configured'')), v, sent)
      | Some jwks_uri \<Rightarrow>
          (case tl_decode_header L token of
             Inl e \<Rightarrow> (Inl (Err (TokenValidationFailed (''Invalid JWT header: '' @ e))), v, sent)
           | Inr header \<Rightarrow>
               (case jh_kid header of
                  None \<Rightarrow> (Inl (Err (TokenValidationFailed ''JWT missing key ID (kid)'')), v, sent)
                | Some kid \<Rightarrow>
                    (let (r, v', sent') = fetch_jwks L ts v jwks_uri sent in
                     (and_then r (check_signature L v' token header kid), v', sent')))))"

definition decode_jwt_claims :: "('key, 'j) token_libs \<Rightarrow> string \<Rightarrow> (AuthError, 'j IdTokenClaims) res" where
  "decode_jwt_claims L token =
     (let parts = split_on (CHR ''.'') token in
      and_then (ensure (length parts = 3) (TokenValidationFailed ''invalid JWT format'')) (\<lambda>_.
      and_then (elem_at parts 1) (\<lambda>part.
      and_then (lift_err (\<lambda>e. TokenValidationFailed (''base64 decode error: '' @ e)) (tl_b64_decode L part)) (\<lambda>payload.
      lift_err SerializationError (tl_parse_claims L payload)))))"

definition decode_and_verify_jwt ::
    "('key, 'j) token_libs \<Rightarrow> instant \<times> instant \<times> instant \<Rightarrow> TokenValidator \<Rightarrow> string \<Rightarrow> Request list
       \<Rightarrow> (AuthError, 'j IdTokenClaims) res \<times> TokenValidator \<times> Request list" where
  "decode_and_verify_jwt L ts v token sent =
     (if tv_jwks_uri v \<noteq> None
      then (let (r, v', sent') = verify_signature L ts v token sent in
            (and_then r (\<lambda>_. decode_jwt_claims L token), v', sent'))
      else (decode_jwt_claims L token, v, sent))"

section \<open>User information\<close>

record UserInfo =
  ui_sub :: string
  ui_email :: "string option"
  ui_email_verified :: bool
  ui_name :: "string option"
  ui_given_name :: "string option"
  ui_family_name :: "string option"
  ui_picture :: "string option"
  ui_groups :: "string list"
  ui_provider :: string

definition from_claims :: "'j IdTokenClaims \<Rightarrow> string \<Rightarrow> UserInfo" where
  "from_claims claims provider =
     \<lparr>ui_sub = cl_sub claims, ui_email = cl_email claims,
      ui_email_verified = (case cl_email_verified claims of Some b \<Rightarrow> b | None \<Rightarrow> False),
      ui_name = cl_name claims, ui_given_name = cl_given_name claims, ui_family_name = cl_family_name claims,
      ui_picture = cl_picture claims, ui_groups = cl_groups claims, ui_provider = provider\<rparr>"

definition email_domain :: "UserInfo \<Rightarrow> string option" where
  "email_domain u =
     (case ui_email u of
        Some e \<Rightarrow> (let parts = split_on (CHR ''@'') e in if 1 < length parts then Some (parts ! 1) else None)
      | None \<Rightarrow> None)"

section \<open>Lemmas\<close>

text \<open>The validity of claims, without the order of the checks.\<close>

definition claims_valid :: "TokenValidator \<Rightarrow> date_time \<Rightarrow> 'j IdTokenClaims \<Rightarrow> string option \<Rightarrow> bool" where
  "claims_valid v utc_now claims expected_nonce \<longleftrightarrow>
     cl_iss claims = tv_issuer v \<and> StringOrArray_contains (cl_aud claims) (tv_audience v) \<and>
     timestamp utc_now \<le> cl_exp claims + tv_clock_skew v \<and> cl_iat claims \<le> timestamp utc_now + tv_clock_skew v \<and>
     (expected_nonce = None \<or> cl_nonce claims = expected_nonce)"

lemma i64_clock:
  assumes "\<bar>timestamp now\<bar> < 2 ^ 62" and "\<bar>s\<bar> < 2 ^ 62"
  shows "i64 (timestamp now - s) = timestamp now - s" "i64 (timestamp now + s) = timestamp now + s"
  using assms by (auto intro!: i64_in_range)

text \<open>A record of a call: its times and token, what it returned, and the requests before and after.\<close>

type_synonym 'j call = "(instant \<times> instant \<times> instant) \<times> string \<times> (AuthError, 'j IdTokenClaims) res \<times> Request list \<times> Request list"

fun verify_run ::
    "('key, 'j) token_libs \<Rightarrow> TokenValidator \<Rightarrow> Request list \<Rightarrow> ((instant \<times> instant \<times> instant) \<times> string) list \<Rightarrow> 'j call list" where
  "verify_run L v sent [] = []"
| "verify_run L v sent ((ts, token) # calls) =
     (let (r, v', sent') = decode_and_verify_jwt L ts v token sent
      in (ts, token, r, sent, sent') # verify_run L v' sent' calls)"

text \<open>A call received a key set from an address, and stored it at a time.\<close>

definition received :: "('key, 'j) token_libs \<Rightarrow> string \<Rightarrow> JwkSet \<Rightarrow> instant \<Rightarrow> 'j call \<Rightarrow> bool" where
  "received L uri jwks t c \<longleftrightarrow>
     (case c of ((_, t_insert, _), _, _, s, s') \<Rightarrow>
        t = t_insert \<and> s' = s @ [Get uri] \<and> answered (tl_net L) (tl_parse_jwks L) s (Get uri) jwks)"

text \<open>The cache holds what the calls so far received, with the time of its arrival.\<close>

definition cache_from :: "('key, 'j) token_libs \<Rightarrow> 'j call set \<Rightarrow> JwksCache \<Rightarrow> bool" where
  "cache_from L past c \<longleftrightarrow> hm_wf (jc_entries c) \<and>
     (\<forall>uri e. map_of (jc_entries c) uri = Some e \<longrightarrow>
        (\<exists>call\<in>past. \<exists>t. received L uri (je_jwks e) t call \<and> je_expires_at e = t + jc_ttl c))"

lemma cache_from_new: "cache_from L past (JwksCache_new ttl)"
  by (simp add: cache_from_def JwksCache_new_def hm_wf_def)

lemma cache_from_more: "cache_from L past c \<Longrightarrow> past \<subseteq> past' \<Longrightarrow> cache_from L past' c"
  unfolding cache_from_def by (meson subsetD)

lemma cache_from_store:
  assumes "cache_from L past c" and "received L uri jwks t_insert call"
  shows "cache_from L (insert call past) (clear_expired (JwksCache_insert c t_insert uri jwks) t_clear)"
proof -
  let ?c = "JwksCache_insert c t_insert uri jwks"
  have wf: "hm_wf (jc_entries c)" using assms(1) by (simp add: cache_from_def)
  then have wf': "hm_wf (jc_entries ?c)" by (simp add: JwksCache_insert_def hm.wf_put)
  have look: "map_of (jc_entries ?c) = (map_of (jc_entries c))(uri \<mapsto> \<lparr>je_jwks = jwks, je_expires_at = t_insert + jc_ttl c\<rparr>)"
    using wf by (simp add: JwksCache_insert_def hm.lookup_put)
  have ttl: "jc_ttl (clear_expired ?c t_clear) = jc_ttl c" by (simp add: clear_expired_def JwksCache_insert_def)
  have sub: "map_of (jc_entries (clear_expired ?c t_clear)) u = Some e \<Longrightarrow> map_of (jc_entries ?c) u = Some e" for u e
    using wf' by (simp add: clear_expired_def map_of_hm_retain split: option.splits if_splits)
  show ?thesis
    unfolding cache_from_def ttl
  proof (intro conjI allI impI)
    show "hm_wf (jc_entries (clear_expired ?c t_clear))" using wf' by (simp add: clear_expired_def hm_wf_retain)
    fix u e
    assume "map_of (jc_entries (clear_expired ?c t_clear)) u = Some e"
    from sub [OF this] look have "u = uri \<and> e = \<lparr>je_jwks = jwks, je_expires_at = t_insert + jc_ttl c\<rparr> \<or>
        map_of (jc_entries c) u = Some e"
      by (auto split: if_splits)
    with assms show "\<exists>call'\<in>insert call past. \<exists>t. received L u (je_jwks e) t call' \<and> je_expires_at e = t + jc_ttl c"
      unfolding cache_from_def by (metis JwksCacheEntry.select_convs insert_iff)
  qed
qed

lemma fetch_jwks_cases:
  assumes "fetch_jwks L ts v uri sent = (r, v', sent')"
  obtains (cached) jwks where "JwksCache_get (tv_jwks_cache v) (fst ts) uri = Some jwks"
      and "r = Inr jwks" and "v' = v" and "sent' = sent"
    | (failed) "\<not> is_ok r" and "v' = v" and "sent' = sent @ [Get uri]"
    | (received) jwks where "answered (tl_net L) (tl_parse_jwks L) sent (Get uri) jwks" and "r = Inr jwks"
      and "v' = v\<lparr>tv_jwks_cache := clear_expired (JwksCache_insert (tv_jwks_cache v) (fst (snd ts)) uri jwks) (snd (snd ts))\<rparr>"
      and "sent' = sent @ [Get uri]"
proof -
  obtain t1 t2 t3 where ts: "ts = (t1, t2, t3)" by (cases ts)
  note def = assms [unfolded fetch_jwks_def http_send_def ts, simplified]
  show thesis
  proof (cases "JwksCache_get (tv_jwks_cache v) t1 uri")
    case (Some jwks)
    with def show thesis by (intro cached [of jwks]) (simp_all add: ts)
  next
    case None
    show thesis
    proof (cases "tl_net L sent (Get uri)")
      case (Inl e)
      with def None show thesis by (intro failed) (auto simp: is_ok_def)
    next
      case (Inr response)
      show thesis
      proof (cases "rsp_success response")
        case False
        with def None Inr show thesis by (intro failed) (auto simp: is_ok_def)
      next
        case True
        show thesis
        proof (cases "rsp_json (tl_parse_jwks L) response")
          case Inl
          with def None True \<open>tl_net L sent (Get uri) = Inr response\<close> show thesis by (intro failed) (auto simp: is_ok_def)
        next
          case (Inr jwks)
          with def None True \<open>tl_net L sent (Get uri) = Inr response\<close> show thesis
            by (intro received [of jwks]) (auto simp: answered_def ts)
        qed
      qed
    qed
  qed
qed

text \<open>What is behind an accepted token.\<close>

definition signed_by :: "('key, 'j) token_libs \<Rightarrow> string \<Rightarrow> string \<Rightarrow> u64 \<Rightarrow> JwkSet \<Rightarrow> string \<Rightarrow> bool" where
  "signed_by L issuer audience leeway jwks token \<longleftrightarrow>
     (\<exists>header kid jwk key. tl_decode_header L token = Inr header \<and> jh_kid header = Some kid \<and>
        jwk \<in> set (jw_keys jwks) \<and> jk_kid jwk = Some kid \<and> to_decoding_key L jwk = Inr key \<and>
        tl_jwt_decode L token key
          \<lparr>vd_alg = jh_alg header, vd_issuer = [issuer], vd_audience = [audience], vd_leeway = leeway\<rparr> = Inr ())"

lemma check_signature_ok:
  assumes "tl_decode_header L token = Inr header" and "jh_kid header = Some kid"
    and "check_signature L v token header kid jwks = Inr ()"
  shows "signed_by L (tv_issuer v) (tv_audience v) (word_of_int (tv_clock_skew v)) jwks token"
proof -
  obtain jwk key where jwk: "List.find (\<lambda>k. jk_kid k = Some kid) (jw_keys jwks) = Some jwk"
    and key: "to_decoding_key L jwk = Inr key"
    and sig: "tl_jwt_decode L token key \<lparr>vd_alg = jh_alg header, vd_issuer = [tv_issuer v], vd_audience = [tv_audience v],
           vd_leeway = word_of_int (tv_clock_skew v)\<rparr> = Inr ()"
    using assms(3) by (auto simp: check_signature_def res_simps)
  show ?thesis
    unfolding signed_by_def
    by (intro exI [of _ header] exI [of _ kid] exI [of _ jwk] exI [of _ key])
       (use find_Some_mem [OF jwk] key sig assms(1,2) in simp)
qed

text \<open>The part of a validator that no call changes.\<close>

definition same_validator :: "TokenValidator \<Rightarrow> TokenValidator \<Rightarrow> bool" where
  "same_validator v v' \<longleftrightarrow> tv_issuer v' = tv_issuer v \<and> tv_audience v' = tv_audience v \<and>
     tv_clock_skew v' = tv_clock_skew v \<and> tv_jwks_uri v' = tv_jwks_uri v \<and>
     jc_ttl (tv_jwks_cache v') = jc_ttl (tv_jwks_cache v)"

lemma verify_step:
  assumes "decode_and_verify_jwt L ts v token sent = (r, v', sent')" and "tv_jwks_uri v = Some uri"
    and "cache_from L past (tv_jwks_cache v)"
  defines "call \<equiv> (ts, token, r, sent, sent')"
  shows "cache_from L (insert call past) (tv_jwks_cache v') \<and> same_validator v v'"
    and "r = Inr claims \<Longrightarrow>
      decode_jwt_claims L token = Inr claims \<and>
      (\<exists>jwks t. signed_by L (tv_issuer v) (tv_audience v) (word_of_int (tv_clock_skew v)) jwks token \<and>
        (received L uri jwks t call \<or>
         (\<exists>c\<in>past. received L uri jwks t c) \<and> fst ts < t + jc_ttl (tv_jwks_cache v)))"
proof -
  obtain r1 where verify: "verify_signature L ts v token sent = (r1, v', sent')"
    and r: "r = and_then r1 (\<lambda>_. decode_jwt_claims L token)"
    using assms(1,2) by (auto simp: decode_and_verify_jwt_def split: prod.splits)
  have keep: "cache_from L (insert call past) (tv_jwks_cache v)" by (rule cache_from_more [OF assms(3)]) auto
  consider (early) "v' = v" "\<not> is_ok r1"
    | (fetched) header kid rk where "tl_decode_header L token = Inr header" "jh_kid header = Some kid"
        "fetch_jwks L ts v uri sent = (rk, v', sent')" "r1 = and_then rk (check_signature L v' token header kid)"
    using verify assms(2) by (auto simp: verify_signature_def split: sum.splits option.splits prod.splits)
  then have "(cache_from L (insert call past) (tv_jwks_cache v') \<and> same_validator v v') \<and>
     (r = Inr claims \<longrightarrow> decode_jwt_claims L token = Inr claims \<and>
      (\<exists>jwks t. signed_by L (tv_issuer v) (tv_audience v) (word_of_int (tv_clock_skew v)) jwks token \<and>
        (received L uri jwks t call \<or>
         (\<exists>c\<in>past. received L uri jwks t c) \<and> fst ts < t + jc_ttl (tv_jwks_cache v))))"
  proof cases
    case early
    with keep r show ?thesis by (auto simp: same_validator_def res_simps is_ok_def)
  next
    case fetched
    have signed: "decode_jwt_claims L token = Inr claims \<and> (\<exists>jwks. rk = Inr jwks \<and>
        signed_by L (tv_issuer v') (tv_audience v') (word_of_int (tv_clock_skew v')) jwks token)" if "r = Inr claims"
      using that fetched(4) check_signature_ok [OF fetched(1,2), of v'] by (auto simp: r res_simps)
    from fetched(3) show ?thesis
    proof (cases rule: fetch_jwks_cases)
      case (cached jwks)
      then obtain e where "map_of (jc_entries (tv_jwks_cache v)) uri = Some e" "fst ts < je_expires_at e" "je_jwks e = jwks"
        by (auto simp: JwksCache_get_def split: option.splits if_splits)
      with assms(3) obtain t c where "c \<in> past" "received L uri jwks t c" "fst ts < t + jc_ttl (tv_jwks_cache v)"
        unfolding cache_from_def by metis
      with cached keep signed show ?thesis by (auto simp: same_validator_def)
    next
      case failed
      with keep signed show ?thesis by (auto simp: same_validator_def is_ok_def)
    next
      case (received jwks)
      have got: "received L uri jwks (fst (snd ts)) call"
        using received(1,4) by (simp add: received_def call_def split: prod.splits)
      have same: "same_validator v v'"
        unfolding received(3) by (simp add: same_validator_def clear_expired_def JwksCache_insert_def)
      with cache_from_store [OF assms(3) got, of "snd (snd ts)"] got signed received(2,3) show ?thesis
        by (auto simp: same_validator_def)
    qed
  qed
  then show "cache_from L (insert call past) (tv_jwks_cache v') \<and> same_validator v v'"
    and "r = Inr claims \<Longrightarrow>
      decode_jwt_claims L token = Inr claims \<and>
      (\<exists>jwks t. signed_by L (tv_issuer v) (tv_audience v) (word_of_int (tv_clock_skew v)) jwks token \<and>
        (received L uri jwks t call \<or>
         (\<exists>c\<in>past. received L uri jwks t c) \<and> fst ts < t + jc_ttl (tv_jwks_cache v)))"
    by blast+
qed

lemma verify_run_keys:
  assumes "tv_jwks_uri v = Some uri" and "cache_from L past (tv_jwks_cache v)"
    and "verify_run L v sent calls = before @ (ts, token, Inr claims, s, s') # after"
  shows "decode_jwt_claims L token = Inr claims \<and>
      (\<exists>jwks t. signed_by L (tv_issuer v) (tv_audience v) (word_of_int (tv_clock_skew v)) jwks token \<and>
        (received L uri jwks t (ts, token, Inr claims, s, s') \<or>
         (\<exists>c\<in>past \<union> set before. received L uri jwks t c) \<and> fst ts < t + jc_ttl (tv_jwks_cache v)))"
  using assms
proof (induction before arbitrary: v sent calls past)
  case Nil
  then obtain ts0 token0 calls' where calls: "calls = (ts0, token0) # calls'" by (cases calls) auto
  obtain r v' sent' where d: "decode_and_verify_jwt L ts0 v token0 sent = (r, v', sent')" by (metis prod.exhaust)
  have "decode_and_verify_jwt L ts v token sent = (Inr claims, v', s')" "s = sent"
    using Nil.prems(3) d by (auto simp: calls)
  from verify_step(2) [OF this(1) Nil.prems(1,2)] this(2) show ?case by simp
next
  case (Cons call before)
  obtain ts0 token0 calls' where calls: "calls = (ts0, token0) # calls'"
    using Cons.prems(3) by (cases calls) auto
  obtain r v' sent' where d: "decode_and_verify_jwt L ts0 v token0 sent = (r, v', sent')"
    by (metis prod.exhaust)
  have call: "call = (ts0, token0, r, sent, sent')"
    and rest: "verify_run L v' sent' calls' = before @ (ts, token, Inr claims, s, s') # after"
    using Cons.prems(3) by (auto simp: calls d)
  note step = verify_step(1) [OF d Cons.prems(1,2), folded call]
  then have uri: "tv_jwks_uri v' = Some uri" using Cons.prems(1) by (simp add: same_validator_def)
  from Cons.IH [OF uri conjunct1 [OF step] rest] conjunct2 [OF step] show ?case
    by (auto simp: same_validator_def)
qed

section \<open>Properties\<close>

text \<open>
  C27. A token is accepted only with the signature of a current key of the provider. For any
  sequence of calls on a validator with a JWKS address: if a call accepts a token, then the claims it
  returns are those of the token, and the signature, issuer and audience of the token were verified
  with the key named in its header, of a key set that was received from the configured address by
  this call, or by an earlier one at most one hour before.
\<close>

theorem accepted_only_with_current_key:
  assumes "verify_run L (with_jwks_uri issuer audience uri) sent calls = before @ (ts, token, Inr claims, s, s') # after"
  shows "decode_jwt_claims L token = Inr claims \<and>
      (\<exists>jwks t. signed_by L issuer audience 60 jwks token \<and>
        (received L uri jwks t (ts, token, Inr claims, s, s') \<or>
         (\<exists>c\<in>set before. received L uri jwks t c) \<and> fst ts < t + 3600 * 10 ^ 9))"
proof -
  let ?v = "with_jwks_uri issuer audience uri"
  have v: "tv_jwks_uri ?v = Some uri" "cache_from L {} (tv_jwks_cache ?v)" "tv_issuer ?v = issuer"
    "tv_audience ?v = audience" "tv_clock_skew ?v = 60" "jc_ttl (tv_jwks_cache ?v) = 3600 * 10 ^ 9"
    using cache_from_new [of L "{}"] by (simp_all add: with_jwks_uri_def JwksCache_new_def)
  from verify_run_keys [OF v(1,2) assms] show ?thesis unfolding v by simp
qed

text \<open>
  A provider with one key, a token it signed, and any other token: the first call fetches the key
  set, a call three seconds later uses the cached one and refuses the other token.
\<close>

definition example_jwks :: JwkSet where
  "example_jwks = \<lparr>jw_keys = [\<lparr>jk_kid = Some ''k1'', jk_kty = ''RSA'', jk_alg = None, jk_n = Some ''n'', jk_e = Some ''e'',
     jk_key_use = None\<rparr>]\<rparr>"

definition example_claims :: "unit IdTokenClaims" where
  "example_claims = \<lparr>cl_iss = ''iss'', cl_sub = ''u1'', cl_aud = StringArray [''x'', ''aud''], cl_exp = 1000, cl_iat = 400,
     cl_nonce = Some ''n1'', cl_email = None, cl_email_verified = None, cl_name = None, cl_given_name = None,
     cl_family_name = None, cl_picture = None, cl_groups = [], cl_additional = []\<rparr>"

definition example_libs :: "(string, unit) token_libs" where
  "example_libs =
     \<lparr>tl_net = (\<lambda>sent req. if req = Get ''jwks'' then Inr \<lparr>rsp_success = True, rsp_status = ''200'', rsp_body = Inr []\<rparr>
        else Inl ''refused''),
      tl_parse_jwks = (\<lambda>b. Inr example_jwks),
      tl_decode_header = (\<lambda>token. Inr \<lparr>jh_alg = ''RS256'', jh_kid = Some ''k1''\<rparr>),
      tl_rsa_key = (\<lambda>n e. Inr n),
      tl_jwt_decode = (\<lambda>token key vd. if token = ''h.p.s'' \<and> key = ''n'' \<and> vd_audience vd = [''aud''] then Inr () else Inl ''bad''),
      tl_b64_decode = (\<lambda>p. Inr (str_bytes p)),
      tl_parse_claims = (\<lambda>b. Inr example_claims)\<rparr>"

lemma example_run:
  "verify_run example_libs (with_jwks_uri ''iss'' ''aud'' ''jwks'') [] [((0, 1, 2), ''h.p.s''), ((3, 3, 3), ''h.p.s''), ((3, 3, 3), ''h.p.x'')] =
     [((0, 1, 2), ''h.p.s'', Inr example_claims, [], [Get ''jwks''])] @
     ((3, 3, 3), ''h.p.s'', Inr example_claims, [Get ''jwks''], [Get ''jwks'']) #
     [((3, 3, 3), ''h.p.x'', Inl (Err (TokenValidationFailed ''JWT signature verification failed: bad'')), [Get ''jwks''], [Get ''jwks''])]"
  by (simp add: decode_and_verify_jwt_def verify_signature_def check_signature_def to_decoding_key_def fetch_jwks_def
      http_send_def rsp_json_def JwksCache_get_def JwksCache_insert_def clear_expired_def JwksCache_new_def hm_retain_def
      with_jwks_uri_def decode_jwt_claims_def elem_at_def lift_err_def ok_or_def example_libs_def example_jwks_def)

theorem accepted_only_with_current_key_witness:
  "\<exists>before after. verify_run example_libs (with_jwks_uri ''iss'' ''aud'' ''jwks'') []
       [((0, 1, 2), ''h.p.s''), ((3, 3, 3), ''h.p.s''), ((3, 3, 3), ''h.p.x'')] =
       before @ ((3, 3, 3), ''h.p.s'', Inr example_claims, [Get ''jwks''], [Get ''jwks'']) # after \<and>
     decode_jwt_claims example_libs ''h.p.s'' = Inr example_claims \<and>
     (\<exists>jwks t. signed_by example_libs ''iss'' ''aud'' 60 jwks ''h.p.s'' \<and> (\<exists>c\<in>set before. received example_libs ''jwks'' jwks t c))"
proof -
  have "\<not> received example_libs ''jwks'' jwks t ((3, 3, 3), ''h.p.s'', Inr example_claims, [Get ''jwks''], [Get ''jwks''])" for jwks t
    by (simp add: received_def)
  with accepted_only_with_current_key [OF example_run] example_run show ?thesis by blast
qed



text \<open>
  Without a JWKS address nothing is verified: any three parts whose middle one decodes to claims are
  accepted by \<open>decode_and_verify_jwt\<close>, whatever the signature.
\<close>

theorem unsigned_token_accepted:
  assumes "CHR ''.'' \<notin> set h" and "CHR ''.'' \<notin> set p" and "CHR ''.'' \<notin> set s"
    and "tl_b64_decode L p = Inr payload" and "tl_parse_claims L payload = Inr claims"
  shows "decode_and_verify_jwt L ts (TokenValidator_new issuer audience) (h @ CHR ''.'' # p @ CHR ''.'' # s) sent =
     (Inr claims, TokenValidator_new issuer audience, sent)"
proof -
  have "split_on CHR ''.'' (h @ CHR ''.'' # p @ CHR ''.'' # s) = [h, p, s]"
    using assms(1-3) by (simp add: split_on_append split_on_none)
  with assms(4,5) show ?thesis
    by (simp add: decode_and_verify_jwt_def decode_jwt_claims_def TokenValidator_new_def elem_at_def lift_err_def)
qed

end
