(* ===== verification/Auth_Provider.thy ===== *)
theory Auth_Provider
  imports Auth_Externals
begin

unbundle bit_operations_syntax

text \<open>
  \<open>crates/corevpn-auth/src/provider.rs\<close> and \<open>lib.rs\<close>: provider configurations, the check of addresses
  against request forgery, and OIDC discovery. \<open>Url::parse\<close> is the argument \<open>url_parse\<close>, the validation
  of mail addresses by the crate \<open>addr\<close> the argument \<open>email_ok\<close>, the deserialiser of the metadata
  the argument \<open>parse\<close>. A secret string is the string.
\<close>

section \<open>Configurations\<close>

datatype ProviderType = Google | Microsoft | Okta | Generic

fun ProviderType_fmt :: "ProviderType \<Rightarrow> string" where
  "ProviderType_fmt Google = ''google''"
| "ProviderType_fmt Microsoft = ''microsoft''"
| "ProviderType_fmt Okta = ''okta''"
| "ProviderType_fmt Generic = ''generic''"

record ProviderConfig =
  pc_provider_type :: ProviderType
  pc_client_id :: string
  pc_client_secret :: string
  pc_issuer_url :: string
  pc_authorization_endpoint :: "string option"
  pc_token_endpoint :: "string option"
  pc_userinfo_endpoint :: "string option"
  pc_device_authorization_endpoint :: "string option"
  pc_jwks_uri :: "string option"
  pc_scopes :: "string list"
  pc_allowed_domains :: "string list"
  pc_required_groups :: "string list"
  pc_group_claim :: string
  pc_email_claim :: string
  pc_name_claim :: string
  pc_additional_params :: "(string \<times> string) list"

definition google :: "string \<Rightarrow> string \<Rightarrow> string option \<Rightarrow> ProviderConfig" where
  "google client_id client_secret allowed_domain =
     (let config = \<lparr>pc_provider_type = Google, pc_client_id = client_id, pc_client_secret = client_secret,
        pc_issuer_url = ''https://accounts.google.com'',
        pc_authorization_endpoint = Some ''https://accounts.google.com/o/oauth2/v2/auth'',
        pc_token_endpoint = Some ''https://oauth2.googleapis.com/token'',
        pc_userinfo_endpoint = Some ''https://openidconnect.googleapis.com/v1/userinfo'',
        pc_device_authorization_endpoint = Some ''https://oauth2.googleapis.com/device/code'',
        pc_jwks_uri = Some ''https://www.googleapis.com/oauth2/v3/certs'',
        pc_scopes = [''openid'', ''email'', ''profile''], pc_allowed_domains = [], pc_required_groups = [],
        pc_group_claim = ''groups'', pc_email_claim = ''email'', pc_name_claim = ''name'', pc_additional_params = []\<rparr>
      in case allowed_domain of
           Some domain \<Rightarrow> config\<lparr>pc_allowed_domains := pc_allowed_domains config @ [domain],
             pc_additional_params := AList.update ''hd'' domain (pc_additional_params config)\<rparr>
         | None \<Rightarrow> config)"

definition microsoft :: "string \<Rightarrow> string \<Rightarrow> string \<Rightarrow> ProviderConfig" where
  "microsoft client_id client_secret tenant_id =
     (let base_url = ''https://login.microsoftonline.com/'' @ tenant_id
      in \<lparr>pc_provider_type = Microsoft, pc_client_id = client_id, pc_client_secret = client_secret,
        pc_issuer_url = base_url @ ''/v2.0'',
        pc_authorization_endpoint = Some (base_url @ ''/oauth2/v2.0/authorize''),
        pc_token_endpoint = Some (base_url @ ''/oauth2/v2.0/token''),
        pc_userinfo_endpoint = Some ''https://graph.microsoft.com/oidc/userinfo'',
        pc_device_authorization_endpoint = Some (base_url @ ''/oauth2/v2.0/devicecode''),
        pc_jwks_uri = Some (base_url @ ''/discovery/v2.0/keys''),
        pc_scopes = [''openid'', ''email'', ''profile'', ''offline_access''], pc_allowed_domains = [], pc_required_groups = [],
        pc_group_claim = ''groups'', pc_email_claim = ''email'', pc_name_claim = ''name'', pc_additional_params = []\<rparr>)"

definition okta :: "string \<Rightarrow> string \<Rightarrow> string \<Rightarrow> string option \<Rightarrow> ProviderConfig" where
  "okta client_id client_secret domain auth_server_id =
     (let auth_server = (case auth_server_id of Some a \<Rightarrow> a | None \<Rightarrow> ''default'');
          base_url = ''https://'' @ domain @ ''/oauth2/'' @ auth_server
      in \<lparr>pc_provider_type = Okta, pc_client_id = client_id, pc_client_secret = client_secret,
        pc_issuer_url = base_url,
        pc_authorization_endpoint = Some (base_url @ ''/v1/authorize''),
        pc_token_endpoint = Some (base_url @ ''/v1/token''),
        pc_userinfo_endpoint = Some (base_url @ ''/v1/userinfo''),
        pc_device_authorization_endpoint = Some (base_url @ ''/v1/device/authorize''),
        pc_jwks_uri = Some (base_url @ ''/v1/keys''),
        pc_scopes = [''openid'', ''email'', ''profile'', ''groups'', ''offline_access''], pc_allowed_domains = [],
        pc_required_groups = [],
        pc_group_claim = ''groups'', pc_email_claim = ''email'', pc_name_claim = ''name'', pc_additional_params = []\<rparr>)"

definition generic :: "string \<Rightarrow> string \<Rightarrow> string \<Rightarrow> ProviderConfig" where
  "generic client_id client_secret issuer_url =
     \<lparr>pc_provider_type = Generic, pc_client_id = client_id, pc_client_secret = client_secret,
      pc_issuer_url = issuer_url, pc_authorization_endpoint = None, pc_token_endpoint = None,
      pc_userinfo_endpoint = None, pc_device_authorization_endpoint = None, pc_jwks_uri = None,
      pc_scopes = [''openid'', ''email'', ''profile''], pc_allowed_domains = [], pc_required_groups = [],
      pc_group_claim = ''groups'', pc_email_claim = ''email'', pc_name_claim = ''name'', pc_additional_params = []\<rparr>"

definition ProviderConfig_validate :: "ProviderConfig \<Rightarrow> (AuthError, unit) res" where
  "ProviderConfig_validate c =
     and_then (ensure (pc_client_id c \<noteq> []) (AuthError.ConfigError ''client_id is required'')) (\<lambda>_.
     and_then (ensure (pc_client_secret c \<noteq> []) (AuthError.ConfigError ''client_secret is required'')) (\<lambda>_.
     ensure (pc_issuer_url c \<noteq> []) (AuthError.ConfigError ''issuer_url is required'')))"

text \<open>The providers of \<open>lib.rs\<close>.\<close>

datatype KnownProvider =
    KnownGoogle (known_client_id: string) (known_client_secret: string) "string option"
  | KnownMicrosoft (known_client_id: string) (known_client_secret: string) string
  | KnownOkta (known_client_id: string) (known_client_secret: string) string "string option"
  | KnownGeneric string (known_client_id: string) (known_client_secret: string) string

fun known_issuer_url :: "KnownProvider \<Rightarrow> string" where
  "known_issuer_url (KnownGoogle _ _ _) = ''https://accounts.google.com''"
| "known_issuer_url (KnownMicrosoft _ _ tenant_id) = ''https://login.microsoftonline.com/'' @ tenant_id @ ''/v2.0''"
| "known_issuer_url (KnownOkta _ _ domain auth_server_id) =
     (case auth_server_id of
        Some server \<Rightarrow> ''https://'' @ domain @ ''/oauth2/'' @ server
      | None \<Rightarrow> ''https://'' @ domain @ ''/oauth2/default'')"
| "known_issuer_url (KnownGeneric _ _ _ issuer_url) = issuer_url"

fun known_provider_type :: "KnownProvider \<Rightarrow> string" where
  "known_provider_type (KnownGoogle _ _ _) = ''google''"
| "known_provider_type (KnownMicrosoft _ _ _) = ''microsoft''"
| "known_provider_type (KnownOkta _ _ _ _) = ''okta''"
| "known_provider_type (KnownGeneric _ _ _ _) = ''generic''"

section \<open>Addresses that may be requested\<close>

definition is_private_ip :: "IpAddr \<Rightarrow> bool" where
  "is_private_ip ip =
     (case ip of
        V4 ipv4 \<Rightarrow>
          (let octets = u32_to_be_bytes ipv4 in
           octets ! 0 = 10 \<or>
           octets ! 0 = 172 \<and> octets ! 1 \<ge> 16 \<and> octets ! 1 \<le> 31 \<or>
           octets ! 0 = 192 \<and> octets ! 1 = 168 \<or>
           octets ! 0 = 127 \<or>
           octets ! 0 = 169 \<and> octets ! 1 = 254 \<or>
           octets ! 0 = 0)
      | V6 ipv6 \<Rightarrow>
          (let segment0 = ucast (drop_bit 112 ipv6) :: u16 in
           ipv6 = 1 \<or>
           segment0 AND 0xffc0 = 0xfe80 \<or>
           segment0 AND 0xfe00 = 0xfc00))"

datatype Host = Domain string | Ipv4 u32 | Ipv6 u128

record Url =
  url_scheme :: string
  url_host :: "Host option"

text \<open>\<open>str::ends_with\<close>.\<close>

definition ends_with :: "string \<Rightarrow> string \<Rightarrow> bool" where
  "ends_with s t \<longleftrightarrow> length t \<le> length s \<and> drop (length s - length t) s = t"

definition validate_url_for_ssrf :: "(string \<Rightarrow> string + Url) \<Rightarrow> string \<Rightarrow> (AuthError, unit) res" where
  "validate_url_for_ssrf url_parse url_str =
     and_then (lift_err (\<lambda>e. AuthError.ConfigError (''Invalid URL: '' @ e)) (url_parse url_str)) (\<lambda>url.
     and_then (ensure (url_scheme url = ''https'') (AuthError.ConfigError ''Only HTTPS URLs are allowed for security'')) (\<lambda>_.
     case url_host url of
       None \<Rightarrow> Inr ()
     | Some (Domain domain) \<Rightarrow>
         and_then (ensure (\<not> (domain = ''localhost'' \<or> ends_with domain ''.localhost''))
           (AuthError.ConfigError ''localhost URLs are not allowed'')) (\<lambda>_.
         ensure (\<not> ends_with domain ''.local'') (AuthError.ConfigError ''.local domains are not allowed''))
     | Some (Ipv4 ip) \<Rightarrow>
         ensure (\<not> is_private_ip (V4 ip)) (AuthError.ConfigError ''Private IP addresses are not allowed'')
     | Some (Ipv6 ip) \<Rightarrow>
         ensure (\<not> is_private_ip (V6 ip)) (AuthError.ConfigError ''Private IP addresses are not allowed'')))"

section \<open>The provider\<close>

record OidcMetadata =
  om_issuer :: string
  om_authorization_endpoint :: string
  om_token_endpoint :: string
  om_userinfo_endpoint :: "string option"
  om_device_authorization_endpoint :: "string option"
  om_jwks_uri :: string
  om_scopes_supported :: "string list"
  om_response_types_supported :: "string list"
  om_grant_types_supported :: "string list"

record OAuthProvider =
  op_config :: ProviderConfig
  op_metadata :: "OidcMetadata option"

definition OAuthProvider_new :: "ProviderConfig \<Rightarrow> OAuthProvider" where
  "OAuthProvider_new config = \<lparr>op_config = config, op_metadata = None\<rparr>"

text \<open>What is validated of the metadata, and the configuration it gives.\<close>

definition validate_metadata :: "(string \<Rightarrow> string + Url) \<Rightarrow> OidcMetadata \<Rightarrow> (AuthError, unit) res" where
  "validate_metadata url_parse md =
     and_then (validate_url_for_ssrf url_parse (om_authorization_endpoint md)) (\<lambda>_.
     and_then (validate_url_for_ssrf url_parse (om_token_endpoint md)) (\<lambda>_.
     and_then (validate_url_for_ssrf url_parse (om_jwks_uri md)) (\<lambda>_.
     case om_userinfo_endpoint md of
       Some uri \<Rightarrow> validate_url_for_ssrf url_parse uri
     | None \<Rightarrow> Inr ())))"

definition apply_metadata :: "ProviderConfig \<Rightarrow> OidcMetadata \<Rightarrow> ProviderConfig" where
  "apply_metadata c md =
     c\<lparr>pc_authorization_endpoint := Some (om_authorization_endpoint md),
       pc_token_endpoint := Some (om_token_endpoint md),
       pc_userinfo_endpoint := om_userinfo_endpoint md,
       pc_device_authorization_endpoint := om_device_authorization_endpoint md,
       pc_jwks_uri := Some (om_jwks_uri md)\<rparr>"

definition discover ::
    "network \<Rightarrow> (string \<Rightarrow> string + Url) \<Rightarrow> (bytes \<Rightarrow> string + OidcMetadata) \<Rightarrow> OAuthProvider \<Rightarrow> Request list
       \<Rightarrow> (AuthError, unit) res \<times> OAuthProvider \<times> Request list" where
  "discover net url_parse parse p sent =
     (let discovery_url = pc_issuer_url (op_config p) @ ''/.well-known/openid-configuration'' in
      case validate_url_for_ssrf url_parse discovery_url of
        Inl e \<Rightarrow> (Inl e, p, sent)
      | Inr _ \<Rightarrow>
          (let (answer, sent) = http_send net sent (Get discovery_url) in
           case answer of
             Inl _ \<Rightarrow> (Inl (Err (DiscoveryFailed ''Failed to connect to provider'')), p, sent)
           | Inr response \<Rightarrow>
               if \<not> rsp_success response
               then (Inl (Err (DiscoveryFailed ''Provider discovery failed'')), p, sent)
               else (case rsp_json parse response of
                   Inl _ \<Rightarrow> (Inl (Err (DiscoveryFailed ''Invalid provider response'')), p, sent)
                 | Inr md \<Rightarrow>
                     (case validate_metadata url_parse md of
                        Inl e \<Rightarrow> (Inl e, p, sent)
                      | Inr _ \<Rightarrow> (Inr (), p\<lparr>op_config := apply_metadata (op_config p) md, op_metadata := Some md\<rparr>, sent)))))"

definition authorization_endpoint :: "OAuthProvider \<Rightarrow> (AuthError, string) res" where
  "authorization_endpoint p =
     ok_or (pc_authorization_endpoint (op_config p)) (AuthError.ConfigError ''authorization_endpoint not configured'')"

definition token_endpoint :: "OAuthProvider \<Rightarrow> (AuthError, string) res" where
  "token_endpoint p = ok_or (pc_token_endpoint (op_config p)) (AuthError.ConfigError ''token_endpoint not configured'')"

definition device_authorization_endpoint :: "OAuthProvider \<Rightarrow> (AuthError, string) res" where
  "device_authorization_endpoint p =
     ok_or (pc_device_authorization_endpoint (op_config p))
       (AuthError.ConfigError ''device_authorization_endpoint not configured'')"

text \<open>\<open>str::rsplit_once\<close>.\<close>

definition rsplit_once :: "char \<Rightarrow> string \<Rightarrow> (string \<times> string) option" where
  "rsplit_once c s =
     (let parts = split_on c s in
      if length parts < 2 then None else Some (join [c] (butlast parts), List.last parts))"

definition is_domain_allowed :: "(string \<Rightarrow> bool) \<Rightarrow> (string \<Rightarrow> string) \<Rightarrow> OAuthProvider \<Rightarrow> string \<Rightarrow> bool" where
  "is_domain_allowed email_ok lower p email =
     (if pc_allowed_domains (op_config p) = [] then True
      else if \<not> email_ok email then False
      else case rsplit_once (CHR ''@'') email of
             Some (_, domain) \<Rightarrow>
               (let email_domain = lower domain in
                list_ex (\<lambda>d. lower d = email_domain) (pc_allowed_domains (op_config p)))
           | None \<Rightarrow> False)"

definition is_in_required_group :: "OAuthProvider \<Rightarrow> string list \<Rightarrow> bool" where
  "is_in_required_group p groups =
     (if pc_required_groups (op_config p) = [] then True
      else list_ex (\<lambda>g. List.member groups g) (pc_required_groups (op_config p)))"

section \<open>Blocks of addresses\<close>

lemma and_not_mask_eq_iff: "(a :: 'a :: len word) AND NOT (mask n) = b AND NOT (mask n) \<longleftrightarrow> drop_bit n a = drop_bit n b"
proof
  assume h: "a AND NOT (mask n) = b AND NOT (mask n)"
  show "drop_bit n a = drop_bit n b"
  proof (rule bit_word_eqI)
    fix i assume "i < LENGTH('a)"
    have "bit (a AND NOT (mask n)) (n + i) = bit (b AND NOT (mask n)) (n + i)" by (simp only: h)
    then show "bit (drop_bit n a) i = bit (drop_bit n b) i"
      by (auto simp: bit_simps dest: bit_imp_le_length)
  qed
next
  assume h: "drop_bit n a = drop_bit n b"
  show "a AND NOT (mask n) = b AND NOT (mask n)"
  proof (rule bit_word_eqI)
    fix i assume "i < LENGTH('a)"
    have "bit (drop_bit n a) (i - n) = bit (drop_bit n b) (i - n)" by (simp only: h)
    then show "bit (a AND NOT (mask n)) i = bit (b AND NOT (mask n)) i"
      by (auto simp: bit_simps not_less)
  qed
qed

lemma unat_drop_bit: "unat (drop_bit n w) = unat (w :: 'a :: len word) div 2 ^ n"
  by (simp add: unat_drop_bit_eq drop_bit_eq_div [where 'a = nat])

lemma unat_high_lt: "n \<le> LENGTH('a) \<Longrightarrow> unat (w :: 'a :: len word) div 2 ^ (LENGTH('a) - n) < 2 ^ n"
  using unat_bound [of w] by (simp add: div_less_iff_less_mult flip: power_add)

text \<open>The block of addresses with the first \<open>n\<close> bits of \<open>net\<close>.\<close>

definition cidr :: "'a :: len word \<Rightarrow> nat \<Rightarrow> 'a word \<Rightarrow> bool" where
  "cidr net n ip \<longleftrightarrow> drop_bit (LENGTH('a) - n) ip = drop_bit (LENGTH('a) - n) net"

lemma cidr_unat: "cidr net n (ip :: 'a :: len word) \<longleftrightarrow> unat ip div 2 ^ (LENGTH('a) - n) = unat net div 2 ^ (LENGTH('a) - n)"
  by (simp add: cidr_def word_unat_eq_iff unat_drop_bit)

lemma unat_octet:
  "unat (u32_to_be_bytes ip ! 0) = unat ip div 2 ^ 16 div 256" "unat (u32_to_be_bytes ip ! 1) = unat ip div 2 ^ 16 mod 256"
proof -
  have "unat ip div 2 ^ 24 < 2 ^ 8" using unat_high_lt [of 8 ip] by simp
  then show "unat (u32_to_be_bytes ip ! 0) = unat ip div 2 ^ 16 div 256" "unat (u32_to_be_bytes ip ! 1) = unat ip div 2 ^ 16 mod 256"
    by (simp_all add: u32_to_be_bytes_def unsigned_ucast_eq unat_drop_bit take_bit_eq_mod flip: div_mult2_eq)
qed

lemma unat_segment: "unat (ucast (drop_bit 112 (ip :: u128)) :: u16) = unat ip div 2 ^ 112"
  using unat_high_lt [of 16 ip] by (simp add: unsigned_ucast_eq unat_drop_bit take_bit_eq_mod)

lemma and_block:
  assumes "m = NOT (mask n)" and "b AND NOT (mask n) = b"
  shows "(s :: 'a :: len word) AND m = b \<longleftrightarrow> unat s div 2 ^ n = unat b div 2 ^ n"
  using and_not_mask_eq_iff [of s n b] assms by (simp add: word_unat_eq_iff [of "drop_bit n s"] unat_drop_bit)

lemma div_mod_256_iff: "(k :: nat) div 256 = a \<and> k mod 256 = b \<longleftrightarrow> k = 256 * a + b \<and> b < 256"
  by (metis div_mult_mod_eq div_mult_self4 mod_less_divisor mod_mult_self4 mult.commute add.commute add_0 div_less mod_less zero_less_numeral zero_neq_numeral)

lemma block172: "(k :: nat) div 256 = 172 \<and> 16 \<le> k mod 256 \<and> k mod 256 \<le> 31 \<longleftrightarrow> k div 16 = 2753"
proof -
  have k: "k = 256 * (k div 256) + k mod 256" "k mod 256 < 256" "k = 16 * (k div 16) + k mod 16" "k mod 16 < 16" by simp_all
  show ?thesis
  proof
    assume "k div 256 = 172 \<and> 16 \<le> k mod 256 \<and> k mod 256 \<le> 31"
    with k(1) have "44048 \<le> k" "k < 44064" by linarith+
    with k(3,4) show "k div 16 = 2753" by linarith
  next
    assume "k div 16 = 2753"
    with k(3,4) have "44048 \<le> k" "k < 44064" by linarith+
    moreover from this k(1,2) have "k div 256 = 172" by linarith
    ultimately show "k div 256 = 172 \<and> 16 \<le> k mod 256 \<and> k mod 256 \<le> 31" using k(1) by linarith
  qed
qed

definition private_blocks4 :: "(u32 \<times> nat) list" where
  "private_blocks4 = [(0x0a000000, 8), (0xac100000, 12), (0xc0a80000, 16), (0x7f000000, 8), (0xa9fe0000, 16), (0, 8)]"

definition private_blocks6 :: "(u128 \<times> nat) list" where
  "private_blocks6 = [(1, 128), (push_bit 112 0xfe80, 10), (push_bit 112 0xfc00, 7)]"

text \<open>The tests on octets and segments are the blocks named in the comments of the code.\<close>

lemma is_private_ip_v4: "is_private_ip (V4 ip) \<longleftrightarrow> list_ex (\<lambda>(net, n). cidr net n ip) private_blocks4"
proof -
  define k where "k = unat ip div 2 ^ 16"
  have div: "unat ip div 16777216 = k div 256" "unat ip div 1048576 = k div 16" "unat ip div 65536 = k"
    unfolding k_def by (simp_all flip: div_mult2_eq)
  have octets: "unat (u32_to_be_bytes ip ! 0) = k div 256" "unat (u32_to_be_bytes ip ! Suc 0) = k mod 256"
    using unat_octet [of ip] by (simp_all add: k_def)
  show ?thesis
    by (simp add: is_private_ip_def private_blocks4_def Let_def word_unat_eq_iff word_le_nat_alt cidr_unat octets div
        block172 div_mod_256_iff)
qed

lemma is_private_ip_v6: "is_private_ip (V6 ip) \<longleftrightarrow> list_ex (\<lambda>(net, n). cidr net n ip) private_blocks6"
proof -
  have "(0xffc0 :: u16) = NOT (mask 6)" "(0xfe00 :: u16) = NOT (mask 9)"
    "(0xfe80 :: u16) AND NOT (mask 6) = 0xfe80" "(0xfc00 :: u16) AND NOT (mask 9) = 0xfc00"
    by (simp_all add: mask_eq_exp_minus_1)
  then show ?thesis
    by (simp add: is_private_ip_def private_blocks6_def Let_def and_block [of "0xffc0" 6] and_block [of "0xfe00" 9]
        unat_segment cidr_unat word_unat_eq_iff [of ip 1] flip: div_mult2_eq)
qed

text \<open>An address of the IPv4 network written as an IPv6 address is never private, not even loopback.\<close>

definition ipv4_mapped :: "u32 \<Rightarrow> u128" where
  "ipv4_mapped ip = 0xffff00000000 + ucast ip"

lemma unat_ipv4_mapped: "unat (ipv4_mapped ip) = 0xffff00000000 + unat ip"
proof -
  have "unat (ucast ip :: u128) = unat ip" using unat_bound [of ip] by (simp add: unsigned_ucast_eq take_bit_nat_eq_self)
  then show ?thesis using unat_bound [of ip] by (simp add: ipv4_mapped_def unat_word_ariths)
qed

lemma ipv4_mapped_not_private: "\<not> is_private_ip (V6 (ipv4_mapped ip))"
  using unat_bound [of ip]
  by (simp add: is_private_ip_v6 private_blocks6_def cidr_unat unat_ipv4_mapped)

section \<open>Discovery\<close>

text \<open>An address outside the private blocks, by https, and not a local name.\<close>

definition public_url :: "(string \<Rightarrow> string + Url) \<Rightarrow> string \<Rightarrow> bool" where
  "public_url url_parse s \<longleftrightarrow> (\<exists>url. url_parse s = Inr url \<and> url_scheme url = ''https'' \<and>
     (case url_host url of
        None \<Rightarrow> True
      | Some (Domain d) \<Rightarrow> d \<noteq> ''localhost'' \<and> \<not> ends_with d ''.localhost'' \<and> \<not> ends_with d ''.local''
      | Some (Ipv4 ip) \<Rightarrow> \<not> list_ex (\<lambda>(net, n). cidr net n ip) private_blocks4
      | Some (Ipv6 ip) \<Rightarrow> \<not> list_ex (\<lambda>(net, n). cidr net n ip) private_blocks6))"

lemma validate_url_iff: "validate_url_for_ssrf url_parse s = Inr () \<longleftrightarrow> public_url url_parse s"
  by (auto simp: validate_url_for_ssrf_def public_url_def res_simps is_private_ip_v4 is_private_ip_v6
      split: option.splits Host.splits)

lemma validate_metadata_iff:
  "validate_metadata url_parse md = Inr () \<longleftrightarrow>
     public_url url_parse (om_authorization_endpoint md) \<and> public_url url_parse (om_token_endpoint md) \<and>
     public_url url_parse (om_jwks_uri md) \<and> pred_option (public_url url_parse) (om_userinfo_endpoint md)"
  by (auto simp: validate_metadata_def res_simps validate_url_iff split: option.splits)

text \<open>Where discovery looks.\<close>

definition discovery_url :: "OAuthProvider \<Rightarrow> string" where
  "discovery_url p = pc_issuer_url (op_config p) @ ''/.well-known/openid-configuration''"

text \<open>What can come of it: nothing is sent, the request fails or its answer is refused, or success.\<close>

lemma discover_cases:
  assumes "discover net url_parse parse p sent = (r, p', sent')"
  obtains (refused) "\<not> is_ok r" and "p' = p" and "sent' = sent"
    | (failed) "\<not> is_ok r" and "p' = p" and "sent' = sent @ [Get (discovery_url p)]"
        and "public_url url_parse (discovery_url p)"
    | (found) md where "r = Inr ()" and "sent' = sent @ [Get (discovery_url p)]"
        and "public_url url_parse (discovery_url p)"
        and "answered net parse sent (Get (discovery_url p)) md" and "validate_metadata url_parse md = Inr ()"
        and "p' = p\<lparr>op_config := apply_metadata (op_config p) md, op_metadata := Some md\<rparr>"
proof -
  note def = assms [unfolded discover_def http_send_def, folded discovery_url_def, simplified]
  show thesis
  proof (cases "validate_url_for_ssrf url_parse (discovery_url p)")
    case (Inl e)
    with def show thesis by (intro refused) (auto simp: is_ok_def)
  next
    case url: (Inr u)
    then have public: "public_url url_parse (discovery_url p)" by (simp add: validate_url_iff [symmetric])
    show thesis
    proof (cases "net sent (Get (discovery_url p))")
      case (Inl e)
      with def url public show thesis by (intro failed) (auto simp: is_ok_def)
    next
      case rsp: (Inr response)
      show thesis
      proof (cases "rsp_success response")
        case False
        with def url public rsp show thesis by (intro failed) (auto simp: is_ok_def)
      next
        case True
        show thesis
        proof (cases "rsp_json parse response")
          case (Inl e)
          with def url public rsp True show thesis by (intro failed) (auto simp: is_ok_def)
        next
          case md: (Inr md)
          then have answered: "answered net parse sent (Get (discovery_url p)) md"
            using rsp True by (simp add: answered_def)
          show thesis
          proof (cases "validate_metadata url_parse md")
            case (Inl e)
            with def url public rsp True md show thesis by (intro failed) (auto simp: is_ok_def)
          next
            case (Inr u')
            with def url rsp True md show thesis by (intro found [OF _ _ public answered]) auto
          qed
        qed
      qed
    qed
  qed
qed

lemma discover_found:
  assumes "public_url url_parse (discovery_url p)" and "answered net parse sent (Get (discovery_url p)) md"
    and "validate_metadata url_parse md = Inr ()"
  shows "discover net url_parse parse p sent =
     (Inr (), p\<lparr>op_config := apply_metadata (op_config p) md, op_metadata := Some md\<rparr>, sent @ [Get (discovery_url p)])"
  using assms
  by (auto simp: discover_def http_send_def answered_def validate_url_iff [symmetric] simp flip: discovery_url_def)

text \<open>The configuration of a known provider has its issuer.\<close>

lemma known_issuer_agrees:
  "known_issuer_url (KnownGoogle i s d) = pc_issuer_url (google i s d)"
  "known_issuer_url (KnownMicrosoft i s t) = pc_issuer_url (microsoft i s t)"
  "known_issuer_url (KnownOkta i s host a) = pc_issuer_url (okta i s host a)"
  "known_issuer_url (KnownGeneric n i s u) = pc_issuer_url (generic i s u)"
  by (simp_all add: google_def microsoft_def okta_def generic_def Let_def split: option.split)

text \<open>A mail address is allowed by the part after its last \<open>@\<close>.\<close>

lemma rsplit_once_last: "CHR ''@'' \<notin> set d \<Longrightarrow> rsplit_once CHR ''@'' (l @ CHR ''@'' # d) = Some (l, d)"
proof -
  assume d: "CHR ''@'' \<notin> set d"
  have "split_on CHR ''@'' (l @ CHR ''@'' # d) = split_on CHR ''@'' l @ [d]"
    by (induction l) (auto simp: split_on_none [OF d] split: list.split)
  then show ?thesis
    by (simp add: rsplit_once_def Let_def split_on_parts butlast_append Suc_le_eq)
qed

lemma is_domain_allowed_iff:
  assumes "CHR ''@'' \<notin> set d" and "pc_allowed_domains (op_config p) \<noteq> []"
  shows "is_domain_allowed email_ok lower p (l @ CHR ''@'' # d) \<longleftrightarrow>
     email_ok (l @ CHR ''@'' # d) \<and> (\<exists>a\<in>set (pc_allowed_domains (op_config p)). lower a = lower d)"
  using assms by (auto simp: is_domain_allowed_def rsplit_once_last Let_def list_ex_iff)

section \<open>Properties\<close>


text \<open>A provider whose endpoints are public names, but whose device endpoint is a link-local address.\<close>

definition example_url_parse :: "string \<Rightarrow> string + Url" where
  "example_url_parse s =
     (if take 8 s = ''https://'' then Inr \<lparr>url_scheme = ''https'', url_host = Some (Domain (takeWhile (\<lambda>c. c \<noteq> CHR ''/'') (drop 8 s)))\<rparr>
      else if take 7 s = ''http://'' then Inr \<lparr>url_scheme = ''http'', url_host = Some (Domain (drop 7 s))\<rparr>
      else Inl ''relative URL without a base'')"

definition example_metadata :: OidcMetadata where
  "example_metadata =
     \<lparr>om_issuer = ''https://idp.org'', om_authorization_endpoint = ''https://idp.org/a'', om_token_endpoint = ''https://idp.org/t'',
      om_userinfo_endpoint = None, om_device_authorization_endpoint = Some ''http://169.254.169.254'',
      om_jwks_uri = ''https://idp.org/k'', om_scopes_supported = [], om_response_types_supported = [],
      om_grant_types_supported = []\<rparr>"

definition example_net :: network where
  "example_net sent req = Inr \<lparr>rsp_success = True, rsp_status = ''200 OK'', rsp_body = Inr []\<rparr>"

definition example_provider :: OAuthProvider where
  "example_provider = OAuthProvider_new (generic ''id'' ''secret'' ''https://idp.org'')"

lemma example_urls:
  "public_url example_url_parse (discovery_url example_provider)" "public_url example_url_parse ''https://idp.org/a''"
  "public_url example_url_parse ''https://idp.org/t''" "public_url example_url_parse ''https://idp.org/k''"
  "\<not> public_url example_url_parse ''http://169.254.169.254''"
  by (simp_all add: public_url_def example_url_parse_def discovery_url_def example_provider_def OAuthProvider_new_def
      generic_def ends_with_def)

lemma example_discovery:
  "answered example_net (\<lambda>_. Inr example_metadata) sent req example_metadata"
  "validate_metadata example_url_parse example_metadata = Inr ()"
  by (simp_all add: answered_def example_net_def rsp_json_def validate_metadata_iff example_metadata_def example_urls)


end
