(* ===== verification/Auth_Flow.thy ===== *)
theory Auth_Flow
  imports Auth_Tokens Auth_Provider Rate_Limiter
begin

text \<open>
  \<open>crates/corevpn-auth/src/flow.rs\<close>: the authorization code flow and the device flow of OAuth 2.
  SHA-256, the base64 encodings and the percent encoding are arguments, as are random UUIDs and bytes
  and the deserialisers of the responses. Log messages are left out; a body that is read only for
  them does not change the result.
\<close>

section \<open>The state of a login\<close>

record AuthState =
  as_state :: string
  as_nonce :: string
  as_code_verifier :: string
  as_created_at :: date_time
  as_expires_at :: date_time
  as_metadata :: "(string \<times> string) list"

definition generate_code_verifier :: "(bytes \<Rightarrow> string) \<Rightarrow> bytes \<Rightarrow> string" where
  "generate_code_verifier b64_encode random_bytes = b64_encode random_bytes"

text \<open>\<open>chrono::Duration::from_std(d).unwrap_or_else(|_| seconds(fallback))\<close>.\<close>

definition from_std_or :: "chrono \<Rightarrow> duration \<Rightarrow> int \<Rightarrow> (AuthError, time_delta) res" where
  "from_std_or C d fallback = (case ch_from_std C d of Some t \<Rightarrow> Inr t | None \<Rightarrow> or_panic (ch_seconds C fallback))"

definition AuthState_new ::
    "chrono \<Rightarrow> (bytes \<Rightarrow> string) \<Rightarrow> date_time \<Rightarrow> string \<Rightarrow> string \<Rightarrow> bytes \<Rightarrow> duration \<Rightarrow> (AuthError, AuthState) res" where
  "AuthState_new C b64_encode now uuid uuid' random_bytes lifetime =
     and_then (from_std_or C lifetime 600) (\<lambda>d.
     and_then (or_panic (ch_add C now d)) (\<lambda>expires_at.
     Inr \<lparr>as_state = uuid, as_nonce = uuid', as_code_verifier = generate_code_verifier b64_encode random_bytes,
          as_created_at = now, as_expires_at = expires_at, as_metadata = []\<rparr>))"

definition AuthState_is_expired :: "date_time \<Rightarrow> AuthState \<Rightarrow> bool" where
  "AuthState_is_expired now st \<longleftrightarrow> now > as_expires_at st"

definition code_challenge :: "(bytes \<Rightarrow> bytes) \<Rightarrow> (bytes \<Rightarrow> string) \<Rightarrow> AuthState \<Rightarrow> string" where
  "code_challenge sha256 b64_encode st = b64_encode (sha256 (str_bytes (as_code_verifier st)))"

section \<open>Responses\<close>

record TokenResponse =
  tr_access_token :: string
  tr_refresh_token :: "string option"
  tr_id_token :: "string option"
  tr_expires_in :: "u64 option"
  tr_token_type :: string
  tr_scope :: "string option"

record DeviceAuthResponse =
  dr_device_code :: string
  dr_user_code :: string
  dr_verification_uri :: string
  dr_verification_uri_complete :: "string option"
  dr_expires_in :: u64
  dr_interval :: u64

definition default_interval :: u64 where "default_interval = 5"

record ErrorResponse =
  er_error :: string
  er_error_description :: "string option"

text \<open>The token set of a response; its lifetime is cast to \<open>i64\<close> and added to the clock.\<close>

definition token_set :: "chrono \<Rightarrow> date_time \<Rightarrow> TokenResponse \<Rightarrow> (AuthError, TokenSet) res" where
  "token_set C now r =
     and_then (or_panic (ch_seconds C (sint (case tr_expires_in r of Some n \<Rightarrow> n | None \<Rightarrow> 3600)))) (\<lambda>d.
     and_then (or_panic (ch_add C now d)) (\<lambda>expires_at.
     Inr \<lparr>tk_access_token = tr_access_token r, tk_refresh_token = tr_refresh_token r, tk_id_token = tr_id_token r,
          tk_expires_at = expires_at, tk_token_type = tr_token_type r,
          tk_scopes = (case tr_scope r of Some s \<Rightarrow> split_on (CHR '' '') s | None \<Rightarrow> [])\<rparr>))"

section \<open>The authorization code flow\<close>

record AuthFlow =
  af_provider :: OAuthProvider
  af_redirect_uri :: string
  af_rate_limiter :: RateLimiter

definition AuthFlow_new :: "OAuthProvider \<Rightarrow> string \<Rightarrow> AuthFlow" where
  "AuthFlow_new provider redirect_uri =
     \<lparr>af_provider = provider, af_redirect_uri = redirect_uri, af_rate_limiter = RateLimiter_new 5 (300 * 10 ^ 9)\<rparr>"

definition with_rate_limiter :: "OAuthProvider \<Rightarrow> string \<Rightarrow> RateLimiter \<Rightarrow> AuthFlow" where
  "with_rate_limiter provider redirect_uri rate_limiter =
     \<lparr>af_provider = provider, af_redirect_uri = redirect_uri, af_rate_limiter = rate_limiter\<rparr>"

text \<open>The loops that append the parameters: separated by \<open>&\<close>, then each after a \<open>&\<close>.\<close>

fun push_params :: "(string \<Rightarrow> string) \<Rightarrow> nat \<Rightarrow> (string \<times> string) list \<Rightarrow> string \<Rightarrow> string" where
  "push_params enc i [] url = url"
| "push_params enc i ((key, value) # ps) url =
     (let url = (if i > 0 then url @ ''&'' else url)
      in push_params enc (Suc i) ps (url @ key @ ''='' @ enc value))"

fun push_additional :: "(string \<Rightarrow> string) \<Rightarrow> (string \<times> string) list \<Rightarrow> string \<Rightarrow> string" where
  "push_additional enc [] url = url"
| "push_additional enc ((key, value) # ps) url = push_additional enc ps (url @ ''&'' @ key @ ''='' @ enc value)"

definition url_params :: "(bytes \<Rightarrow> bytes) \<Rightarrow> (bytes \<Rightarrow> string) \<Rightarrow> AuthFlow \<Rightarrow> AuthState \<Rightarrow> (string \<times> string) list" where
  "url_params sha256 b64_encode flow st =
     (let config = op_config (af_provider flow) in
      [(''client_id'', pc_client_id config), (''response_type'', ''code''), (''redirect_uri'', af_redirect_uri flow),
       (''state'', as_state st), (''nonce'', as_nonce st), (''code_challenge'', code_challenge sha256 b64_encode st),
       (''code_challenge_method'', ''S256''), (''scope'', join '' '' (pc_scopes config))])"

definition authorization_url ::
    "(bytes \<Rightarrow> bytes) \<Rightarrow> (bytes \<Rightarrow> string) \<Rightarrow> (string \<Rightarrow> string) \<Rightarrow> AuthFlow \<Rightarrow> AuthState \<Rightarrow> (AuthError, string) res" where
  "authorization_url sha256 b64_encode enc flow st =
     and_then (authorization_endpoint (af_provider flow)) (\<lambda>endpoint.
     let url = push_params enc 0 (url_params sha256 b64_encode flow st) (endpoint @ ''?'')
     in Inr (push_additional enc (pc_additional_params (op_config (af_provider flow))) url))"

text \<open>A request for tokens: the errors differ, the handling of the response does not.\<close>

definition request_tokens ::
    "chrono \<Rightarrow> network \<Rightarrow> (bytes \<Rightarrow> string + TokenResponse) \<Rightarrow> date_time \<Rightarrow> Request \<Rightarrow> AuthError \<Rightarrow> Request list
       \<Rightarrow> (AuthError, TokenSet) res \<times> Request list" where
  "request_tokens C net parse now req failure sent =
     (let (answer, sent) = http_send net sent req in
      (case answer of
         Inl _ \<Rightarrow> Inl (Err failure)
       | Inr response \<Rightarrow>
           if \<not> rsp_success response then Inl (Err failure)
           else and_then (lift_err HttpError (rsp_json parse response)) (token_set C now), sent))"

definition exchange_code ::
    "chrono \<Rightarrow> network \<Rightarrow> (bytes \<Rightarrow> string + TokenResponse) \<Rightarrow> date_time \<Rightarrow> AuthFlow \<Rightarrow> string \<Rightarrow> AuthState \<Rightarrow> Request list
       \<Rightarrow> (AuthError, TokenSet) res \<times> Request list" where
  "exchange_code C net parse now flow auth_code st sent =
     (case token_endpoint (af_provider flow) of
        Inl e \<Rightarrow> (Inl e, sent)
      | Inr endpoint \<Rightarrow>
          (let config = op_config (af_provider flow) in
           request_tokens C net parse now
             (Post endpoint
               [(''grant_type'', ''authorization_code''), (''client_id'', pc_client_id config),
                (''client_secret'', pc_client_secret config), (''code'', auth_code),
                (''redirect_uri'', af_redirect_uri flow), (''code_verifier'', as_code_verifier st)])
             (OAuth2Error ''Authentication failed'') sent))"

definition refresh_token ::
    "chrono \<Rightarrow> network \<Rightarrow> (bytes \<Rightarrow> string + TokenResponse) \<Rightarrow> date_time \<Rightarrow> AuthFlow \<Rightarrow> string \<Rightarrow> Request list
       \<Rightarrow> (AuthError, TokenSet) res \<times> Request list" where
  "refresh_token C net parse now flow token sent =
     (case token_endpoint (af_provider flow) of
        Inl e \<Rightarrow> (Inl e, sent)
      | Inr endpoint \<Rightarrow>
          (let config = op_config (af_provider flow) in
           request_tokens C net parse now
             (Post endpoint
               [(''grant_type'', ''refresh_token''), (''client_id'', pc_client_id config),
                (''client_secret'', pc_client_secret config), (''refresh_token'', token)])
             (TokenRefreshFailed ''Token refresh failed'') sent))"

section \<open>The device flow\<close>

record DeviceAuthFlow =
  df_provider :: OAuthProvider
  df_rate_limiter :: RateLimiter

definition DeviceAuthFlow_new :: "OAuthProvider \<Rightarrow> DeviceAuthFlow" where
  "DeviceAuthFlow_new provider = \<lparr>df_provider = provider, df_rate_limiter = RateLimiter_new 10 (600 * 10 ^ 9)\<rparr>"

definition start ::
    "network \<Rightarrow> (bytes \<Rightarrow> string + DeviceAuthResponse) \<Rightarrow> instant \<Rightarrow> DeviceAuthFlow \<Rightarrow> string option \<Rightarrow> Request list
       \<Rightarrow> (AuthError, DeviceAuthResponse) res \<times> DeviceAuthFlow \<times> Request list" where
  "start net parse clock flow client_ip sent =
     (let rate_limit_key = (case client_ip of Some ip \<Rightarrow> ip | None \<Rightarrow> ''unknown'');
          (allowed, limiter) = check (df_rate_limiter flow) clock rate_limit_key;
          flow = flow\<lparr>df_rate_limiter := limiter\<rparr> in
      if \<not> allowed then (Inl (Err (OAuth2Error ''Too many device authorization attempts'')), flow, sent)
      else case device_authorization_endpoint (df_provider flow) of
             Inl e \<Rightarrow> (Inl e, flow, sent)
           | Inr endpoint \<Rightarrow>
               (let config = op_config (df_provider flow);
                    (answer, sent) = http_send net sent
                      (Post endpoint [(''client_id'', pc_client_id config), (''scope'', join '' '' (pc_scopes config))]) in
                (case answer of
                   Inl e \<Rightarrow> Inl (Err (HttpError e))
                 | Inr response \<Rightarrow>
                     if \<not> rsp_success response then Inl (Err (OAuth2Error ''Device authorization failed''))
                     else lift_err HttpError (rsp_json parse response), flow, sent)))"

definition poll ::
    "chrono \<Rightarrow> network \<Rightarrow> (bytes \<Rightarrow> string + TokenResponse) \<Rightarrow> (bytes \<Rightarrow> string + ErrorResponse) \<Rightarrow> instant \<Rightarrow> date_time
       \<Rightarrow> DeviceAuthFlow \<Rightarrow> string \<Rightarrow> string option \<Rightarrow> Request list
       \<Rightarrow> (AuthError, TokenSet) res \<times> DeviceAuthFlow \<times> Request list" where
  "poll C net parse parse_error clock now flow device_code client_ip sent =
     (let rate_limit_key = (case client_ip of Some ip \<Rightarrow> ip | None \<Rightarrow> device_code);
          (allowed, limiter) = check (df_rate_limiter flow) clock rate_limit_key;
          flow = flow\<lparr>df_rate_limiter := limiter\<rparr> in
      if \<not> allowed then (Inl (Err (OAuth2Error ''Too many polling attempts'')), flow, sent)
      else case token_endpoint (df_provider flow) of
             Inl e \<Rightarrow> (Inl e, flow, sent)
           | Inr endpoint \<Rightarrow>
               (let config = op_config (df_provider flow);
                    (answer, sent) = http_send net sent
                      (Post endpoint
                        [(''grant_type'', ''urn:ietf:params:oauth:grant-type:device_code''), (''client_id'', pc_client_id config),
                         (''client_secret'', pc_client_secret config), (''device_code'', device_code)]) in
                (case answer of
                   Inl e \<Rightarrow> Inl (Err (HttpError e))
                 | Inr response \<Rightarrow>
                     if \<not> rsp_success response
                     then and_then (lift_err (\<lambda>_. OAuth2Error ''Device authorization failed'') (rsp_json parse_error response)) (\<lambda>er.
                          if er_error er = ''authorization_pending'' then Inl (Err AuthorizationPending)
                          else if er_error er = ''slow_down'' then Inl (Err AuthorizationPending)
                          else if er_error er = ''expired_token'' then Inl (Err DeviceAuthExpired)
                          else Inl (Err (OAuth2Error ''Device authorization failed'')))
                     else and_then (lift_err HttpError (rsp_json parse response)) (token_set C now), flow, sent)))"

definition generate_vpn_auth_challenge :: "(bytes \<Rightarrow> string) \<Rightarrow> DeviceAuthResponse \<Rightarrow> string" where
  "generate_vpn_auth_challenge b64_standard r =
     ''CRV1:R,E:'' @ b64_standard (str_bytes (dr_device_code r)) @ '':Please visit '' @ dr_verification_uri r @
     '' and enter code: '' @ dr_user_code r"

section \<open>Lemmas\<close>

text \<open>The query of the authorization address, as one list of parameters.\<close>

definition query :: "(string \<Rightarrow> string) \<Rightarrow> (string \<times> string) list \<Rightarrow> string" where
  "query enc ps = join ''&'' (map (\<lambda>(key, value). key @ ''='' @ enc value) ps)"

lemma push_params_rest:
  "i > 0 \<Longrightarrow> push_params enc i ps url = url @ concat (map (\<lambda>(key, value). ''&'' @ key @ ''='' @ enc value) ps)"
  by (induction enc i ps url rule: push_params.induct) (auto simp: Let_def)

lemma push_additional_eq:
  "push_additional enc ps url = url @ concat (map (\<lambda>(key, value). ''&'' @ key @ ''='' @ enc value) ps)"
  by (induction enc ps url rule: push_additional.induct) auto

lemma join_Cons_concat: "join sep (x # xs) = x @ concat (map (\<lambda>y. sep @ y) xs)"
  by (induction xs arbitrary: x) auto

lemma push_params_query:
  "ps \<noteq> [] \<Longrightarrow> push_additional enc qs (push_params enc 0 ps url) = url @ query enc (ps @ qs)"
proof (cases ps)
  case (Cons p ps')
  obtain key val where "p = (key, val)" by (cases p)
  then show ?thesis
    by (simp add: Cons Let_def push_params_rest push_additional_eq query_def join_Cons_concat comp_def case_prod_unfold)
qed simp

lemma authorization_url_eq:
  "authorization_url sha256 b64 enc flow st =
     and_then (authorization_endpoint (af_provider flow)) (\<lambda>endpoint.
     Inr (endpoint @ ''?'' @ query enc (url_params sha256 b64 flow st @ pc_additional_params (op_config (af_provider flow)))))"
proof -
  have "url_params sha256 b64 flow st \<noteq> []" by (simp add: url_params_def Let_def)
  from push_params_query [OF this] show ?thesis by (simp add: authorization_url_def Let_def)
qed

text \<open>How a provider reads a query: split at \<open>&\<close>, each part at its first \<open>=\<close>, and decode the value.\<close>

definition read_param :: "(string \<Rightarrow> string) \<Rightarrow> string \<Rightarrow> string \<times> string" where
  "read_param dec s = (takeWhile (\<lambda>c. c \<noteq> CHR ''='') s, dec (tl (dropWhile (\<lambda>c. c \<noteq> CHR ''='') s)))"

definition read_query :: "(string \<Rightarrow> string) \<Rightarrow> string \<Rightarrow> (string \<times> string) list" where
  "read_query dec q = map (read_param dec) (split_on CHR ''&'' q)"

text \<open>Percent encoding can be undone and never produces a separator.\<close>

definition encoding_laws :: "(string \<Rightarrow> string) \<Rightarrow> (string \<Rightarrow> string) \<Rightarrow> bool" where
  "encoding_laws enc dec \<longleftrightarrow> (\<forall>s. dec (enc s) = s \<and> CHR ''&'' \<notin> set (enc s))"

lemma read_param_roundtrip:
  "encoding_laws enc dec \<Longrightarrow> CHR ''='' \<notin> set key \<Longrightarrow> read_param dec (key @ ''='' @ enc val) = (key, val)"
  by (simp add: read_param_def encoding_laws_def takeWhile_tail dropWhile_append takeWhile_append2 dropWhile_eq_Nil_conv)

lemma read_query_roundtrip:
  assumes "encoding_laws enc dec" and "ps \<noteq> []" and "\<forall>(key, val)\<in>set ps. CHR ''='' \<notin> set key \<and> CHR ''&'' \<notin> set key"
  shows "read_query dec (query enc ps) = ps"
proof -
  have "split_on CHR ''&'' (query enc ps) = map (\<lambda>(key, val). key @ ''='' @ enc val) ps"
    unfolding query_def by (rule split_on_join) (use assms in \<open>auto simp: encoding_laws_def\<close>)
  moreover have "map (\<lambda>p. read_param dec (case p of (key, val) \<Rightarrow> key @ ''='' @ enc val)) ps = ps"
    by (rule map_idI) (use assms(1,3) in \<open>auto simp: read_param_roundtrip [simplified]\<close>)
  ultimately show ?thesis by (simp add: read_query_def comp_def)
qed

text \<open>
  A response with a lifetime that leaves the range of dates stops the process: the server decides
  about it.
\<close>

lemma token_set_panics_iff:
  fixes r :: TokenResponse
  assumes "chrono_laws C lo hi widest"
  defines "d \<equiv> sint (case tr_expires_in r of Some n \<Rightarrow> n | None \<Rightarrow> 3600) * 10 ^ 9"
  shows "token_set C now r = Inl Panic \<longleftrightarrow> \<not> (\<bar>d\<bar> \<le> widest \<and> lo \<le> now + d \<and> now + d \<le> hi)"
  using assms(1) unfolding token_set_def chrono_laws_def d_def by (simp add: or_panic_def)

lemma request_tokens_sent: "snd (request_tokens C net parse now req failure sent) = sent @ [req]"
  by (simp add: request_tokens_def http_send_def)

text \<open>Secrets are only sent to the configured token endpoint.\<close>

lemma tokens_only_from_endpoint:
  "snd (exchange_code C net parse now flow auth_code st sent) = sent \<or>
   (\<exists>url form. pc_token_endpoint (op_config (af_provider flow)) = Some url \<and>
      snd (exchange_code C net parse now flow auth_code st sent) = sent @ [Post url form])"
  "snd (refresh_token C net parse now flow token sent) = sent \<or>
   (\<exists>url form. pc_token_endpoint (op_config (af_provider flow)) = Some url \<and>
      snd (refresh_token C net parse now flow token sent) = sent @ [Post url form])"
  by (auto simp: exchange_code_def refresh_token_def token_endpoint_def request_tokens_sent res_simps Let_def split: sum.split)

lemma start_sent:
  assumes "pc_device_authorization_endpoint (op_config (df_provider flow)) = Some url"
    and "fst (check (df_rate_limiter flow) clock (case ip of Some ip \<Rightarrow> ip | None \<Rightarrow> ''unknown''))"
  shows "snd (snd (start net parse clock flow ip sent)) = sent @ [Post url
     [(''client_id'', pc_client_id (op_config (df_provider flow))), (''scope'', join '' '' (pc_scopes (op_config (df_provider flow))))]]"
  using assms by (simp add: start_def device_authorization_endpoint_def ok_or_def http_send_def split_beta Let_def)

lemma check_first: "limit > 0 \<Longrightarrow> fst (check (RateLimiter_new limit window) now key)"
  by (simp add: check_def RateLimiter_new_def hm_retain_def Let_def word_le_nat_alt word_less_nat_alt Suc_le_eq)

section \<open>Properties\<close>


text \<open>An encoding that doubles \<open>%\<close> and writes \<open>&\<close> as \<open>%a\<close>.\<close>

fun example_enc :: "string \<Rightarrow> string" where
  "example_enc [] = []"
| "example_enc (c # cs) = (if c = CHR ''%'' then ''%%'' else if c = CHR ''&'' then ''%a'' else [c]) @ example_enc cs"

fun example_dec :: "string \<Rightarrow> string" where
  "example_dec [] = []"
| "example_dec (c # cs) =
     (if c = CHR ''%'' then (case cs of [] \<Rightarrow> [] | d # ds \<Rightarrow> (if d = CHR ''%'' then CHR ''%'' else CHR ''&'') # example_dec ds)
      else c # example_dec cs)"

lemma example_encoding: "encoding_laws example_enc example_dec"
proof -
  have "example_dec (example_enc s) = s \<and> CHR ''&'' \<notin> set (example_enc s)" for s
    by (induction s) auto
  then show ?thesis by (simp add: encoding_laws_def)
qed

definition example_state :: AuthState where
  "example_state = \<lparr>as_state = ''s1'', as_nonce = ''n1'', as_code_verifier = ''v'', as_created_at = 0, as_expires_at = 600, as_metadata = []\<rparr>"


text \<open>
  The device endpoint of the metadata is not validated: after a successful discovery, the device
  flow sends its request to whatever address the metadata names, also one that the check of the
  other endpoints would refuse.
\<close>

theorem device_flow_contacts_any_address:
  assumes "public_url url_parse (discovery_url p)" and "answered net parse sent (Get (discovery_url p)) md"
    and "validate_metadata url_parse md = Inr ()" and "om_device_authorization_endpoint md = Some url"
  shows "\<exists>p'. discover net url_parse parse p sent = (Inr (), p', sent @ [Get (discovery_url p)]) \<and>
     snd (snd (start net parse' clock (DeviceAuthFlow_new p') ip sent')) =
       sent' @ [Post url [(''client_id'', pc_client_id (op_config p)), (''scope'', join '' '' (pc_scopes (op_config p)))]]"
proof -
  let ?p = "p\<lparr>op_config := apply_metadata (op_config p) md, op_metadata := Some md\<rparr>"
  have "snd (snd (start net parse' clock (DeviceAuthFlow_new ?p) ip sent')) =
      sent' @ [Post url [(''client_id'', pc_client_id (op_config ?p)), (''scope'', join '' '' (pc_scopes (op_config ?p)))]]"
    using start_sent [of "DeviceAuthFlow_new ?p" url clock ip net parse' sent'] assms(4) check_first [of 10]
    by (simp add: DeviceAuthFlow_new_def apply_metadata_def)
  with discover_found [OF assms(1-3)] show ?thesis by (simp add: apply_metadata_def)
qed

theorem device_flow_contacts_any_address_witness:
  "\<not> public_url example_url_parse ''http://169.254.169.254'' \<and>
   (\<exists>p'. discover example_net example_url_parse (\<lambda>_. Inr example_metadata) example_provider [] =
       (Inr (), p', [Get (discovery_url example_provider)]) \<and>
     snd (snd (start example_net (\<lambda>_. Inl ''none'') 0 (DeviceAuthFlow_new p') None [])) =
       [Post ''http://169.254.169.254'' [(''client_id'', ''id''), (''scope'', ''openid email profile'')]])"
proof -
  have "om_device_authorization_endpoint example_metadata = Some ''http://169.254.169.254''"
    by (simp add: example_metadata_def)
  from device_flow_contacts_any_address [OF example_urls(1) example_discovery this, of "[]" "\<lambda>_. Inl ''none''" 0 None "[]"]
  show ?thesis
    using example_urls(5) by (simp add: example_provider_def OAuthProvider_new_def generic_def)
qed

end
