(* ===== verification/Auth_Sessions.thy ===== *)
theory Auth_Sessions
  imports Auth_Flow
begin

text \<open>
  \<open>crates/corevpn-auth/src/session.rs\<close>: sessions of users who log in, and their manager, which finds a
  session by its id or by the state value of its OAuth 2 request. \<open>Utc::now()\<close> and \<open>SystemTime::now()\<close>
  are the arguments \<open>now\<close> and \<open>clock\<close>; the test that a text is a version 4 UUID, of the crate \<open>uuid\<close>, is
  the argument \<open>is_uuid4\<close>. The locks make every operation one step.
\<close>

section \<open>Sessions\<close>

record AuthSession =
  au_id :: string
  au_auth_state :: "AuthState option"
  au_tokens :: "TokenSet option"
  au_user_info :: "UserInfo option"
  au_provider :: string
  au_created_at :: date_time
  au_expires_at :: date_time
  au_last_activity :: date_time
  au_vpn_session_id :: "string option"
  au_client_ip :: "string option"
  au_metadata :: "(string \<times> string) list"

text \<open>The random values of a new session: the UUIDs of the state, the nonce and the session, and the verifier.\<close>

record randoms =
  rd_state :: string
  rd_nonce :: string
  rd_verifier :: bytes
  rd_id :: string

definition AuthSession_new ::
    "chrono \<Rightarrow> (bytes \<Rightarrow> string) \<Rightarrow> date_time \<Rightarrow> date_time \<Rightarrow> randoms \<Rightarrow> string \<Rightarrow> duration \<Rightarrow> (AuthError, AuthSession) res" where
  "AuthSession_new C b64_encode now now' rnd provider lifetime =
     and_then (AuthState_new C b64_encode now' (rd_state rnd) (rd_nonce rnd) (rd_verifier rnd) (600 * 10 ^ 9)) (\<lambda>auth_state.
     and_then (from_std_or C lifetime 86400) (\<lambda>d.
     and_then (or_panic (ch_add C now d)) (\<lambda>expires_at.
     Inr \<lparr>au_id = rd_id rnd, au_auth_state = Some auth_state, au_tokens = None, au_user_info = None,
          au_provider = provider, au_created_at = now, au_expires_at = expires_at, au_last_activity = now,
          au_vpn_session_id = None, au_client_ip = None, au_metadata = []\<rparr>)))"

definition AuthSession_is_expired :: "date_time \<Rightarrow> AuthSession \<Rightarrow> bool" where
  "AuthSession_is_expired now s \<longleftrightarrow> now > au_expires_at s"

definition is_authenticated :: "AuthSession \<Rightarrow> bool" where
  "is_authenticated s \<longleftrightarrow> au_tokens s \<noteq> None \<and> au_user_info s \<noteq> None"

definition needs_token_refresh :: "chrono \<Rightarrow> date_time \<Rightarrow> AuthSession \<Rightarrow> (AuthError, bool) res" where
  "needs_token_refresh C now s =
     (case au_tokens s of Some tokens \<Rightarrow> expires_within C now tokens (5 * 60 * 10 ^ 9) | None \<Rightarrow> Inr False)"

definition update_tokens :: "date_time \<Rightarrow> AuthSession \<Rightarrow> TokenSet \<Rightarrow> AuthSession" where
  "update_tokens now s tokens = s\<lparr>au_tokens := Some tokens, au_last_activity := now\<rparr>"

definition update_user_info :: "date_time \<Rightarrow> AuthSession \<Rightarrow> UserInfo \<Rightarrow> AuthSession" where
  "update_user_info now s user_info = s\<lparr>au_user_info := Some user_info, au_last_activity := now\<rparr>"

definition complete_auth :: "date_time \<Rightarrow> AuthSession \<Rightarrow> TokenSet \<Rightarrow> UserInfo \<Rightarrow> AuthSession" where
  "complete_auth now s tokens user_info =
     s\<lparr>au_tokens := Some tokens, au_user_info := Some user_info, au_auth_state := None, au_last_activity := now\<rparr>"

definition associate_vpn_session :: "date_time \<Rightarrow> AuthSession \<Rightarrow> string \<Rightarrow> AuthSession" where
  "associate_vpn_session now s vpn_session_id = s\<lparr>au_vpn_session_id := Some vpn_session_id, au_last_activity := now\<rparr>"

definition AuthSession_extend :: "chrono \<Rightarrow> date_time \<Rightarrow> AuthSession \<Rightarrow> duration \<Rightarrow> (AuthError, AuthSession) res" where
  "AuthSession_extend C now s d =
     and_then (or_panic (ch_from_std C d)) (\<lambda>delta.
     and_then (or_panic (ch_add C now delta)) (\<lambda>expires_at. Inr (s\<lparr>au_expires_at := expires_at\<rparr>)))"

definition AuthSession_touch :: "date_time \<Rightarrow> AuthSession \<Rightarrow> AuthSession" where
  "AuthSession_touch now s = s\<lparr>au_last_activity := now\<rparr>"

definition AuthSession_duration :: "date_time \<Rightarrow> AuthSession \<Rightarrow> time_delta" where
  "AuthSession_duration now s = now - au_created_at s"

definition AuthSession_idle_time :: "date_time \<Rightarrow> AuthSession \<Rightarrow> time_delta" where
  "AuthSession_idle_time now s = now - au_last_activity s"

definition state_of :: "AuthSession \<Rightarrow> string option" where
  "state_of s = map_option as_state (au_auth_state s)"

definition email_of :: "AuthSession \<Rightarrow> string option" where
  "email_of s = (case au_user_info s of Some u \<Rightarrow> ui_email u | None \<Rightarrow> None)"

definition display_name :: "AuthSession \<Rightarrow> string option" where
  "display_name s = (case au_user_info s of Some u \<Rightarrow> ui_name u | None \<Rightarrow> None)"

section \<open>The manager\<close>

record AuthSessionManager =
  am_sessions :: "(string \<times> AuthSession) list"
  am_sessions_by_state :: "(string \<times> string) list"
  am_default_lifetime :: duration
  am_max_sessions_per_user :: nat
  am_lookup_rate_limiter :: RateLimiter

definition AuthSessionManager_new :: "duration \<Rightarrow> nat \<Rightarrow> AuthSessionManager" where
  "AuthSessionManager_new default_lifetime max_sessions_per_user =
     \<lparr>am_sessions = [], am_sessions_by_state = [], am_default_lifetime = default_lifetime,
      am_max_sessions_per_user = max_sessions_per_user,
      am_lookup_rate_limiter = RateLimiter_new 100 (60 * 10 ^ 9)\<rparr>"

definition AuthSessionManager_default :: AuthSessionManager where
  "AuthSessionManager_default = AuthSessionManager_new (86400 * 10 ^ 9) 5"

definition create_auth_session ::
    "chrono \<Rightarrow> (bytes \<Rightarrow> string) \<Rightarrow> date_time \<Rightarrow> date_time \<Rightarrow> randoms \<Rightarrow> AuthSessionManager \<Rightarrow> string
       \<Rightarrow> (AuthError, AuthSession) res \<times> AuthSessionManager" where
  "create_auth_session C b64_encode now now' rnd m provider =
     (case AuthSession_new C b64_encode now now' rnd provider (am_default_lifetime m) of
        Inl e \<Rightarrow> (Inl e, m)
      | Inr session \<Rightarrow>
          (let by_state = (case state_of session of
                 Some st \<Rightarrow> AList.update st (au_id session) (am_sessions_by_state m)
               | None \<Rightarrow> am_sessions_by_state m)
           in (Inr session,
               m\<lparr>am_sessions := AList.update (au_id session) session (am_sessions m), am_sessions_by_state := by_state\<rparr>)))"

definition get_auth_session ::
    "(string \<Rightarrow> bool) \<Rightarrow> instant \<Rightarrow> AuthSessionManager \<Rightarrow> string \<Rightarrow> string option \<Rightarrow> AuthSession option \<times> AuthSessionManager" where
  "get_auth_session is_uuid4 clock m sid client_ip =
     (let rate_limit_key = (case client_ip of Some ip \<Rightarrow> ip | None \<Rightarrow> sid);
          (allowed, limiter) = check (am_lookup_rate_limiter m) clock rate_limit_key;
          m = m\<lparr>am_lookup_rate_limiter := limiter\<rparr> in
      if \<not> allowed then (None, m)
      else if \<not> is_uuid4 sid then (None, m)
      else (map_of (am_sessions m) sid, m))"

definition get_session_by_state ::
    "(string \<Rightarrow> bool) \<Rightarrow> instant \<Rightarrow> instant \<Rightarrow> AuthSessionManager \<Rightarrow> string \<Rightarrow> string option
       \<Rightarrow> AuthSession option \<times> AuthSessionManager" where
  "get_session_by_state is_uuid4 clock clock' m st client_ip =
     (let rate_limit_key = (case client_ip of Some ip \<Rightarrow> ip | None \<Rightarrow> st);
          (allowed, limiter) = check (am_lookup_rate_limiter m) clock rate_limit_key;
          m = m\<lparr>am_lookup_rate_limiter := limiter\<rparr> in
      if \<not> allowed then (None, m)
      else case map_of (am_sessions_by_state m) st of
             None \<Rightarrow> (None, m)
           | Some session_id \<Rightarrow> get_auth_session is_uuid4 clock' m session_id client_ip)"

definition update_auth_session :: "AuthSessionManager \<Rightarrow> AuthSession \<Rightarrow> (AuthError, unit) res \<times> AuthSessionManager" where
  "update_auth_session m session =
     (if map_of (am_sessions m) (au_id session) \<noteq> None
      then (Inr (), m\<lparr>am_sessions := AList.update (au_id session) session (am_sessions m)\<rparr>)
      else (Inl (Err AuthError.SessionNotFound), m))"

definition remove_auth_session :: "AuthSessionManager \<Rightarrow> string \<Rightarrow> AuthSession option \<times> AuthSessionManager" where
  "remove_auth_session m sid =
     (case map_of (am_sessions m) sid of
        Some session \<Rightarrow>
          (Some session,
           m\<lparr>am_sessions := AList.delete sid (am_sessions m),
             am_sessions_by_state := (case state_of session of
                Some st \<Rightarrow> AList.delete st (am_sessions_by_state m)
              | None \<Rightarrow> am_sessions_by_state m)\<rparr>)
      | None \<Rightarrow> (None, m))"

definition get_auth_user_sessions ::
    "instant \<Rightarrow> AuthSessionManager \<Rightarrow> string \<Rightarrow> string option \<Rightarrow> AuthSession list \<times> AuthSessionManager" where
  "get_auth_user_sessions clock m email client_ip =
     (let rate_limit_key = (case client_ip of Some ip \<Rightarrow> ip | None \<Rightarrow> email);
          (allowed, limiter) = check (am_lookup_rate_limiter m) clock rate_limit_key;
          m = m\<lparr>am_lookup_rate_limiter := limiter\<rparr> in
      if \<not> allowed then ([], m)
      else (filter (\<lambda>s. email_of s = Some email) (map snd (am_sessions m)), m))"

text \<open>The loop that removes the selected sessions and their states.\<close>

fun remove_selected :: "(string \<times> string option) list \<Rightarrow> AuthSessionManager \<Rightarrow> AuthSessionManager" where
  "remove_selected [] m = m"
| "remove_selected ((sid, st) # rest) m =
     remove_selected rest
       (m\<lparr>am_sessions := AList.delete sid (am_sessions m),
          am_sessions_by_state := (case st of
             Some s \<Rightarrow> AList.delete s (am_sessions_by_state m)
           | None \<Rightarrow> am_sessions_by_state m)\<rparr>)"

definition remove_user_sessions :: "AuthSessionManager \<Rightarrow> string \<Rightarrow> nat \<times> AuthSessionManager" where
  "remove_user_sessions m email =
     (let to_remove = map (\<lambda>(sid, s). (sid, state_of s)) (filter (\<lambda>(_, s). email_of s = Some email) (am_sessions m))
      in (length to_remove, remove_selected to_remove m))"

definition auth_cleanup_expired :: "date_time \<Rightarrow> AuthSessionManager \<Rightarrow> nat \<times> AuthSessionManager" where
  "auth_cleanup_expired now m =
     (let before = length (am_sessions m);
          expired = map (\<lambda>(sid, s). (sid, state_of s)) (filter (\<lambda>(_, s). AuthSession_is_expired now s) (am_sessions m));
          m' = remove_selected expired m
      in (before - length (am_sessions m'), m'))"

definition auth_session_count :: "AuthSessionManager \<Rightarrow> nat" where
  "auth_session_count m = length (am_sessions m)"

definition active_auth_sessions :: "date_time \<Rightarrow> AuthSessionManager \<Rightarrow> AuthSession list" where
  "active_auth_sessions now m =
     filter (\<lambda>s. \<not> AuthSession_is_expired now s \<and> is_authenticated s) (map snd (am_sessions m))"

section \<open>The index\<close>

text \<open>Both maps are maps, sessions are stored under their ids, and the limiter is well-formed.\<close>

definition auth_manager_ok :: "AuthSessionManager \<Rightarrow> bool" where
  "auth_manager_ok m \<longleftrightarrow> hm_wf (am_sessions m) \<and> hm_wf (am_sessions_by_state m) \<and> limiter_ok (am_lookup_rate_limiter m) \<and>
     (\<forall>sid s. map_of (am_sessions m) sid = Some s \<longrightarrow> au_id s = sid)"

inductive auth_manager_step :: "AuthSessionManager \<Rightarrow> AuthSessionManager \<Rightarrow> bool" where
  auth_create: "create_auth_session C b64 now now' rnd m provider = (r, m') \<Longrightarrow> auth_manager_step m m'"
| auth_get: "get_auth_session is_uuid4 clock m sid ip = (r, m') \<Longrightarrow> auth_manager_step m m'"
| auth_get_by_state: "get_session_by_state is_uuid4 clock clock' m st ip = (r, m') \<Longrightarrow> auth_manager_step m m'"
| auth_update: "update_auth_session m s = (r, m') \<Longrightarrow> auth_manager_step m m'"
| auth_remove: "remove_auth_session m sid = (r, m') \<Longrightarrow> auth_manager_step m m'"
| auth_get_user: "get_auth_user_sessions clock m email ip = (r, m') \<Longrightarrow> auth_manager_step m m'"
| auth_remove_user: "remove_user_sessions m email = (r, m') \<Longrightarrow> auth_manager_step m m'"
| auth_cleanup: "auth_cleanup_expired now m = (r, m') \<Longrightarrow> auth_manager_step m m'"

lemma delete_session_ok:
  assumes "auth_manager_ok m" and "hm_wf by_state"
  shows "auth_manager_ok (m\<lparr>am_sessions := AList.delete sid (am_sessions m), am_sessions_by_state := by_state\<rparr>)"
proof -
  have wf: "hm_wf (am_sessions m)" using assms(1) by (simp add: auth_manager_ok_def)
  show ?thesis
    using assms by (auto simp: auth_manager_ok_def hm.wf_remove [OF wf] hm.lookup_remove [OF wf] split: if_splits)
qed

lemma put_session_ok:
  assumes "auth_manager_ok m" and "hm_wf by_state"
  shows "auth_manager_ok (m\<lparr>am_sessions := AList.update (au_id s) s (am_sessions m), am_sessions_by_state := by_state\<rparr>)"
proof -
  have wf: "hm_wf (am_sessions m)" using assms(1) by (simp add: auth_manager_ok_def)
  show ?thesis
    using assms by (auto simp: auth_manager_ok_def hm.wf_put [OF wf] hm.lookup_put [OF wf] split: if_splits)
qed

lemma index_wf: "auth_manager_ok m \<Longrightarrow> hm_wf (am_sessions_by_state m)"
  by (simp add: auth_manager_ok_def)

lemma remove_selected_ok: "auth_manager_ok m \<Longrightarrow> auth_manager_ok (remove_selected xs m)"
proof (induction xs m rule: remove_selected.induct)
  case (2 sid st rest m)
  have "hm_wf (case st of Some s \<Rightarrow> AList.delete s (am_sessions_by_state m) | None \<Rightarrow> am_sessions_by_state m)"
    using index_wf [OF 2(2)] by (simp add: hm.wf_remove split: option.split)
  from 2(1) [OF delete_session_ok [OF 2(2) this]] show ?case by simp
qed simp

lemma limiter_ok_check: "limiter_ok rl \<Longrightarrow> limiter_ok (snd (check rl clock key))"
  by (rule check_keeps)

lemma lookup_keeps:
  "snd (get_auth_session is_uuid4 clock m sid ip) =
     m\<lparr>am_lookup_rate_limiter := snd (check (am_lookup_rate_limiter m) clock (case ip of Some ip \<Rightarrow> ip | None \<Rightarrow> sid))\<rparr>"
  "snd (get_auth_user_sessions clock m email ip) =
     m\<lparr>am_lookup_rate_limiter := snd (check (am_lookup_rate_limiter m) clock (case ip of Some ip \<Rightarrow> ip | None \<Rightarrow> email))\<rparr>"
  by (simp_all add: get_auth_session_def get_auth_user_sessions_def split_beta Let_def)

interpretation auth_manager: stepper "\<lambda>m. \<exists>d n. m = AuthSessionManager_new d n" auth_manager_step auth_manager_ok
proof unfold_locales
  fix m m'
  assume "auth_manager_step m m'" and ok: "auth_manager_ok m"
  have lookup: "auth_manager_ok (m\<lparr>am_lookup_rate_limiter := rl\<rparr>) \<longleftrightarrow> limiter_ok rl" for rl
    using ok by (auto simp: auth_manager_ok_def)
  have lim: "limiter_ok (am_lookup_rate_limiter m)" using ok by (simp add: auth_manager_ok_def)
  from \<open>auth_manager_step m m'\<close> show "auth_manager_ok m'"
  proof cases
    case (auth_create C b64 now now' rnd provider r)
    show ?thesis
    proof (cases "AuthSession_new C b64 now now' rnd provider (am_default_lifetime m)")
      case (Inl e)
      with auth_create ok show ?thesis by (simp add: create_auth_session_def)
    next
      case (Inr session)
      let ?index = "case state_of session of Some st \<Rightarrow> AList.update st (au_id session) (am_sessions_by_state m)
        | None \<Rightarrow> am_sessions_by_state m"
      have "hm_wf ?index" using index_wf [OF ok] by (simp add: hm.wf_put split: option.split)
      from put_session_ok [OF ok this, of session] auth_create Inr show ?thesis
        by (simp add: create_auth_session_def Let_def)
    qed
  next
    case (auth_get is_uuid4 clock sid ip r)
    then have "m' = snd (get_auth_session is_uuid4 clock m sid ip)" by simp
    then show ?thesis by (simp add: lookup_keeps lookup limiter_ok_check lim)
  next
    case (auth_get_by_state is_uuid4 clock clock' st ip r)
    then have "m' = snd (get_session_by_state is_uuid4 clock clock' m st ip)" by simp
    then show ?thesis
      by (auto simp: get_session_by_state_def split_beta Let_def lookup_keeps lookup limiter_ok_check lim split: option.split)
  next
    case (auth_update s r)
    then show ?thesis
      using ok put_session_ok [OF ok index_wf [OF ok], of s] by (auto simp: update_auth_session_def split: if_splits)
  next
    case (auth_remove sid r)
    show ?thesis
    proof (cases "map_of (am_sessions m) sid")
      case None
      with auth_remove ok show ?thesis by (simp add: remove_auth_session_def)
    next
      case (Some session)
      let ?index = "case state_of session of Some st \<Rightarrow> AList.delete st (am_sessions_by_state m)
        | None \<Rightarrow> am_sessions_by_state m"
      have "hm_wf ?index" using index_wf [OF ok] by (simp add: hm.wf_remove split: option.split)
      from delete_session_ok [OF ok this, of sid] auth_remove Some show ?thesis
        by (simp add: remove_auth_session_def)
    qed
  next
    case (auth_get_user clock email ip r)
    then have "m' = snd (get_auth_user_sessions clock m email ip)" by simp
    then show ?thesis by (simp add: lookup_keeps lookup limiter_ok_check lim)
  next
    case (auth_remove_user email r)
    then have "\<exists>xs. m' = remove_selected xs m" by (auto simp: remove_user_sessions_def Let_def)
    with ok remove_selected_ok show ?thesis by blast
  next
    case (auth_cleanup now r)
    then have "\<exists>xs. m' = remove_selected xs m" by (auto simp: auth_cleanup_expired_def Let_def)
    with ok remove_selected_ok show ?thesis by blast
  qed
qed (auto simp: auth_manager_ok_def AuthSessionManager_new_def hm_wf_def limiter_ok_new)

lemma reachable_auth_manager: "auth_manager_step\<^sup>*\<^sup>* (AuthSessionManager_new d n) m \<Longrightarrow> auth_manager_ok m"
  by (rule auth_manager.inv_reachable) auto

lemma create_finds:
  assumes "auth_manager_ok m" and "create_auth_session C b64 now now' rnd m provider = (Inr s, m')"
  shows "map_of (am_sessions m') = (map_of (am_sessions m))(rd_id rnd \<mapsto> s)"
    and "map_of (am_sessions_by_state m') = (map_of (am_sessions_by_state m))(rd_state rnd \<mapsto> rd_id rnd)"
    and "state_of s = Some (rd_state rnd)" and "au_id s = rd_id rnd" and "\<not> is_authenticated s"
    and "am_lookup_rate_limiter m' = am_lookup_rate_limiter m"
proof -
  have new: "AuthSession_new C b64 now now' rnd provider (am_default_lifetime m) = Inr s"
    using assms(2) by (simp add: create_auth_session_def Let_def split: sum.splits)
  then show s: "state_of s = Some (rd_state rnd)" "au_id s = rd_id rnd" "\<not> is_authenticated s"
    by (auto simp: AuthSession_new_def AuthState_new_def res_simps state_of_def is_authenticated_def)
  have m': "m' = m\<lparr>am_sessions := AList.update (rd_id rnd) s (am_sessions m),
      am_sessions_by_state := AList.update (rd_state rnd) (rd_id rnd) (am_sessions_by_state m)\<rparr>"
    using assms(2) by (simp add: create_auth_session_def new s Let_def)
  have wf: "hm_wf (am_sessions m)" "hm_wf (am_sessions_by_state m)" using assms(1) by (simp_all add: auth_manager_ok_def)
  show "map_of (am_sessions m') = (map_of (am_sessions m))(rd_id rnd \<mapsto> s)"
    "map_of (am_sessions_by_state m') = (map_of (am_sessions_by_state m))(rd_state rnd \<mapsto> rd_id rnd)"
    "am_lookup_rate_limiter m' = am_lookup_rate_limiter m"
    by (simp_all add: m' hm.lookup_put wf)
qed

lemma by_state_finds:
  assumes "map_of (am_sessions_by_state m) st = Some sid" and "is_uuid4 sid"
    and "check_run (am_lookup_rate_limiter m) [(t, ip), (t', ip)] = [True, True]"
  shows "fst (get_session_by_state is_uuid4 t t' m st (Some ip)) = map_of (am_sessions m) sid"
  using assms by (simp add: get_session_by_state_def get_auth_session_def split_beta Let_def)

text \<open>One lookup by state counts as two attempts.\<close>

lemma by_state_counts_twice:
  assumes "map_of (am_sessions_by_state m) st = Some sid" and "fst (check (am_lookup_rate_limiter m) t ip)"
  shows "am_lookup_rate_limiter (snd (get_session_by_state is_uuid4 t t' m st (Some ip))) =
     snd (check (snd (check (am_lookup_rate_limiter m) t ip)) t' ip)"
  using assms by (simp add: get_session_by_state_def lookup_keeps split_beta Let_def)

lemma update_finds:
  assumes "auth_manager_ok m" and "update_auth_session m s = (Inr (), m')"
  shows "map_of (am_sessions m') = (map_of (am_sessions m))(au_id s \<mapsto> s)"
    and "am_sessions_by_state m' = am_sessions_by_state m" and "am_lookup_rate_limiter m' = am_lookup_rate_limiter m"
  using assms by (auto simp: update_auth_session_def auth_manager_ok_def hm.lookup_put split: if_splits)

section \<open>Properties\<close>

text \<open>
  A login is found by the state of its request, and still after it is completed. In every
  reachable manager a new session is found by its state value while it waits (lookups being allowed
  by the limiter). Completing the login clears the state in the session but not in the index: the
  same state value then gives the authenticated session, and when the session is removed the index
  entry stays.
\<close>

theorem login_state_not_single_use:
  assumes "auth_manager_step\<^sup>*\<^sup>* (AuthSessionManager_new d n) m"
    and "create_auth_session C b64 now now' rnd m provider = (Inr s, m1)" and "is_uuid4 (rd_id rnd)"
    and "update_auth_session m1 (complete_auth now'' s tokens info) = (Inr (), m2)"
    and "remove_auth_session m2 (rd_id rnd) = (removed, m3)"
    and "check_run (am_lookup_rate_limiter m) [(t, ip), (t', ip)] = [True, True]"
  shows "fst (get_session_by_state is_uuid4 t t' m1 (rd_state rnd) (Some ip)) = Some s \<and>
     fst (get_session_by_state is_uuid4 t t' m2 (rd_state rnd) (Some ip)) = Some (complete_auth now'' s tokens info) \<and>
     is_authenticated (complete_auth now'' s tokens info) \<and> state_of (complete_auth now'' s tokens info) = None \<and>
     map_of (am_sessions m3) (rd_id rnd) = None \<and> map_of (am_sessions_by_state m3) (rd_state rnd) = Some (rd_id rnd)"
proof -
  let ?s = "complete_auth now'' s tokens info"
  have ok: "auth_manager_ok m" by (rule reachable_auth_manager [OF assms(1)])
  note new = create_finds [OF ok assms(2)]
  have ok1: "auth_manager_ok m1"
    using auth_manager.inv_step [OF auth_manager_step.auth_create [OF assms(2)] ok] .
  have id: "au_id ?s = rd_id rnd" "state_of ?s = None" "is_authenticated ?s"
    by (simp_all add: complete_auth_def new(4) state_of_def is_authenticated_def)
  note upd = update_finds [OF ok1 assms(4)]
  have ok2: "auth_manager_ok m2"
    using auth_manager.inv_step [OF auth_manager_step.auth_update [OF assms(4)] ok1] .
  have "am_sessions m3 = AList.delete (rd_id rnd) (am_sessions m2)" "am_sessions_by_state m3 = am_sessions_by_state m2"
    using assms(5) by (auto simp: remove_auth_session_def upd id)
  then have m3: "map_of (am_sessions m3) (rd_id rnd) = None" "am_sessions_by_state m3 = am_sessions_by_state m2"
    using ok2 by (simp_all add: auth_manager_ok_def hm.lookup_remove)
  have "fst (get_session_by_state is_uuid4 t t' m1 (rd_state rnd) (Some ip)) = Some s"
    using by_state_finds [of m1 "rd_state rnd" "rd_id rnd" is_uuid4 t ip t'] assms(3,6) new by simp
  moreover have "fst (get_session_by_state is_uuid4 t t' m2 (rd_state rnd) (Some ip)) = Some ?s"
    using by_state_finds [of m2 "rd_state rnd" "rd_id rnd" is_uuid4 t ip t'] assms(3,6) new upd id by simp
  ultimately show ?thesis using id m3 upd new(2) by simp
qed

definition example_chrono :: chrono where
  "example_chrono = \<lparr>ch_from_std = (\<lambda>d. Some (int d)), ch_seconds = (\<lambda>s. Some (s * 10 ^ 9)), ch_add = (\<lambda>t d. Some (t + d))\<rparr>"

definition example_randoms :: randoms where
  "example_randoms = \<lparr>rd_state = ''st'', rd_nonce = ''no'', rd_verifier = [], rd_id = ''id1''\<rparr>"

definition example_tokens :: TokenSet where
  "example_tokens = \<lparr>tk_access_token = ''a'', tk_refresh_token = None, tk_id_token = None, tk_expires_at = 0, tk_token_type = ''Bearer'',
     tk_scopes = []\<rparr>"

definition example_info :: UserInfo where
  "example_info = \<lparr>ui_sub = ''u'', ui_email = None, ui_email_verified = False, ui_name = None, ui_given_name = None,
     ui_family_name = None, ui_picture = None, ui_groups = [], ui_provider = ''google''\<rparr>"

theorem login_state_not_single_use_witness:
  "\<exists>s m1 m2 m3 removed.
     create_auth_session example_chrono (\<lambda>b. ''v'') 0 0 example_randoms (AuthSessionManager_new 10 5) ''google'' = (Inr s, m1) \<and>
     update_auth_session m1 (complete_auth 1 s example_tokens example_info) = (Inr (), m2) \<and>
     remove_auth_session m2 ''id1'' = (removed, m3) \<and>
     fst (get_session_by_state (\<lambda>_. True) 2 2 m2 ''st'' (Some ''ip'')) = Some (complete_auth 1 s example_tokens example_info) \<and>
     map_of (am_sessions_by_state m3) ''st'' = Some ''id1''"
proof -
  let ?m = "AuthSessionManager_new 10 5"
  obtain s m1 where create: "create_auth_session example_chrono (\<lambda>b. ''v'') 0 0 example_randoms ?m ''google'' = (Inr s, m1)"
    by (simp add: create_auth_session_def AuthSession_new_def AuthState_new_def from_std_or_def example_chrono_def Let_def)
  have found: "map_of (am_sessions m1) ''id1'' = Some s" "au_id s = ''id1''"
    using create_finds [OF reachable_auth_manager [OF rtranclp.rtrancl_refl] create] by (auto simp: example_randoms_def)
  obtain m2 where update: "update_auth_session m1 (complete_auth 1 s example_tokens example_info) = (Inr (), m2)"
    using found by (simp add: update_auth_session_def complete_auth_def)
  obtain removed m3 where remove: "remove_auth_session m2 ''id1'' = (removed, m3)" by fastforce
  have rd: "rd_id example_randoms = ''id1''" "rd_state example_randoms = ''st''" by (simp_all add: example_randoms_def)
  have run: "check_run (am_lookup_rate_limiter ?m) [(2, ''ip''), (2, ''ip'')] = [True, True]"
    by (simp add: AuthSessionManager_new_def check_def RateLimiter_new_def hm_retain_def Let_def)
  show ?thesis
    using login_state_not_single_use [OF rtranclp.rtrancl_refl create _ update remove [folded rd] run, of "\<lambda>_. True"]
      create update remove by (auto simp: rd)
qed

end
