(* ===== verification/Std_Search.thy ===== *)
theory Std_Search
  imports Std_Text Auth_Externals
begin

text \<open>
  More of Rust's string library: searching, lines, slices, and hexadecimal numbers. Positions are
  byte positions, and a slice that cuts a character panics as in Rust.
\<close>

section \<open>Searching\<close>

definition starts_with :: "'a list \<Rightarrow> 'a list \<Rightarrow> bool" where
  "starts_with p s \<longleftrightarrow> take (length p) s = p"

definition ends_with_sub :: "'a list \<Rightarrow> 'a list \<Rightarrow> bool" where
  "ends_with_sub p s \<longleftrightarrow> length p \<le> length s \<and> drop (length s - length p) s = p"

fun find_sub :: "'a list \<Rightarrow> 'a list \<Rightarrow> nat option" where
  "find_sub p [] = (if p = [] then Some 0 else None)"
| "find_sub p (c # s) = (if starts_with p (c # s) then Some 0 else map_option Suc (find_sub p s))"

fun rfind_sub :: "'a list \<Rightarrow> 'a list \<Rightarrow> nat option" where
  "rfind_sub p [] = (if p = [] then Some 0 else None)"
| "rfind_sub p (c # s) =
     (case rfind_sub p s of
        Some i \<Rightarrow> Some (Suc i)
      | None \<Rightarrow> if starts_with p (c # s) then Some 0 else None)"

definition contains_sub :: "'a list \<Rightarrow> 'a list \<Rightarrow> bool" where
  "contains_sub p s \<longleftrightarrow> find_sub p s \<noteq> None"

text \<open>\<open>str::replace\<close> of single characters: every character of \<open>cs\<close> becomes \<open>r\<close>.\<close>

definition replace_chars :: "char list \<Rightarrow> string \<Rightarrow> string \<Rightarrow> string" where
  "replace_chars cs r s = concat (map (\<lambda>c. if c \<in> set cs then r else [c]) s)"

section \<open>Lines and slices\<close>

abbreviation NL :: char where "NL \<equiv> CHR 0x0A"
abbreviation CR :: char where "CR \<equiv> CHR 0x0D"

definition strip_cr :: "string \<Rightarrow> string" where
  "strip_cr s = (if s \<noteq> [] \<and> last s = CR then butlast s else s)"

text \<open>
  \<open>str::lines\<close>: a line ends with a line feed, before which one carriage return is dropped; the
  text after the last line feed is a line if it is not empty.
\<close>

definition str_lines :: "string \<Rightarrow> string list" where
  "str_lines s =
     (let parts = split_on NL s in
      map strip_cr (butlast parts) @ (if last parts = [] then [] else [last parts]))"

definition is_char_boundary :: "string \<Rightarrow> nat \<Rightarrow> bool" where
  "is_char_boundary s i \<longleftrightarrow>
     i = 0 \<or> i = length s \<or> i < length s \<and> \<not> (0x80 \<le> code (s ! i) \<and> code (s ! i) < 0xC0)"

definition str_slice :: "string \<Rightarrow> nat \<Rightarrow> nat \<Rightarrow> ('e, string) res" where
  "str_slice s i j =
     (if i \<le> j \<and> is_char_boundary s i \<and> is_char_boundary s j then Inr (take (j - i) (drop i s)) else Inl Panic)"

text \<open>\<open>str::chars\<close>: the code points of a text.\<close>

function str_chars :: "string \<Rightarrow> nat list" where
  "str_chars [] = []"
| "str_chars (a # s) =
     (let n = (if code a < 0x80 then 0 else if code a < 0xE0 then 1 else if code a < 0xF0 then 2 else 3 :: nat);
          v = (if n = 0 then code a else code a mod 2 ^ (6 - n)) in
      foldl (\<lambda>v b. v * 64 + code b mod 64) v (take n s) # str_chars (drop n s))"
  by pat_completeness auto

termination str_chars
  by (relation "measure length") auto

section \<open>Hexadecimal\<close>

definition hex_digit :: "nat \<Rightarrow> char" where
  "hex_digit n = (if n < 10 then char_of (48 + n) else char_of (87 + n))"

fun hex_pad :: "nat \<Rightarrow> nat \<Rightarrow> string" where
  "hex_pad 0 n = []"
| "hex_pad (Suc k) n = hex_pad k (n div 16) @ [hex_digit (n mod 16)]"

text \<open>\<open>to_digit(16)\<close>.\<close>

definition hex_val :: "char \<Rightarrow> nat option" where
  "hex_val c =
     (if is_digit c then Some (code c - 48)
      else if 97 \<le> code c \<and> code c \<le> 102 then Some (code c - 87)
      else if 65 \<le> code c \<and> code c \<le> 70 then Some (code c - 55)
      else None)"

fun hex_value :: "nat \<Rightarrow> string \<Rightarrow> nat option" where
  "hex_value n [] = Some n"
| "hex_value n (c # s) = (case hex_val c of Some d \<Rightarrow> hex_value (n * 16 + d) s | None \<Rightarrow> None)"

text \<open>\<open>u8::from_str_radix(s, 16)\<close>: a leading plus sign is allowed.\<close>

definition parse_hex_u8 :: "string \<Rightarrow> u8 option" where
  "parse_hex_u8 s =
     (let d = (case s of c # t \<Rightarrow> if c = CHR ''+'' \<and> t \<noteq> [] then t else s | [] \<Rightarrow> s) in
      if d = [] then None
      else case hex_value 0 d of
        Some n \<Rightarrow> if n < 256 then Some (of_nat n) else None
      | None \<Rightarrow> None)"

section \<open>Lemmas\<close>

lemma starts_with_append [simp]: "starts_with p (p @ s)"
  by (simp add: starts_with_def)

lemma starts_with_Nil [simp]: "starts_with [] s"
  by (simp add: starts_with_def)

lemma starts_with_Cons [simp]: "starts_with (c # p) (d # s) \<longleftrightarrow> c = d \<and> starts_with p s"
  by (auto simp: starts_with_def)

lemma starts_with_Cons_Nil [simp]: "\<not> starts_with (c # p) []"
  by (simp add: starts_with_def)

lemma starts_with_iff: "starts_with p s \<longleftrightarrow> (\<exists>r. s = p @ r)"
  by (metis append_eq_conv_conj append_take_drop_id starts_with_def)

lemma ends_with_iff: "ends_with_sub p s \<longleftrightarrow> (\<exists>r. s = r @ p)"
proof
  assume "ends_with_sub p s"
  then have "s = take (length s - length p) s @ p"
    by (metis append_take_drop_id ends_with_sub_def)
  then show "\<exists>r. s = r @ p" by blast
qed (auto simp: ends_with_sub_def)

text \<open>A prefix without the first character of the pattern is skipped.\<close>

lemma find_sub_skip: "c \<notin> set x \<Longrightarrow> find_sub (c # p) (x @ s) = map_option ((+) (length x)) (find_sub (c # p) s)"
proof (induction x)
  case Nil
  then show ?case by (cases "find_sub (c # p) s") auto
next
  case (Cons a x)
  then show ?case by (cases "find_sub (c # p) s") auto
qed

lemma find_sub_here: "find_sub p (p @ s) = Some 0"
proof (cases "p @ s")
  case (Cons c t)
  then have "starts_with p (c # t)" by (metis starts_with_append)
  then show ?thesis by (simp add: Cons)
qed simp

lemma find_sub_None: "c \<notin> set s \<Longrightarrow> find_sub (c # p) s = None"
  by (induction s) auto

lemma find_sub_Some: "find_sub p s = Some i \<Longrightarrow> take (length p) (drop i s) = p \<and> i \<le> length s"
  by (induction s arbitrary: i) (auto simp: starts_with_def split: if_splits)

lemma contains_sub_iff: "contains_sub p s \<longleftrightarrow> (\<exists>x y. s = x @ p @ y)"
proof (induction s)
  case Nil
  then show ?case by (simp add: contains_sub_def)
next
  case (Cons c s)
  have "contains_sub p (c # s) \<longleftrightarrow> starts_with p (c # s) \<or> contains_sub p s"
    by (simp add: contains_sub_def)
  also have "\<dots> \<longleftrightarrow> (\<exists>x y. c # s = x @ p @ y)"
    unfolding starts_with_iff Cons.IH
    by (metis append_Cons append_Nil append_eq_Cons_conv)
  finally show ?case .
qed

lemma split_on_lines: "ls \<noteq> [] \<Longrightarrow> split_on c (join [c] ls) = concat (map (split_on c) ls)"
proof (induction "[c]" ls rule: join.induct)
  case (3 x y ys)
  have "split_on c (x @ c # r) = split_on c x @ split_on c r" for r
    by (induction x) (auto split: list.split)
  with 3 show ?case by simp
qed simp_all

lemma split_on_subset: "l \<in> set (split_on c s) \<Longrightarrow> set l \<subseteq> set s"
proof (induction s arbitrary: l)
  case (Cons x s)
  then show ?case by (cases "split_on c s") (fastforce split: if_splits)+
qed simp

text \<open>Printed hexadecimal numbers are read back.\<close>

lemma hex_val_digit: "n < 16 \<Longrightarrow> hex_val (hex_digit n) = Some n"
  by (auto simp: hex_val_def hex_digit_def is_digit_def)

lemma length_hex_pad [simp]: "length (hex_pad k n) = k"
  by (induction k arbitrary: n) auto

lemma hex_digit_plain: "n < 16 \<Longrightarrow> code (hex_digit n) < 0x80 \<and> 48 \<le> code (hex_digit n)"
  by (auto simp: hex_digit_def)

lemma parse_hex_pad: "parse_hex_u8 (hex_pad 2 (unat b)) = Some b"
proof -
  have b: "unat b < 256" using unat_bound [of b] by simp
  have "hex_digit (unat b div 16) \<noteq> CHR ''+''"
    using hex_digit_plain [of "unat b div 16"] b by (auto simp: less_mult_imp_div_less)
  moreover have "unat b div 16 < 16" using b by (simp add: less_mult_imp_div_less)
  ultimately show ?thesis
    using b by (simp add: parse_hex_u8_def numeral_2_eq_2 hex_val_digit)
qed

lemma trim_no_ws: "no_ws s \<Longrightarrow> trim s = s"
  by (simp add: trim_def trim_start_word no_ws_front trim_end_word)

lemma split_on_unlines: "\<forall>l\<in>set ls. c \<notin> set l \<Longrightarrow> split_on c (concat (map (\<lambda>l. l @ [c]) ls)) = ls @ [[]]"
  by (induction ls) (auto simp: split_on_append)

text \<open>Lines written one after the other are read back.\<close>

lemma str_lines_unlines:
  assumes "\<forall>l\<in>set ls. NL \<notin> set l \<and> CR \<notin> set l"
  shows "str_lines (concat (map (\<lambda>l. l @ [NL]) ls)) = ls"
proof -
  have "map strip_cr ls = ls"
    using assms by (intro map_idI) (metis last_in_set strip_cr_def)
  then show ?thesis using assms by (simp add: str_lines_def split_on_unlines)
qed

lemma str_lines_join:
  assumes "ls \<noteq> []" and "\<forall>l\<in>set ls. NL \<notin> set l \<and> CR \<notin> set l" and "last ls \<noteq> []"
  shows "str_lines (join [NL] ls) = ls"
proof -
  have "map strip_cr (butlast ls) = butlast ls"
    using assms(2) by (intro map_idI) (metis in_set_butlastD last_in_set strip_cr_def)
  then show ?thesis using assms by (simp add: str_lines_def split_on_join)
qed

text \<open>Text between ASCII characters that are not white space is not changed by trimming.\<close>

definition solid :: "char \<Rightarrow> bool" where
  "solid c \<longleftrightarrow> code c < 0x80 \<and> \<not> (9 \<le> code c \<and> code c \<le> 13) \<and> code c \<noteq> 32"

lemma ws_len_solid: "solid c \<Longrightarrow> ws_len (c # s) = 0"
  by (simp add: solid_def ws_len_ascii)

lemma trim_start_solid:
  assumes "solid c"
  shows "trim_start (r @ c # x) \<noteq> []"
proof (induction "length r" arbitrary: r rule: less_induct)
  case less
  show ?case
  proof (cases "r = []")
    case True
    with assms show ?thesis by (simp add: trim_start_word ws_len_solid)
  next
    case False
    let ?n = "ws_len (r @ c # x)"
    show ?thesis
    proof (cases "?n = 0")
      case True
      then show ?thesis by (simp add: trim_start_word)
    next
      case pos: False
      have "?n \<le> length r" using ws_len_stops [OF False, of c x] assms by (simp add: solid_def)
      with pos False less [of "drop ?n r"] show ?thesis
        by (subst trim_start.simps) simp
    qed
  qed
qed

lemma trim_end_solid: "solid c \<Longrightarrow> trim_start w = [] \<Longrightarrow> trim_end (r @ c # w) = r @ [c]"
proof (induction r)
  case Nil
  then have "trim_end w = []" by (cases w) simp_all
  with Nil show ?case by (simp add: trim_start_word ws_len_solid)
next
  case (Cons a r)
  with trim_start_solid [of c "a # r" w] show ?case by simp
qed

lemma trim_start_NL: "trim_start (NL # s) = trim_start s"
  by (subst trim_start.simps) (simp add: ws_len.simps(2))

definition solid_ends :: "string \<Rightarrow> bool" where
  "solid_ends t \<longleftrightarrow> t \<noteq> [] \<and> solid (hd t) \<and> solid (last t)"

lemma solid_ends_trim:
  assumes "solid_ends t"
  shows "trim t = t" and "trim (t @ [NL]) = t" and "trim (NL # t @ [NL]) = t"
proof -
  have t: "t = butlast t @ [last t]" "t @ [NL] = butlast t @ last t # [NL]"
    using assms by (simp_all add: solid_ends_def)
  have front: "trim_start (t @ w) = t @ w" for w
    using assms by (cases t) (simp_all add: solid_ends_def trim_start_word ws_len_solid)
  have nl: "trim_start [NL] = []" by (simp add: trim_start_NL trim_start_word)
  have "trim_end t = t" "trim_end (t @ [NL]) = t"
    using assms trim_end_solid [of "last t" "[]" "butlast t"] trim_end_solid [of "last t" "[NL]" "butlast t"] nl
    unfolding t(2) by (simp_all add: solid_ends_def trim_start_word)
  then show "trim t = t" and "trim (t @ [NL]) = t" and "trim (NL # t @ [NL]) = t"
    using front [of "[]"] front [of "[NL]"] by (simp_all add: trim_def trim_start_NL)
qed

lemma str_slice_mid:
  assumes "b @ c = [] \<or> code (hd (b @ c)) < 0x80" and "c = [] \<or> code (hd c) < 0x80"
  shows "str_slice (a @ b @ c) (length a) (length a + length b) = Inr b"
proof -
  have "is_char_boundary (a @ b @ c) (length a)"
    using assms(1) by (cases "b @ c") (auto simp: is_char_boundary_def nth_append)
  moreover have "is_char_boundary (a @ b @ c) (length a + length b)"
    using assms(2) by (cases c) (auto simp: is_char_boundary_def nth_append)
  ultimately show ?thesis by (simp add: str_slice_def)
qed

lemma join_append: "xs \<noteq> [] \<Longrightarrow> ys \<noteq> [] \<Longrightarrow> join sep (xs @ ys) = join sep xs @ sep @ join sep ys"
  by (induction sep xs rule: join.induct) (auto simp: neq_Nil_conv)

end
