(* ===== verification/Std_Net.thy ===== *)
theory Std_Net
  imports Std_Search Address_Pool
begin

text \<open>
  Reading of addresses, \<open>FromStr\<close> of \<open>IpAddr\<close> and \<open>SocketAddr\<close> in the standard library. A reader
  takes the text and gives a value with the rest of the text; \<open>from_str\<close> needs an empty rest.
\<close>

type_synonym 'a reader = "string \<Rightarrow> ('a \<times> string) option"

definition and_read :: "'a reader \<Rightarrow> ('a \<Rightarrow> 'b reader) \<Rightarrow> 'b reader" where
  "and_read r f s = (case r s of Some (x, t) \<Rightarrow> f x t | None \<Rightarrow> None)"

definition read_done :: "'a \<Rightarrow> 'a reader" where
  "read_done x s = Some (x, s)"

definition read_given_char :: "char \<Rightarrow> unit reader" where
  "read_given_char c s = (case s of d # t \<Rightarrow> if c = d then Some ((), t) else None | [] \<Rightarrow> None)"

definition read_separator :: "char \<Rightarrow> bool \<Rightarrow> 'a reader \<Rightarrow> 'a reader" where
  "read_separator c first r = (if first then r else and_read (read_given_char c) (\<lambda>_. r))"

definition dec_val :: "char \<Rightarrow> nat option" where
  "dec_val c = (if is_digit c then Some (code c - 48) else None)"

definition digits_front :: "(char \<Rightarrow> nat option) \<Rightarrow> string \<Rightarrow> string" where
  "digits_front digit s = takeWhile (\<lambda>c. digit c \<noteq> None) s"

text \<open>\<open>read_number\<close>: a value below \<open>bound\<close> in the given radix, at most \<open>max_digits\<close> digits.\<close>

definition read_number :: "nat \<Rightarrow> (char \<Rightarrow> nat option) \<Rightarrow> nat option \<Rightarrow> bool \<Rightarrow> nat \<Rightarrow> nat reader" where
  "read_number radix digit max_digits zero_prefix bound s =
     (let ds = digits_front digit s; n = foldl (\<lambda>n c. n * radix + the (digit c)) 0 ds in
      if ds = [] \<or> (case max_digits of Some m \<Rightarrow> length ds > m | None \<Rightarrow> False) \<or>
         (\<not> zero_prefix \<and> hd ds = CHR ''0'' \<and> length ds > 1) \<or> bound \<le> n
      then None else Some (n, drop (length ds) s))"

definition read_octet :: "nat reader" where
  "read_octet = read_number 10 dec_val (Some 3) False 256"

definition read_ipv4 :: "u32 reader" where
  "read_ipv4 =
     and_read read_octet (\<lambda>a.
     and_read (read_separator CHR ''.'' False read_octet) (\<lambda>b.
     and_read (read_separator CHR ''.'' False read_octet) (\<lambda>c.
     and_read (read_separator CHR ''.'' False read_octet) (\<lambda>d.
     read_done (u32_from_be_bytes [of_nat a, of_nat b, of_nat c, of_nat d])))))"

definition read_group :: "nat reader" where
  "read_group = read_number 16 hex_val (Some 4) True 65536"

text \<open>Up to \<open>n\<close> groups of an IPv6 address; the flag tells that they end with an IPv4 address.\<close>

fun read_groups :: "nat \<Rightarrow> bool \<Rightarrow> string \<Rightarrow> nat list \<times> bool \<times> string" where
  "read_groups 0 first s = ([], False, s)"
| "read_groups (Suc m) first s =
     (case (if m > 0 then read_separator CHR '':'' first read_ipv4 s else None) of
        Some (a, t) \<Rightarrow> ([unat (drop_bit 16 a), unat (a AND 0xFFFF)], True, t)
      | None \<Rightarrow>
          (case read_separator CHR '':'' first read_group s of
             Some (g, t) \<Rightarrow> (let (gs, v4, r) = read_groups m False t in (g # gs, v4, r))
           | None \<Rightarrow> ([], False, s)))"

definition from_segments :: "nat list \<Rightarrow> u128" where
  "from_segments gs = of_nat (foldl (\<lambda>n g. n * 65536 + g) 0 gs)"

definition read_ipv6 :: "u128 reader" where
  "read_ipv6 s =
     (let (front, v4, t) = read_groups 8 True s in
      if length front = 8 then Some (from_segments front, t)
      else if v4 then None
      else and_read (read_given_char CHR '':'') (\<lambda>_. and_read (read_given_char CHR '':'') (\<lambda>_ u.
        let (back, _, r) = read_groups (8 - (length front + 1)) True u in
        Some (from_segments (front @ replicate (8 - (length front + length back)) 0 @ back), r))) t)"

definition read_ip_addr :: "IpAddr reader" where
  "read_ip_addr s =
     (case read_ipv4 s of
        Some (a, t) \<Rightarrow> Some (V4 a, t)
      | None \<Rightarrow> map_option (\<lambda>(a, t). (V6 a, t)) (read_ipv6 s))"

definition parse_all :: "'a reader \<Rightarrow> string \<Rightarrow> 'a option" where
  "parse_all r s = (case r s of Some (x, []) \<Rightarrow> Some x | _ \<Rightarrow> None)"

definition parse_ip_addr :: "string \<Rightarrow> IpAddr option" where
  "parse_ip_addr = parse_all read_ip_addr"

text \<open>Socket addresses; the scope of an IPv6 socket address is read and not kept.\<close>

record SocketAddr =
  sa_ip :: IpAddr
  sa_port :: u16

definition read_port :: "nat reader" where
  "read_port = and_read (read_given_char CHR '':'') (\<lambda>_. read_number 10 dec_val None True 65536)"

definition read_socket_v4 :: "SocketAddr reader" where
  "read_socket_v4 = and_read read_ipv4 (\<lambda>a. and_read read_port (\<lambda>p. read_done \<lparr>sa_ip = V4 a, sa_port = of_nat p\<rparr>))"

definition read_scope :: "nat reader" where
  "read_scope s =
     (case and_read (read_given_char CHR ''%'') (\<lambda>_. read_number 10 dec_val None True (2 ^ 32)) s of
        Some (n, t) \<Rightarrow> Some (n, t) | None \<Rightarrow> Some (0, s))"

definition read_socket_v6 :: "SocketAddr reader" where
  "read_socket_v6 =
     and_read (read_given_char CHR ''['') (\<lambda>_. and_read read_ipv6 (\<lambda>a. and_read read_scope (\<lambda>_.
     and_read (read_given_char CHR '']'') (\<lambda>_. and_read read_port (\<lambda>p.
     read_done \<lparr>sa_ip = V6 a, sa_port = of_nat p\<rparr>)))))"

definition parse_socket_addr :: "string \<Rightarrow> SocketAddr option" where
  "parse_socket_addr = parse_all (\<lambda>s. case read_socket_v4 s of Some x \<Rightarrow> Some x | None \<Rightarrow> read_socket_v6 s)"

section \<open>Lemmas\<close>

lemma takeWhile_stop:
  "list_all P xs \<Longrightarrow> (case s of [] \<Rightarrow> True | c # _ \<Rightarrow> \<not> P c) \<Longrightarrow> takeWhile P (xs @ s) = xs"
  by (induction xs) (auto split: list.splits)

lemma dec_value: "list_all is_digit ds \<Longrightarrow> foldl (\<lambda>n c. n * 10 + the (dec_val c)) k ds = foldl (\<lambda>n c. n * 10 + (code c - 48)) k ds"
  by (induction ds arbitrary: k) (auto simp: dec_val_def)

text \<open>A printed number followed by something else than a digit is read.\<close>

lemma read_number_show:
  assumes "case s of [] \<Rightarrow> True | c # _ \<Rightarrow> \<not> is_digit c" and "n < bound"
    and "case max_digits of Some m \<Rightarrow> length (string_of_nat n) \<le> m | None \<Rightarrow> True"
    and "zero_prefix \<or> \<not> (hd (string_of_nat n) = CHR ''0'' \<and> length (string_of_nat n) > 1)"
  shows "read_number 10 dec_val max_digits zero_prefix bound (string_of_nat n @ s) = Some (n, s)"
proof -
  let ?ds = "string_of_nat n"
  have ds: "list_all is_digit ?ds" "?ds \<noteq> []" "digits_value ?ds = n"
    using string_of_nat_digits [of n] by auto
  have P: "(\<lambda>c. dec_val c \<noteq> None) = is_digit" by (auto simp: dec_val_def)
  have "digits_front dec_val (?ds @ s) = ?ds"
    unfolding digits_front_def P using ds(1) assms(1) by (intro takeWhile_stop) auto
  moreover have "foldl (\<lambda>n c. n * 10 + the (dec_val c)) 0 ?ds = n"
    using dec_value [OF ds(1), of 0] ds(3) by (simp add: digits_value_def)
  ultimately show ?thesis
    using ds(2) assms(2-4) by (auto simp: read_number_def Let_def split: option.splits)
qed

lemma read_octet_show:
  assumes "case s of [] \<Rightarrow> True | c # _ \<Rightarrow> \<not> is_digit c"
  shows "read_octet (show_octet b @ s) = Some (unat b, s)"
  unfolding read_octet_def show_octet_def
  using string_of_nat_octet [of "unat b"] unat_bound [of b] assms
  by (intro read_number_show) simp_all

lemma read_ipv4_show:
  assumes "case s of [] \<Rightarrow> True | c # _ \<Rightarrow> \<not> is_digit c"
  shows "read_ipv4 (show_ipv4 ip @ s) = Some (ip, s)"
proof -
  obtain a b c d where ip: "u32_to_be_bytes ip = [a, b, c, d]" by (rule u32_to_be_bytes_cases)
  have whole: "u32_from_be_bytes [a, b, c, d] = ip" using ip by (metis u32_from_to_be_bytes)
  have dot: "\<not> is_digit CHR ''.''" by (simp add: is_digit_def)
  show ?thesis
    by (simp add: show_ipv4_def ip read_ipv4_def and_read_def read_separator_def read_given_char_def
        read_done_def read_octet_show dot assms whole)
qed

lemma parse_socket_addr_show:
  assumes "p < 65536"
  shows "parse_socket_addr (show_ipv4 ip @ CHR '':'' # string_of_nat p) =
           Some \<lparr>sa_ip = V4 ip, sa_port = of_nat p\<rparr>"
proof -
  have "read_ipv4 (show_ipv4 ip @ CHR '':'' # string_of_nat p) = Some (ip, CHR '':'' # string_of_nat p)"
    by (rule read_ipv4_show) (simp add: is_digit_def)
  moreover have "read_number 10 dec_val None True 65536 (string_of_nat p) = Some (p, [])"
    using read_number_show [of "[]" p 65536 None True] assms by simp
  ultimately show ?thesis
    by (simp add: parse_socket_addr_def parse_all_def read_socket_v4_def read_port_def and_read_def
        read_given_char_def read_done_def)
qed

lemma parse_ip_addr_v4: "parse_ip_addr (show_ipv4 ip) = Some (V4 ip)"
  using read_ipv4_show [of "[]" ip] by (simp add: parse_ip_addr_def parse_all_def read_ip_addr_def)

text \<open>A socket address begins with a digit or a bracket; a host name therefore is none.\<close>

lemma parse_socket_addr_first:
  assumes "parse_socket_addr s = Some a"
  obtains c t where "s = c # t" and "is_digit c \<or> c = CHR ''[''"
proof (cases s)
  case Nil
  with assms show ?thesis
    by (simp add: parse_socket_addr_def parse_all_def read_socket_v4_def read_socket_v6_def and_read_def read_ipv4_def
        read_octet_def read_number_def digits_front_def read_given_char_def)
next
  case (Cons c t)
  have "is_digit c \<or> c = CHR ''[''"
  proof (rule ccontr)
    assume n: "\<not> (is_digit c \<or> c = CHR ''['')"
    have "read_octet s = None"
      using n by (simp add: Cons read_octet_def read_number_def digits_front_def dec_val_def)
    with n assms show False
      by (auto simp: Cons parse_socket_addr_def parse_all_def read_socket_v4_def read_socket_v6_def and_read_def
          read_ipv4_def read_given_char_def)
  qed
  with Cons that show ?thesis by blast
qed

end
