(* ===== verification/Std_Fs.thy ===== *)
theory Std_Fs
  imports Std_Search
begin

text \<open>
  Paths and the file system as the code uses them through \<open>std::path\<close> and \<open>std::fs\<close>. A path is
  its text with \<open>/\<close> between the components. The file system has the contents of the files and the
  set of directories; any operation may fail: \<open>fs_fault n\<close> is the error of the n-th operation, if
  it fails, and a failed operation has no effect. \<open>fs_canon\<close> resolves symbolic links.
\<close>

type_synonym path = string

definition path_join :: "path \<Rightarrow> path \<Rightarrow> path" where
  "path_join d f =
     (if starts_with ''/'' f then f
      else if d = [] \<or> last d = CHR ''/'' then d @ f
      else d @ ''/'' @ f)"

definition path_components :: "path \<Rightarrow> string list" where
  "path_components p = filter (\<lambda>c. c \<noteq> [] \<and> c \<noteq> ''.'') (split_on CHR ''/'' p)"

definition path_is_absolute :: "path \<Rightarrow> bool" where
  "path_is_absolute p \<longleftrightarrow> starts_with ''/'' p"

definition path_starts_with :: "path \<Rightarrow> path \<Rightarrow> bool" where
  "path_starts_with p d \<longleftrightarrow>
     path_is_absolute p = path_is_absolute d \<and> starts_with (path_components d) (path_components p)"

text \<open>The text before and after the last occurrence of a character.\<close>

fun split_last :: "'a \<Rightarrow> 'a list \<Rightarrow> ('a list \<times> 'a list) option" where
  "split_last c [] = None"
| "split_last c (x # s) =
     (case split_last c s of
        Some (a, b) \<Rightarrow> Some (x # a, b)
      | None \<Rightarrow> if x = c then Some ([], s) else None)"

text \<open>\<open>Path::parent\<close> of a path that does not end with a slash.\<close>

definition path_parent :: "path \<Rightarrow> path option" where
  "path_parent p =
     (case split_last CHR ''/'' p of
        None \<Rightarrow> if p = [] then None else Some []
      | Some (d, f) \<Rightarrow> if d = [] then (if f = [] then None else Some ''/'') else Some d)"

text \<open>\<open>Path::with_extension\<close>: the part of the file name after its last dot is replaced.\<close>

definition file_stem :: "string \<Rightarrow> string" where
  "file_stem f = (case split_last CHR ''.'' f of Some (a, _) \<Rightarrow> if a = [] then f else a | None \<Rightarrow> f)"

definition with_extension :: "path \<Rightarrow> string \<Rightarrow> path" where
  "with_extension p e =
     (case split_last CHR ''/'' p of
        Some (d, f) \<Rightarrow> d @ ''/'' @ file_stem f @ ''.'' @ e
      | None \<Rightarrow> file_stem p @ ''.'' @ e)"

section \<open>The file system\<close>

record fs =
  fs_files :: "path \<rightharpoonup> string"
  fs_dirs :: "path \<Rightarrow> bool"
  fs_canon :: "path \<rightharpoonup> path"
  fs_fault :: "nat \<Rightarrow> string option"
  fs_ops :: nat

type_synonym 'a fs_result = "(string + 'a) \<times> fs"

text \<open>One operation: it fails when the environment says so, else it runs.\<close>

definition fs_op :: "(fs \<Rightarrow> 'a fs_result) \<Rightarrow> fs \<Rightarrow> 'a fs_result" where
  "fs_op f fs =
     (let fs' = fs\<lparr>fs_ops := fs_ops fs + 1\<rparr> in
      case fs_fault fs (fs_ops fs) of Some e \<Rightarrow> (Inl e, fs') | None \<Rightarrow> f fs')"

definition fs_exists :: "fs \<Rightarrow> path \<Rightarrow> bool" where
  "fs_exists fs p \<longleftrightarrow> fs_files fs p \<noteq> None \<or> fs_dirs fs p"

definition fs_is_dir :: "fs \<Rightarrow> path \<Rightarrow> bool" where
  "fs_is_dir fs p \<longleftrightarrow> fs_dirs fs p"

definition no_such_file :: string where
  "no_such_file = ''No such file or directory''"

definition fs_create_dir_all :: "path \<Rightarrow> fs \<Rightarrow> unit fs_result" where
  "fs_create_dir_all p = fs_op (\<lambda>fs.
     if fs_files fs p \<noteq> None then (Inl ''File exists'', fs)
     else (Inr (), fs\<lparr>fs_dirs := \<lambda>q. fs_dirs fs q \<or> path_starts_with p q\<rparr>))"

definition fs_canonicalize :: "path \<Rightarrow> fs \<Rightarrow> path fs_result" where
  "fs_canonicalize p = fs_op (\<lambda>fs. case fs_canon fs p of Some q \<Rightarrow> (Inr q, fs) | None \<Rightarrow> (Inl no_such_file, fs))"

definition fs_write :: "path \<Rightarrow> string \<Rightarrow> fs \<Rightarrow> unit fs_result" where
  "fs_write p content = fs_op (\<lambda>fs.
     if fs_dirs fs p then (Inl ''Is a directory'', fs) else (Inr (), fs\<lparr>fs_files := (fs_files fs)(p \<mapsto> content)\<rparr>))"

definition fs_append :: "path \<Rightarrow> string \<Rightarrow> fs \<Rightarrow> unit fs_result" where
  "fs_append p content = fs_op (\<lambda>fs.
     case fs_files fs p of
       Some old \<Rightarrow> (Inr (), fs\<lparr>fs_files := (fs_files fs)(p \<mapsto> old @ content)\<rparr>)
     | None \<Rightarrow> (Inl no_such_file, fs))"

text \<open>Opening for append with \<open>create(true)\<close>: the file exists afterwards.\<close>

definition fs_open_append :: "path \<Rightarrow> fs \<Rightarrow> unit fs_result" where
  "fs_open_append p = fs_op (\<lambda>fs.
     if fs_dirs fs p then (Inl ''Is a directory'', fs)
     else if fs_files fs p = None then (Inr (), fs\<lparr>fs_files := (fs_files fs)(p \<mapsto> [])\<rparr>)
     else (Inr (), fs))"

definition fs_read_to_string :: "path \<Rightarrow> fs \<Rightarrow> string fs_result" where
  "fs_read_to_string p = fs_op (\<lambda>fs. case fs_files fs p of Some c \<Rightarrow> (Inr c, fs) | None \<Rightarrow> (Inl no_such_file, fs))"

definition fs_len :: "path \<Rightarrow> fs \<Rightarrow> nat fs_result" where
  "fs_len p = fs_op (\<lambda>fs. case fs_files fs p of Some c \<Rightarrow> (Inr (length c), fs) | None \<Rightarrow> (Inl no_such_file, fs))"

definition fs_rename :: "path \<Rightarrow> path \<Rightarrow> fs \<Rightarrow> unit fs_result" where
  "fs_rename a b = fs_op (\<lambda>fs.
     case fs_files fs a of
       Some c \<Rightarrow> (Inr (), fs\<lparr>fs_files := (fs_files fs)(a := None, b := Some c)\<rparr>)
     | None \<Rightarrow> (Inl no_such_file, fs))"

definition fs_remove_file :: "path \<Rightarrow> fs \<Rightarrow> unit fs_result" where
  "fs_remove_file p = fs_op (\<lambda>fs.
     if fs_files fs p = None then (Inl no_such_file, fs) else (Inr (), fs\<lparr>fs_files := (fs_files fs)(p := None)\<rparr>))"

text \<open>Fallible code over a state: stop at the first error, with the state as it then is.\<close>

definition io_bind :: "('e, 'a) res \<times> 's \<Rightarrow> ('a \<Rightarrow> 's \<Rightarrow> ('e, 'b) res \<times> 's) \<Rightarrow> ('e, 'b) res \<times> 's" where
  "io_bind m f = (case fst m of Inr x \<Rightarrow> f x (snd m) | Inl e \<Rightarrow> (Inl e, snd m))"

definition io_err :: "('f \<Rightarrow> 'e) \<Rightarrow> ('f + 'a) \<times> 's \<Rightarrow> ('e, 'a) res \<times> 's" where
  "io_err f m = (lift_err f (fst m), snd m)"

definition io_check :: "bool \<Rightarrow> 'e \<Rightarrow> 's \<Rightarrow> ('e, unit) res \<times> 's" where
  "io_check b e s = (ensure b e, s)"

section \<open>Lemmas\<close>

lemma io_bind_simps [simp]:
  "io_bind (Inr x, s) f = f x s"
  "io_bind (Inl e, s) f = (Inl e, s)"
  by (simp_all add: io_bind_def)

lemma io_bind_Inr_iff: "fst (io_bind m f) = Inr y \<longleftrightarrow> (\<exists>x. fst m = Inr x \<and> fst (f x (snd m)) = Inr y)"
  by (cases m; cases "fst m") (auto simp: io_bind_def)

lemma split_last_None: "split_last c s = None \<longleftrightarrow> c \<notin> set s"
  by (induction s) (auto split: option.splits)

lemma split_last_Some: "split_last c s = Some (a, b) \<longleftrightarrow> s = a @ c # b \<and> c \<notin> set b"
proof
  assume "split_last c s = Some (a, b)"
  then show "s = a @ c # b \<and> c \<notin> set b"
    by (induction s arbitrary: a) (auto simp: split_last_None split: option.splits if_splits)
next
  assume "s = a @ c # b \<and> c \<notin> set b"
  then show "split_last c s = Some (a, b)"
  proof (induction a arbitrary: s)
    case Nil
    then show ?case using split_last_None [of c b] by simp
  qed simp
qed

text \<open>A file name without slashes joined to a directory stays in it.\<close>

lemma path_parent_join:
  assumes "CHR ''/'' \<notin> set f" and "f \<noteq> []" and "d \<noteq> []" and "d = ''/'' \<or> last d \<noteq> CHR ''/''"
  shows "path_parent (path_join d f) = Some d"
proof -
  have f: "\<not> starts_with ''/'' f" using assms(1,2) by (cases f) auto
  show ?thesis
  proof (cases "d = ''/''")
    case True
    then have "split_last CHR ''/'' (path_join d f) = Some ([], f)"
      using assms(1) f split_last_None [of "CHR ''/''" f] by (simp add: path_join_def)
    then show ?thesis using assms(2) True by (simp add: path_parent_def)
  next
    case False
    then have "split_last CHR ''/'' (path_join d f) = Some (d, f)"
      using assms f by (simp add: path_join_def split_last_Some)
    then show ?thesis using assms(3) by (simp add: path_parent_def)
  qed
qed

lemma path_starts_with_refl [simp]: "path_starts_with d d"
  by (simp add: path_starts_with_def starts_with_def)

text \<open>What the operations do to the files.\<close>

lemma fs_op_keeps:
  "(\<And>s. fs_files s = fs_files fs \<Longrightarrow> fs_canon s = fs_canon fs \<Longrightarrow> P (f s)) \<Longrightarrow>
   (\<And>e. P (Inl e, fs\<lparr>fs_ops := fs_ops fs + 1\<rparr>)) \<Longrightarrow> P (fs_op f fs)"
  by (auto simp: fs_op_def Let_def split: option.split)

lemma fs_create_dir_all_files [simp]:
  "fs_files (snd (fs_create_dir_all p fs)) = fs_files fs" "fs_canon (snd (fs_create_dir_all p fs)) = fs_canon fs"
  unfolding fs_create_dir_all_def by (rule fs_op_keeps; simp)+

lemma fs_canonicalize_files [simp]:
  "fs_files (snd (fs_canonicalize p fs)) = fs_files fs" "fs_canon (snd (fs_canonicalize p fs)) = fs_canon fs"
  unfolding fs_canonicalize_def by (rule fs_op_keeps; simp split: option.split)+

lemma fs_canonicalize_value: "fst (fs_canonicalize p fs) = Inr q \<Longrightarrow> fs_canon fs p = Some q"
  by (auto simp: fs_canonicalize_def fs_op_def Let_def split: option.splits)

lemma fs_write_files:
  "fst (fs_write p c fs) = Inr () \<Longrightarrow> fs_files (snd (fs_write p c fs)) = (fs_files fs)(p \<mapsto> c)"
  "fst (fs_write p c fs) = Inl e \<Longrightarrow> fs_files (snd (fs_write p c fs)) = fs_files fs"
  by (auto simp: fs_write_def fs_op_def Let_def split: option.splits if_splits)

end
