(* ===== verification/Std_Files.thy ===== *)
theory Std_Files
  imports Std_Fs
begin

text \<open>
  More of \<open>std::fs\<close> and \<open>std::io\<close>: opening for writing, writing at a position, and \<open>BufWriter\<close> over a
  file that is opened for append. A buffered writer is the text it has not written yet. The second part
  says what the operations do on a file system that has no faults.
\<close>

section \<open>Operations\<close>

text \<open>Opening for writing without creating, seeking and syncing, and writing at a position of the file.\<close>

definition fs_open_write :: "path \<Rightarrow> fs \<Rightarrow> unit fs_result" where
  "fs_open_write p = fs_op (\<lambda>fs. if fs_files fs p = None then (Inl no_such_file, fs) else (Inr (), fs))"

definition fs_sync :: "fs \<Rightarrow> unit fs_result" where
  "fs_sync = fs_op (\<lambda>fs. (Inr (), fs))"

definition fs_write_at :: "path \<Rightarrow> nat \<Rightarrow> string \<Rightarrow> fs \<Rightarrow> unit fs_result" where
  "fs_write_at p pos s = fs_op (\<lambda>fs.
     case fs_files fs p of
       Some c \<Rightarrow> (Inr (), fs\<lparr>fs_files := (fs_files fs)(p \<mapsto> take pos c @ s @ drop (pos + length s) c)\<rparr>)
     | None \<Rightarrow> (Inl no_such_file, fs))"

text \<open>\<open>flush_buf\<close> and \<open>write_all\<close> of a \<open>BufWriter\<close>.\<close>

definition buf_flush :: "path \<Rightarrow> string \<Rightarrow> fs \<Rightarrow> (string + unit) \<times> string \<times> fs" where
  "buf_flush p buf fs =
     (if buf = [] then (Inr (), [], fs)
      else case fs_append p buf fs of (Inr _, fs') \<Rightarrow> (Inr (), [], fs') | (Inl e, fs') \<Rightarrow> (Inl e, buf, fs'))"

definition buf_write_all :: "nat \<Rightarrow> path \<Rightarrow> string \<Rightarrow> string \<Rightarrow> fs \<Rightarrow> (string + unit) \<times> string \<times> fs" where
  "buf_write_all capacity p s buf fs =
     (let spare = capacity - length buf in
      if length s < spare then (Inr (), buf @ s, fs)
      else
        (case (if length s > spare then buf_flush p buf fs else (Inr (), buf, fs)) of
           (Inl e, buf, fs) \<Rightarrow> (Inl e, buf, fs)
         | (Inr _, buf, fs) \<Rightarrow>
             if length s \<ge> capacity
             then (case fs_append p s fs of (r, fs') \<Rightarrow> (r, buf, fs'))
             else (Inr (), buf @ s, fs)))"

section \<open>Without faults\<close>

definition healthy :: "fs \<Rightarrow> bool" where
  "healthy fs \<longleftrightarrow> fs_fault fs = (\<lambda>_. None)"

text \<open>The file system afterwards: the files, the same directories, and still no faults.\<close>

definition becomes :: "fs \<Rightarrow> (path \<rightharpoonup> string) \<Rightarrow> fs \<Rightarrow> bool" where
  "becomes fs m fs' \<longleftrightarrow> fs_files fs' = m \<and> fs_dirs fs' = fs_dirs fs \<and> healthy fs'"

lemma healthy_op: "healthy fs \<Longrightarrow> fs_op f fs = f (fs\<lparr>fs_ops := fs_ops fs + 1\<rparr>)"
  by (simp add: fs_op_def healthy_def)

lemma healthy_updates [simp]:
  "healthy (fs\<lparr>fs_ops := n\<rparr>) = healthy fs" "healthy (fs\<lparr>fs_files := m\<rparr>) = healthy fs" "healthy (fs\<lparr>fs_dirs := d\<rparr>) = healthy fs"
  by (simp_all add: healthy_def)

lemma becomes_same: "healthy fs \<Longrightarrow> fs_files fs p = Some c \<Longrightarrow> becomes fs ((fs_files fs)(p \<mapsto> c)) fs"
  by (simp add: becomes_def fun_upd_idem)

lemma becomes_step: "becomes fs m fs' \<Longrightarrow> becomes fs' m' fs'' \<Longrightarrow> becomes fs m' fs''"
  by (simp add: becomes_def)

lemma healthy_append:
  assumes "healthy fs" and "fs_files fs p = Some c"
  obtains fs' where "fs_append p s fs = (Inr (), fs')" "becomes fs ((fs_files fs)(p \<mapsto> c @ s)) fs'"
  using assms by (simp add: fs_append_def healthy_op becomes_def)

lemma healthy_buf_flush:
  assumes "healthy fs" and "fs_files fs p = Some c"
  obtains fs' where "buf_flush p buf fs = (Inr (), [], fs')" "becomes fs ((fs_files fs)(p \<mapsto> c @ buf)) fs'"
proof (cases "buf = []")
  case True
  show ?thesis by (rule that [of fs]) (use assms True in \<open>simp_all add: buf_flush_def becomes_same\<close>)
next
  case False
  obtain fs' where "fs_append p buf fs = (Inr (), fs')" "becomes fs ((fs_files fs)(p \<mapsto> c @ buf)) fs'"
    using healthy_append [OF assms] by blast
  with False show ?thesis by (intro that [of fs']) (simp_all add: buf_flush_def)
qed

text \<open>A buffered write adds the text to what is in the file and in the buffer.\<close>

lemma healthy_buf_write:
  assumes "healthy fs" and "fs_files fs p = Some c" and "length buf \<le> cap"
  obtains fs' c' buf' where "buf_write_all cap p s buf fs = (Inr (), buf', fs')"
    "becomes fs ((fs_files fs)(p \<mapsto> c')) fs'" "c' @ buf' = c @ buf @ s" "length buf' \<le> cap"
proof -
  consider (fits) "length s \<le> cap - length buf" "length s < cap"
    | (big) "length s > cap - length buf" "length s \<ge> cap"
    | (flush) "length s > cap - length buf" "length s < cap"
    | (direct) "length s \<le> cap - length buf" "length s \<ge> cap" by linarith
  then show ?thesis
  proof cases
    case fits
    then have "buf_write_all cap p s buf fs = (Inr (), buf @ s, fs)" by (simp add: buf_write_all_def Let_def)
    from that [OF this becomes_same [OF assms(1,2)]] fits assms(3) show ?thesis by simp
  next
    case big
    obtain fs1 where fs1: "buf_flush p buf fs = (Inr (), [], fs1)" "becomes fs ((fs_files fs)(p \<mapsto> c @ buf)) fs1"
      using healthy_buf_flush [OF assms(1,2)] by blast
    then have "healthy fs1" "fs_files fs1 p = Some (c @ buf)" by (simp_all add: becomes_def)
    then obtain fs2 where fs2: "fs_append p s fs1 = (Inr (), fs2)" "becomes fs1 ((fs_files fs1)(p \<mapsto> (c @ buf) @ s)) fs2"
      using healthy_append by blast
    have "becomes fs ((fs_files fs)(p \<mapsto> c @ buf @ s)) fs2" using fs1(2) fs2(2) by (simp add: becomes_def)
    moreover have "buf_write_all cap p s buf fs = (Inr (), [], fs2)"
      using big fs1(1) fs2(1) by (simp add: buf_write_all_def Let_def)
    ultimately show ?thesis using that by simp
  next
    case flush
    obtain fs1 where fs1: "buf_flush p buf fs = (Inr (), [], fs1)" "becomes fs ((fs_files fs)(p \<mapsto> c @ buf)) fs1"
      using healthy_buf_flush [OF assms(1,2)] by blast
    then have "buf_write_all cap p s buf fs = (Inr (), s, fs1)" using flush by (simp add: buf_write_all_def Let_def)
    from that [OF this fs1(2)] flush show ?thesis by simp
  next
    case direct
    then have empty: "buf = [] \<or> cap = 0" using assms(3) by (cases buf) auto
    then have buf: "buf = []" using assms(3) by auto
    obtain fs1 where fs1: "fs_append p s fs = (Inr (), fs1)" "becomes fs ((fs_files fs)(p \<mapsto> c @ s)) fs1"
      using healthy_append [OF assms(1,2)] by blast
    then have "buf_write_all cap p s buf fs = (Inr (), [], fs1)" using direct buf by (simp add: buf_write_all_def Let_def)
    from that [OF this fs1(2)] buf show ?thesis by simp
  qed
qed

lemma string_of_nat_inj: "string_of_nat m = string_of_nat n \<longleftrightarrow> m = n"
  by (metis string_of_nat_digits)

text \<open>The names of rotated files differ from the name of the log and from each other.\<close>

lemma with_extension_inj: "with_extension p (''log.'' @ string_of_nat i) = with_extension p (''log.'' @ string_of_nat j) \<longleftrightarrow> i = j"
  by (cases "split_last CHR ''/'' p") (auto simp: with_extension_def string_of_nat_inj)

lemma string_of_nat_chars: "c \<in> set (string_of_nat n) \<Longrightarrow> is_digit c"
  using string_of_nat_digits [of n] by (auto simp: list_all_iff)

lemma file_stem_log: "file_stem f @ ''.log.'' @ string_of_nat i \<noteq> f"
proof
  assume eq: "file_stem f @ ''.log.'' @ string_of_nat i = f"
  have "CHR ''.'' \<notin> set (string_of_nat i)" using string_of_nat_chars [of "CHR ''.''" i] by (auto simp: is_digit_def)
  then have "split_last CHR ''.'' (file_stem f @ ''.log.'' @ string_of_nat i) = Some (file_stem f @ ''.log'', string_of_nat i)"
    by (simp add: split_last_Some)
  then have "file_stem f = file_stem f @ ''.log''" unfolding eq by (subst file_stem_def) simp
  then show False by simp
qed

lemma with_extension_log_neq: "with_extension p (''log.'' @ string_of_nat i) \<noteq> p"
proof (cases "split_last CHR ''/'' p")
  case None
  then show ?thesis using file_stem_log [of p i] by (simp add: with_extension_def)
next
  case (Some df)
  then obtain d f where "split_last CHR ''/'' p = Some (d, f)" by (cases df) simp
  then have "with_extension p e = d @ ''/'' @ file_stem f @ ''.'' @ e" for e by (simp add: with_extension_def)
  moreover have "p = d @ CHR ''/'' # f" using \<open>split_last CHR ''/'' p = Some (d, f)\<close> by (simp add: split_last_Some)
  ultimately show ?thesis using file_stem_log [of f i] by simp
qed

end
