(* ===== verification/Certificates.thy ===== *)
theory Certificates
  imports Std_Search
begin

text \<open>
  Certificates (\<open>corevpn-crypto/src/cert.rs\<close>): the certificate authority with the parameters of
  the certificates it issues, the checks on a loaded certificate, and the text format of static
  keys. Key generation, signing, PEM and DER coding (\<open>rcgen\<close>, \<open>pem\<close>, \<open>x509-cert\<close>) are the
  parameter \<open>pki\<close>; \<open>pki_laws\<close> says what the code relies on.
\<close>

datatype DnType = CommonName | OrganizationName

datatype KeyUsagePurpose = KeyCertSign | CrlSign | DigitalSignature | KeyEncipherment

datatype ExtendedKeyUsagePurpose = ServerAuth | ClientAuth

datatype 'ip SanType = DnsName string | Rfc822Name string | SanIpAddress 'ip

type_synonym DistinguishedName = "(DnType \<times> string) list"

record 'ip CertificateParams =
  distinguished_name :: DistinguishedName
  is_ca :: bool
  key_usages :: "KeyUsagePurpose list"
  extended_key_usages :: "ExtendedKeyUsagePurpose list"
  subject_alt_names :: "'ip SanType list"
  not_before :: instant
  not_after :: instant

record X509Certificate =
  x_issuer :: DistinguishedName
  x_subject :: DistinguishedName
  x_not_before :: nat
  x_not_after :: nat

record ('k, 'c, 'ip) pki =
  params_new :: "string + 'ip CertificateParams"
  self_signed :: "'ip CertificateParams \<Rightarrow> 'k \<Rightarrow> string + 'c"
  signed_by :: "'ip CertificateParams \<Rightarrow> 'k \<Rightarrow> 'c \<Rightarrow> 'k \<Rightarrow> string + 'c"
  pem_of :: "'c \<Rightarrow> string"
  serialize_pem :: "'k \<Rightarrow> string"
  key_from_pem :: "string \<Rightarrow> string + 'k"
  pem_parse :: "string \<Rightarrow> string + bytes"
  x509_from_der :: "bytes \<Rightarrow> string + X509Certificate"
  ia5_dns :: "string \<Rightarrow> bool"
  ia5_mail :: "string \<Rightarrow> bool"

section \<open>The certificate authority\<close>

record ('k, 'c) CertificateAuthority =
  ca_cert :: 'c
  ca_key_pair :: 'k
  ca_cert_pem :: string

record Certificate =
  cert_pem :: string
  key_pem :: string
  ca_pem :: string

definition extract_cn_from_pem :: "string \<Rightarrow> string option" where
  "extract_cn_from_pem pem =
     (case filter (\<lambda>l. contains_sub ''Subject:'' l \<and> contains_sub ''CN='' l) (str_lines pem) of
        [] \<Rightarrow> None
      | l # _ \<Rightarrow>
          (let rest = drop (the (find_sub ''CN='' l) + 3) l;
               stop = (case find_sub '','' rest of Some i \<Rightarrow> i | None \<Rightarrow> length rest) in
           Some (trim (take stop rest))))"

definition days :: "u32 \<Rightarrow> duration" where
  "days n = from_secs (unat n * 24 * 60 * 60)"

definition ca_usages :: "KeyUsagePurpose list" where
  "ca_usages = [KeyCertSign, CrlSign, DigitalSignature]"

definition CertificateAuthority_new ::
  "('k, 'c, 'ip) pki \<Rightarrow> string + 'k \<Rightarrow> instant \<Rightarrow> string \<Rightarrow> string \<Rightarrow> u32 \<Rightarrow> (CryptoError, ('k, 'c) CertificateAuthority) res" where
  "CertificateAuthority_new P gen now common_name organization validity_days =
     and_then (lift_err CertificateError gen) (\<lambda>key_pair.
     and_then (lift_err CertificateError (params_new P)) (\<lambda>params.
     let params = params\<lparr>distinguished_name := [(CommonName, common_name), (OrganizationName, organization)],
                         is_ca := True, key_usages := ca_usages,
                         not_before := now, not_after := now + days validity_days\<rparr> in
     and_then (lift_err CertificateError (self_signed P params key_pair)) (\<lambda>c.
     Inr \<lparr>ca_cert = c, ca_key_pair = key_pair, ca_cert_pem = pem_of P c\<rparr>)))"

definition validate_expiration :: "('k, 'c, 'ip) pki \<Rightarrow> instant \<Rightarrow> Certificate \<Rightarrow> (CryptoError, unit) res" where
  "validate_expiration P now cert =
     and_then (lift_err (\<lambda>e. InvalidPem (''Failed to parse certificate PEM: '' @ e)) (pem_parse P (cert_pem cert))) (\<lambda>der.
     and_then (lift_err (\<lambda>e. CertificateError (''Failed to parse certificate: '' @ e)) (x509_from_der P der)) (\<lambda>c.
     and_then (ensure (\<not> now < from_secs (x_not_before c)) (CertificateError ''Certificate not yet valid'')) (\<lambda>_.
     ensure (\<not> now > from_secs (x_not_after c)) (CertificateError ''Certificate expired''))))"

definition CertificateAuthority_from_pem ::
  "('k, 'c, 'ip) pki \<Rightarrow> instant \<Rightarrow> string \<Rightarrow> string \<Rightarrow> (CryptoError, ('k, 'c) CertificateAuthority) res" where
  "CertificateAuthority_from_pem P now pem key =
     and_then (lift_err InvalidPem (key_from_pem P key)) (\<lambda>key_pair.
     let common_name = (case extract_cn_from_pem pem of Some cn \<Rightarrow> cn | None \<Rightarrow> ''CoreVPN CA'') in
     and_then (lift_err CertificateError (params_new P)) (\<lambda>params.
     let params = params\<lparr>distinguished_name := [(CommonName, common_name)],
                         is_ca := True, key_usages := ca_usages,
                         not_before := now, not_after := now + from_secs (365 * 10 * 24 * 60 * 60)\<rparr> in
     and_then (lift_err CertificateError (self_signed P params key_pair)) (\<lambda>c.
     and_then (validate_expiration P now \<lparr>cert_pem = pem, key_pem = [], ca_pem = pem\<rparr>) (\<lambda>_.
     Inr \<lparr>ca_cert = c, ca_key_pair = key_pair, ca_cert_pem = pem\<rparr>))))"

definition certificate_pem :: "('k, 'c) CertificateAuthority \<Rightarrow> string" where
  "certificate_pem ca = ca_cert_pem ca"

definition private_key_pem :: "('k, 'c, 'ip) pki \<Rightarrow> ('k, 'c) CertificateAuthority \<Rightarrow> string" where
  "private_key_pem P ca = serialize_pem P (ca_key_pair ca)"

definition issue_server_certificate ::
  "('k, 'c, 'ip) pki \<Rightarrow> string + 'k \<Rightarrow> instant \<Rightarrow> ('k, 'c) CertificateAuthority \<Rightarrow>
   string \<Rightarrow> string list \<Rightarrow> 'ip list \<Rightarrow> u32 \<Rightarrow> (CryptoError, Certificate) res" where
  "issue_server_certificate P gen now ca common_name san_dns san_ips validity_days =
     and_then (lift_err CertificateError gen) (\<lambda>server_key.
     let sans = map DnsName (filter (ia5_dns P) san_dns) @ map SanIpAddress san_ips in
     and_then (lift_err CertificateError (params_new P)) (\<lambda>params.
     let params = params\<lparr>distinguished_name := [(CommonName, common_name)],
                         is_ca := False, key_usages := [DigitalSignature, KeyEncipherment],
                         extended_key_usages := [ServerAuth], subject_alt_names := sans,
                         not_before := now, not_after := now + days validity_days\<rparr> in
     and_then (lift_err CertificateError (signed_by P params server_key (ca_cert ca) (ca_key_pair ca))) (\<lambda>c.
     Inr \<lparr>cert_pem = pem_of P c, key_pem = serialize_pem P server_key, ca_pem = ca_cert_pem ca\<rparr>)))"

definition mail_sans :: "('k, 'c, 'ip) pki \<Rightarrow> string option \<Rightarrow> 'ip SanType list" where
  "mail_sans P email = (case email of Some m \<Rightarrow> if ia5_mail P m then [Rfc822Name m] else [] | None \<Rightarrow> [])"

definition issue_client_certificate ::
  "('k, 'c, 'ip) pki \<Rightarrow> string + 'k \<Rightarrow> instant \<Rightarrow> ('k, 'c) CertificateAuthority \<Rightarrow>
   string \<Rightarrow> string option \<Rightarrow> u32 \<Rightarrow> (CryptoError, Certificate) res" where
  "issue_client_certificate P gen now ca common_name email validity_days =
     and_then (lift_err CertificateError gen) (\<lambda>client_key.
     let sans = mail_sans P email in
     and_then (lift_err CertificateError (params_new P)) (\<lambda>params.
     let params = params\<lparr>distinguished_name := [(CommonName, common_name)],
                         is_ca := False, key_usages := [DigitalSignature],
                         extended_key_usages := [ClientAuth], subject_alt_names := sans,
                         not_before := now, not_after := now + days validity_days\<rparr> in
     and_then (lift_err CertificateError (signed_by P params client_key (ca_cert ca) (ca_key_pair ca))) (\<lambda>c.
     Inr \<lparr>cert_pem = pem_of P c, key_pem = serialize_pem P client_key, ca_pem = ca_cert_pem ca\<rparr>)))"

section \<open>Certificates\<close>

definition to_ovpn_inline :: "Certificate \<Rightarrow> string" where
  "to_ovpn_inline cert =
     ''<ca>'' @ [NL] @ trim (ca_pem cert) @ ''</ca>'' @ [NL, NL] @ ''<cert>'' @ [NL] @ trim (cert_pem cert) @
     ''</cert>'' @ [NL, NL] @ ''<key>'' @ [NL] @ trim (key_pem cert) @ ''</key>''"

definition validate_chain :: "('k, 'c, 'ip) pki \<Rightarrow> Certificate \<Rightarrow> (CryptoError, unit) res" where
  "validate_chain P cert =
     and_then (lift_err (\<lambda>e. InvalidPem (''Failed to parse certificate PEM: '' @ e)) (pem_parse P (cert_pem cert))) (\<lambda>der.
     and_then (lift_err (\<lambda>e. CertificateError (''Failed to parse certificate: '' @ e)) (x509_from_der P der)) (\<lambda>c.
     and_then (lift_err (\<lambda>e. InvalidPem (''Failed to parse CA certificate PEM: '' @ e)) (pem_parse P (ca_pem cert))) (\<lambda>ca_der.
     and_then (lift_err (\<lambda>e. CertificateError (''Failed to parse CA certificate: '' @ e)) (x509_from_der P ca_der)) (\<lambda>ca.
     ensure (x_issuer c = x_subject ca) (CertificateError ''Certificate issuer does not match CA subject'')))))"

definition Certificate_validate :: "('k, 'c, 'ip) pki \<Rightarrow> instant \<Rightarrow> Certificate \<Rightarrow> (CryptoError, unit) res" where
  "Certificate_validate P now cert = and_then (validate_expiration P now cert) (\<lambda>_. validate_chain P cert)"

definition Certificate_from_pem ::
  "('k, 'c, 'ip) pki \<Rightarrow> instant \<Rightarrow> string \<Rightarrow> string \<Rightarrow> string \<Rightarrow> (CryptoError, Certificate) res" where
  "Certificate_from_pem P now c k ca =
     (let cert = \<lparr>cert_pem = c, key_pem = k, ca_pem = ca\<rparr> in
      and_then (Certificate_validate P now cert) (\<lambda>_. Inr cert))"

record CertificateRequest =
  csr_pem :: string
  csr_key_pem :: string

definition CertificateRequest_new_client ::
  "('k, 'c, 'ip) pki \<Rightarrow> string + 'k \<Rightarrow> string \<Rightarrow> string option \<Rightarrow> (CryptoError, CertificateRequest) res" where
  "CertificateRequest_new_client P gen common_name email =
     and_then (lift_err CertificateError gen) (\<lambda>key_pair.
     let sans = mail_sans P email in
     and_then (lift_err CertificateError (params_new P)) (\<lambda>params.
     let params = params\<lparr>distinguished_name := [(CommonName, common_name)], subject_alt_names := sans\<rparr> in
     and_then (lift_err CertificateError (self_signed P params key_pair)) (\<lambda>c.
     Inr \<lparr>csr_pem = pem_of P c, csr_key_pem = serialize_pem P key_pair\<rparr>)))"

section \<open>Static keys\<close>

fun chunks_of :: "nat \<Rightarrow> nat \<Rightarrow> 'a list \<Rightarrow> 'a list list" where
  "chunks_of k 0 xs = []"
| "chunks_of k (Suc m) xs = (if xs = [] then [] else take k xs # chunks_of k m (drop k xs))"

text \<open>\<open>key.chunks(16)\<close>: at most one chunk for each element.\<close>

definition hex_line :: "bytes \<Rightarrow> string" where
  "hex_line chunk = concat (map (\<lambda>b. hex_pad 2 (unat b)) chunk)"

definition format_static_key :: "bytes \<Rightarrow> string" where
  "format_static_key key =
     ''#'' @ [NL] @ ''# 2048 bit OpenVPN static key'' @ [NL] @ ''#'' @ [NL] @
     ''-----BEGIN OpenVPN Static key V1-----'' @ [NL] @
     concat (map (\<lambda>chunk. hex_line chunk @ [NL]) (chunks_of 16 (length key) key)) @
     ''-----END OpenVPN Static key V1-----'' @ [NL]"

function parse_hex_line :: "string \<Rightarrow> nat \<Rightarrow> bytes \<Rightarrow> (CryptoError, bytes) res" where
  "parse_hex_line line i key =
     (if length line \<le> i \<or> 256 \<le> length key \<or> length line < i + 2 then Inr key
      else and_then (str_slice line i (i + 2)) (\<lambda>h.
        case parse_hex_u8 h of
          Some b \<Rightarrow> parse_hex_line line (i + 2) (key @ [b])
        | None \<Rightarrow> Inl (Err (InvalidPem ''Invalid hex in static key''))))"
  by pat_completeness auto

termination parse_hex_line
  by (relation "measure (\<lambda>(line, i, _). length line - i)") auto

declare parse_hex_line.simps [simp del]

fun parse_key_lines :: "string list \<Rightarrow> bytes \<Rightarrow> (CryptoError, bytes) res" where
  "parse_key_lines [] key = Inr key"
| "parse_key_lines (l # ls) key =
     (let line = trim l in
      if starts_with ''#'' line \<or> starts_with ''-'' line \<or> line = [] then parse_key_lines ls key
      else and_then (parse_hex_line line 0 key) (\<lambda>key. parse_key_lines ls key))"

definition parse_static_key :: "string \<Rightarrow> (CryptoError, bytes) res" where
  "parse_static_key pem =
     and_then (parse_key_lines (str_lines pem) []) (\<lambda>key.
     if length key \<noteq> 256 then
       Inl (Err (InvalidPem (''Static key wrong length: expected 256, got '' @ string_of_nat (length key))))
     else Inr key)"

section \<open>Lemmas\<close>

lemma concat_chunks_of: "0 < k \<Longrightarrow> length xs \<le> m \<Longrightarrow> concat (chunks_of k m xs) = xs"
  by (induction m arbitrary: xs) auto

text \<open>Hexadecimal lines have no white space and begin with a digit.\<close>

lemma hex_line_Nil [simp]: "hex_line [] = []"
  and hex_line_Cons [simp]: "hex_line (b # bs) = hex_pad 2 (unat b) @ hex_line bs"
  by (simp_all add: hex_line_def)

lemma hex_pad_2: "hex_pad 2 (unat (b :: u8)) = [hex_digit (unat b div 16), hex_digit (unat b mod 16)]"
  using unat_bound [of b] by (simp add: numeral_2_eq_2 less_mult_imp_div_less)

lemma hex_digit_char:
  assumes "n < 16"
  shows "is_digit (hex_digit n) \<or> code (hex_digit n) \<in> {97 .. 102}"
  using assms by (auto simp: hex_digit_def is_digit_def)

definition hex_char :: "char \<Rightarrow> bool" where
  "hex_char c \<longleftrightarrow> code c \<in> {48 .. 57} \<union> {97 .. 102}"

lemma hex_digit_hex_char: "n < 16 \<Longrightarrow> hex_char (hex_digit n)"
  using hex_digit_char [of n] by (auto simp: hex_char_def is_digit_def)

lemma hex_char_line: "c \<in> set (hex_line bs) \<Longrightarrow> hex_char c"
  by (induction bs)
     (use unat_bound [where 'a = 8] in \<open>auto simp: hex_pad_2 intro!: hex_digit_hex_char less_mult_imp_div_less\<close>)

lemma length_hex_line [simp]: "length (hex_line bs) = 2 * length bs"
  by (induction bs) auto

lemma hex_chars_no_ws: "\<forall>c\<in>set s. hex_char c \<Longrightarrow> no_ws s"
  by (induction s) (auto simp: hex_char_def intro!: ws_len_ascii)

lemma hex_chars_boundary: "\<forall>c\<in>set s. hex_char c \<Longrightarrow> i \<le> length s \<Longrightarrow> is_char_boundary s i"
proof (cases "i < length s")
  case True
  moreover assume "\<forall>c\<in>set s. hex_char c"
  ultimately have "hex_char (s ! i)" by simp
  then show ?thesis using True by (auto simp: is_char_boundary_def hex_char_def)
qed (simp add: is_char_boundary_def)

lemma parse_hex_line_reads:
  "\<forall>c\<in>set pre. hex_char c \<Longrightarrow> length key + length bs \<le> 256 \<Longrightarrow>
     parse_hex_line (pre @ hex_line bs) (length pre) key = Inr (key @ bs)"
proof (induction bs arbitrary: pre key)
  case Nil
  then show ?case by (simp add: parse_hex_line.simps)
next
  case (Cons b bs)
  let ?h = "hex_pad 2 (unat b)"
  have hex: "\<forall>c\<in>set (pre @ hex_line (b # bs)). hex_char c"
    using Cons.prems(1) by (metis Un_iff hex_char_line set_append)
  have slice: "str_slice (pre @ hex_line (b # bs)) (length pre) (length pre + 2) = (Inr ?h :: (CryptoError, string) res)"
    using hex_chars_boundary [OF hex] by (simp add: str_slice_def)
  have "parse_hex_line (pre @ hex_line (b # bs)) (length pre) key =
      parse_hex_line ((pre @ ?h) @ hex_line bs) (length (pre @ ?h)) (key @ [b])"
    using Cons.prems(2) slice
    by (subst parse_hex_line.simps) (simp add: parse_hex_pad)
  also have "\<dots> = Inr ((key @ [b]) @ bs)"
    using Cons.prems hex by (intro Cons.IH) auto
  finally show ?case by simp
qed

lemma hex_line_shape: "c \<in> set (hex_line bs) \<Longrightarrow> c \<noteq> NL \<and> c \<noteq> CR \<and> c \<noteq> CHR ''#'' \<and> c \<noteq> CHR ''-'' \<and> c \<noteq> CHR ''O''"
  using hex_char_line by (fastforce simp: hex_char_def)

lemma trim_hex_line [simp]: "trim (hex_line bs) = hex_line bs"
  by (intro trim_no_ws hex_chars_no_ws) (simp add: hex_char_line)

lemma hex_line_kept: "bs \<noteq> [] \<Longrightarrow> \<not> starts_with ''#'' (hex_line bs) \<and> \<not> starts_with ''-'' (hex_line bs) \<and> hex_line bs \<noteq> []"
proof -
  assume "bs \<noteq> []"
  then have "hex_line bs \<noteq> []" by (metis length_0_conv length_hex_line mult_eq_0_iff zero_neq_numeral)
  then obtain c t where "hex_line bs = c # t" by (cases "hex_line bs") auto
  with hex_line_shape [of c bs] show ?thesis by auto
qed

lemma parse_key_lines_hex:
  "length key + length (concat cs) \<le> 256 \<Longrightarrow> [] \<notin> set cs \<Longrightarrow>
     parse_key_lines (map hex_line cs @ ls) key = parse_key_lines ls (key @ concat cs)"
proof (induction cs arbitrary: key)
  case (Cons c cs)
  moreover have "parse_hex_line (hex_line c) 0 key = Inr (key @ c)"
    using parse_hex_line_reads [of "[]" key c] Cons.prems by simp
  moreover have "c \<noteq> []" using Cons.prems by auto
  ultimately show ?case by (simp add: hex_line_kept Let_def)
qed simp

text \<open>The lines of a formatted key: four of header, the hexadecimal ones, one of footer.\<close>

definition key_header :: "string list" where
  "key_header = [''#'', ''# 2048 bit OpenVPN static key'', ''#'', ''-----BEGIN OpenVPN Static key V1-----'']"

definition key_footer :: "string list" where
  "key_footer = [''-----END OpenVPN Static key V1-----'']"

lemma format_static_key_lines:
  "format_static_key key =
     concat (map (\<lambda>l. l @ [NL]) (key_header @ map hex_line (chunks_of 16 (length key) key) @ key_footer))"
  by (simp add: format_static_key_def key_header_def key_footer_def comp_def)

lemma header_plain: "\<forall>l\<in>set (key_header @ key_footer). NL \<notin> set l \<and> CR \<notin> set l"
  by code_simp

lemma header_skipped: "parse_key_lines (key_header @ ls) key = parse_key_lines ls key"
proof -
  have "starts_with ''#'' (trim ''#'')" "starts_with ''#'' (trim ''# 2048 bit OpenVPN static key'')"
    "starts_with ''-'' (trim ''-----BEGIN OpenVPN Static key V1-----'')"
    by code_simp+
  then show ?thesis by (simp add: key_header_def Let_def)
qed

lemma footer_skipped: "parse_key_lines key_footer key = Inr key"
proof -
  have "starts_with ''-'' (trim ''-----END OpenVPN Static key V1-----'')" by code_simp
  then show ?thesis by (simp add: key_footer_def Let_def)
qed

lemma chunks_of_nonempty: "0 < k \<Longrightarrow> [] \<notin> set (chunks_of k m xs)"
  by (induction m arbitrary: xs) auto

lemma static_key_lines:
  "str_lines (format_static_key key) = key_header @ map hex_line (chunks_of 16 (length key) key) @ key_footer"
proof -
  have hex: "NL \<notin> set (hex_line bs) \<and> CR \<notin> set (hex_line bs)" for bs
    using hex_line_shape by blast
  show ?thesis
    unfolding format_static_key_lines using header_plain by (intro str_lines_unlines) (auto simp: hex)
qed

lemma static_key_roundtrip:
  assumes "length key = 256"
  shows "parse_static_key (format_static_key key) = Inr key"
  using assms concat_chunks_of [of 16 key "length key"]
  by (simp add: parse_static_key_def static_key_lines header_skipped footer_skipped
      parse_key_lines_hex chunks_of_nonempty)

subsection \<open>Issued certificates\<close>

definition parsed :: "('k, 'c, 'ip) pki \<Rightarrow> string \<Rightarrow> X509Certificate option" where
  "parsed P pem =
     (case pem_parse P pem of
        Inr der \<Rightarrow> (case x509_from_der P der of Inr x \<Rightarrow> Some x | Inl _ \<Rightarrow> None)
      | Inl _ \<Rightarrow> None)"

text \<open>
  What the code relies on: a certificate that was made and printed can be read, it has the subject
  and the validity (in whole seconds) of the parameters and the subject of its issuer, and a key
  that was printed can be read. The PEM text of a certificate is base64 between its markers and
  has no \<open>Subject:\<close> line.
\<close>

definition x509_of :: "'ip CertificateParams \<Rightarrow> DistinguishedName \<Rightarrow> X509Certificate" where
  "x509_of p issuer =
     \<lparr>x_issuer = issuer, x_subject = distinguished_name p,
      x_not_before = not_before p div 1000000000, x_not_after = not_after p div 1000000000\<rparr>"

definition pki_laws :: "('k, 'c, 'ip) pki \<Rightarrow> bool" where
  "pki_laws P \<longleftrightarrow>
     (\<forall>p k c. self_signed P p k = Inr c \<longrightarrow> parsed P (pem_of P c) = Some (x509_of p (distinguished_name p))) \<and>
     (\<forall>p k ca cak c x. signed_by P p k ca cak = Inr c \<longrightarrow> parsed P (pem_of P ca) = Some x \<longrightarrow>
        parsed P (pem_of P c) = Some (x509_of p (x_subject x))) \<and>
     (\<forall>k. key_from_pem P (serialize_pem P k) = Inr k) \<and>
     (\<forall>c. \<not> contains_sub ''Subject:'' (pem_of P c))"

lemma parsed_Some_iff: "parsed P pem = Some x \<longleftrightarrow> (\<exists>der. pem_parse P pem = Inr der \<and> x509_from_der P der = Inr x)"
  by (auto simp: parsed_def split: sum.splits)

lemma lift_err_Inr [simp]: "lift_err f (Inr x) = Inr x"
  by (simp add: lift_err_def)

lemma validate_expiration_parsed:
  "parsed P (cert_pem cert) = Some x \<Longrightarrow>
     validate_expiration P now cert =
       (if now < from_secs (x_not_before x) then Inl (Err (CertificateError ''Certificate not yet valid''))
        else if now > from_secs (x_not_after x) then Inl (Err (CertificateError ''Certificate expired''))
        else Inr ())"
  by (auto simp: validate_expiration_def parsed_Some_iff ensure_def)

lemma validate_chain_parsed:
  "parsed P (cert_pem cert) = Some x \<Longrightarrow> parsed P (ca_pem cert) = Some ca \<Longrightarrow>
     validate_chain P cert =
       ensure (x_issuer x = x_subject ca) (CertificateError ''Certificate issuer does not match CA subject'')"
  by (auto simp: validate_chain_def parsed_Some_iff)

lemma contains_line: "l \<in> set (str_lines s) \<Longrightarrow> contains_sub p l \<Longrightarrow> contains_sub p s"
proof -
  assume l: "l \<in> set (str_lines s)" and p: "contains_sub p l"
  have part: "m \<in> set (split_on NL s) \<Longrightarrow> \<exists>x y. s = x @ m @ y" for m
  proof (induction s arbitrary: m)
    case (Cons c s)
    obtain h t where ht: "split_on NL s = h # t" by (cases "split_on NL s") auto
    have s: "s = join [NL] (h # t)" using split_on_parts [of NL s] ht by simp
    show ?case
    proof (cases "c = NL")
      case True
      with Cons.prems consider "m = []" | "m \<in> set (split_on NL s)" by auto
      then show ?thesis using Cons.IH [of m] by cases (auto intro: exI [of _ "c # _"], metis append_Cons)
    next
      case False
      with Cons.prems ht consider "m = c # h" | "m \<in> set t" by auto
      then show ?thesis
      proof cases
        case 1
        have "\<exists>y. s = h @ y" using s by (cases t) auto
        with 1 show ?thesis by (metis append_Cons append_Nil)
      next
        case 2
        with ht Cons.IH [of m] show ?thesis by (metis append_Cons list.set_intros(2))
      qed
    qed
  qed simp
  have sub: "\<exists>x y. m = x @ strip_cr m @ y" for m
    by (metis append.right_neutral append_Nil append_butlast_last_id strip_cr_def)
  obtain m where m: "m \<in> set (split_on NL s)" "l = m \<or> l = strip_cr m"
    using l by (auto simp: str_lines_def Let_def split: if_splits dest: in_set_butlastD) (metis last_in_set split_on_nonempty)
  obtain x y where "s = x @ m @ y" using part [OF m(1)] by blast
  moreover obtain x' y' where "m = x' @ l @ y'" using m(2) sub [of m] by (metis append.right_neutral append_Nil)
  moreover obtain u v where "l = u @ p @ v" using p by (auto simp: contains_sub_iff)
  ultimately have "s = (x @ x' @ u) @ p @ (v @ y' @ y)" by simp
  then show ?thesis unfolding contains_sub_iff by blast
qed

lemma extract_cn_from_issued: "pki_laws P \<Longrightarrow> extract_cn_from_pem (pem_of P c) = None"
proof -
  assume "pki_laws P"
  then have "filter (\<lambda>l. contains_sub ''Subject:'' l \<and> contains_sub ''CN='' l) (str_lines (pem_of P c)) = []"
    using contains_line by (fastforce simp: pki_laws_def filter_empty_conv)
  then show ?thesis by (simp add: extract_cn_from_pem_def)
qed

lemma from_secs_div: "from_secs (n div 1000000000) \<le> n"
  by (simp add: from_secs_def)

lemma CertificateAuthority_new_parsed:
  assumes "pki_laws P" and "CertificateAuthority_new P gen now cn org d = Inr ca"
  shows "ca_cert_pem ca = pem_of P (ca_cert ca)"
    and "\<exists>x. parsed P (ca_cert_pem ca) = Some x \<and> x_subject x = [(CommonName, cn), (OrganizationName, org)]"
  using assms
  by (auto simp: CertificateAuthority_new_def pki_laws_def res_simps Let_def x509_of_def)

lemma CertificateAuthority_from_pem_parsed:
  assumes "pki_laws P" and "CertificateAuthority_from_pem P now pem key = Inr ca"
  shows "ca_cert_pem ca = pem"
    and "\<exists>x cn. parsed P (pem_of P (ca_cert ca)) = Some x \<and> x_subject x = [(CommonName, cn)]"
  using assms
  by (auto simp: CertificateAuthority_from_pem_def pki_laws_def res_simps Let_def x509_of_def)

lemma issue_client_parsed:
  assumes "pki_laws P" and "issue_client_certificate P gen now ca cn mail d = Inr cert"
    and "parsed P (pem_of P (ca_cert ca)) = Some x"
  shows "ca_pem cert = ca_cert_pem ca"
    and "\<exists>c. parsed P (cert_pem cert) = Some c \<and> x_issuer c = x_subject x \<and>
           x_not_before c = now div 1000000000 \<and> x_not_after c = (now + days d) div 1000000000"
  using assms
  by (auto simp: issue_client_certificate_def pki_laws_def res_simps Let_def x509_of_def)

text \<open>A concrete toolkit that knows four certificates: the two authorities and a client of each.\<close>

definition sample_x509 :: "nat \<Rightarrow> X509Certificate" where
  "sample_x509 n =
     (let org = [(CommonName, ''Org CA''), (OrganizationName, ''Org'')]; default = [(CommonName, ''CoreVPN CA'')];
          user = [(CommonName, ''user'')] in
      [\<lparr>x_issuer = org, x_subject = org, x_not_before = 5, x_not_after = 5 + 86400\<rparr>,
       \<lparr>x_issuer = default, x_subject = default, x_not_before = 5, x_not_after = 5 + 315360000\<rparr>,
       \<lparr>x_issuer = org, x_subject = user, x_not_before = 5, x_not_after = 5 + 86400\<rparr>,
       \<lparr>x_issuer = default, x_subject = user, x_not_before = 5, x_not_after = 5 + 86400\<rparr>] ! n)"

definition sample_params :: "unit CertificateParams" where
  "sample_params =
     \<lparr>distinguished_name = [], is_ca = False, key_usages = [], extended_key_usages = [],
      subject_alt_names = [], not_before = 0, not_after = 0\<rparr>"

definition sample_pki :: "(unit, nat, unit) pki" where
  "sample_pki =
     \<lparr>params_new = Inr sample_params,
      self_signed = (\<lambda>p _. if x509_of p (distinguished_name p) = sample_x509 0 then Inr 0
                           else if x509_of p (distinguished_name p) = sample_x509 1 then Inr 1 else Inl ''x''),
      signed_by = (\<lambda>p _ ca _. if ca < 2 \<and> x509_of p (x_subject (sample_x509 ca)) = sample_x509 (ca + 2)
                              then Inr (ca + 2) else Inl ''x''),
      pem_of = (\<lambda>n. [char_of (65 + n)]), serialize_pem = (\<lambda>_. ''k''), key_from_pem = (\<lambda>_. Inr ()),
      pem_parse = (\<lambda>s. Inr (str_bytes s)),
      x509_from_der = (\<lambda>bs. if bs \<in> set [[65], [66], [67], [68]] then Inr (sample_x509 (unat (hd bs) - 65)) else Inl ''x''),
      ia5_dns = (\<lambda>_. True), ia5_mail = (\<lambda>_. True)\<rparr>"

lemma char_letters [simp]:
  "char_of (65 :: nat) = CHR ''A''" "char_of (67 :: nat) = CHR ''C''" "char_of (68 :: nat) = CHR ''D''"
  by code_simp+

lemma sample_parsed: "n < 4 \<Longrightarrow> parsed sample_pki (pem_of sample_pki n) = Some (sample_x509 n)"
proof -
  assume "n < 4"
  then consider "n = 0" | "n = 1" | "n = 2" | "n = 3" by linarith
  then show ?thesis by cases (simp_all add: parsed_def sample_pki_def str_bytes_def)
qed

lemma sample_pki_laws: "pki_laws sample_pki"
proof -
  have self: "c < 2 \<and> x509_of p (distinguished_name p) = sample_x509 c" if "self_signed sample_pki p k = Inr c" for p k c
    using that by (auto simp: sample_pki_def split: if_splits)
  have issued: "ca < 2 \<and> c = ca + 2 \<and> x509_of p (x_subject (sample_x509 ca)) = sample_x509 c"
    if "signed_by sample_pki p k ca cak = Inr c" for p k ca cak c
    using that by (auto simp: sample_pki_def split: if_splits)
  have keys: "key_from_pem sample_pki (serialize_pem sample_pki k) = Inr k" for k
    by (simp add: sample_pki_def)
  have plain: "\<not> contains_sub ''Subject:'' (pem_of sample_pki c)" for c
    by (simp add: sample_pki_def contains_sub_def starts_with_def)
  show ?thesis
    unfolding pki_laws_def
  proof (intro conjI allI impI)
    fix p k c assume "self_signed sample_pki p k = Inr c"
    with self show "parsed sample_pki (pem_of sample_pki c) = Some (x509_of p (distinguished_name p))"
      by (metis add_2_eq_Suc' less_add_Suc1 less_trans numeral_Bit0 sample_parsed trans_less_add1)
  next
    fix p k ca cak c x
    assume "signed_by sample_pki p k ca cak = Inr c" and x: "parsed sample_pki (pem_of sample_pki ca) = Some x"
    with issued have c: "ca < 2" "c = ca + 2" "x509_of p (x_subject (sample_x509 ca)) = sample_x509 c" by blast+
    with x sample_parsed [of ca] sample_parsed [of c]
    show "parsed sample_pki (pem_of sample_pki c) = Some (x509_of p (x_subject x))" by simp
  qed (use keys plain in auto)
qed

definition sample_ca :: "(unit, nat) CertificateAuthority" where
  "sample_ca = \<lparr>ca_cert = 0, ca_key_pair = (), ca_cert_pem = ''A''\<rparr>"

definition sample_reloaded :: "(unit, nat) CertificateAuthority" where
  "sample_reloaded = \<lparr>ca_cert = 1, ca_key_pair = (), ca_cert_pem = ''A''\<rparr>"

lemmas sample_pki_defs = sample_pki_def sample_params_def sample_x509_def x509_of_def days_def from_secs_def
  ca_usages_def sample_ca_def sample_reloaded_def Let_def

lemma sample_ca_new: "CertificateAuthority_new sample_pki (Inr ()) (from_secs 5) ''Org CA'' ''Org'' 1 = Inr sample_ca"
  by (simp add: CertificateAuthority_new_def sample_pki_defs)

lemma sample_ca_reload:
  "CertificateAuthority_from_pem sample_pki (from_secs 5) (certificate_pem sample_ca) (private_key_pem sample_pki sample_ca) =
     Inr sample_reloaded"
proof -
  have "extract_cn_from_pem ''A'' = None" by code_simp
  moreover have "parsed sample_pki ''A'' = Some (sample_x509 0)"
    using sample_parsed [of 0] by (simp add: sample_pki_def)
  ultimately show ?thesis
    using validate_expiration_parsed [of sample_pki "\<lparr>cert_pem = ''A'', key_pem = [], ca_pem = ''A''\<rparr>" "sample_x509 0" "from_secs 5"]
    by (simp add: CertificateAuthority_from_pem_def certificate_pem_def sample_pki_defs)
qed

section \<open>Properties\<close>

text \<open>
  A static key that the server writes is read back: parsing the text of a key of 256 bytes gives
  the key. The text has the header, sixteen lines of sixteen bytes in hexadecimal, and the footer.
\<close>

theorem static_key_format_roundtrip:
  assumes "length key = 256"
  shows "parse_static_key (format_static_key key) = Inr key \<and>
         str_lines (format_static_key key) = key_header @ map hex_line (chunks_of 16 256 key) @ key_footer"
  using assms static_key_roundtrip static_key_lines [of key] by simp

theorem static_key_format_roundtrip_witness:
  "length (replicate 256 (0xA5 :: u8)) = 256 \<and>
   parse_static_key (format_static_key (replicate 256 0xA5)) = Inr (replicate 256 0xA5)"
  using static_key_format_roundtrip [of "replicate 256 0xA5"] by simp

text \<open>
  C32. A client certificate that a new authority issues passes the check of its chain, and it passes
  the check of its dates exactly from the second of its issue to the end of its lifetime.
\<close>

theorem issued_certificate_valid:
  assumes "pki_laws P" and "CertificateAuthority_new P gen\<^sub>0 t\<^sub>0 cn org d\<^sub>0 = Inr ca"
    and "issue_client_certificate P gen t ca user mail d = Inr cert"
  shows "validate_chain P cert = Inr () \<and>
         (Certificate_validate P now cert = Inr () \<longleftrightarrow>
            from_secs (t div 1000000000) \<le> now \<and> now \<le> from_secs ((t + days d) div 1000000000))"
proof -
  note ca = CertificateAuthority_new_parsed [OF assms(1,2)]
  then obtain x where x: "parsed P (pem_of P (ca_cert ca)) = Some x" by auto
  note cert = issue_client_parsed [OF assms(1,3) x]
  then obtain c where c: "parsed P (cert_pem cert) = Some c" "x_issuer c = x_subject x"
    and dates: "x_not_before c = t div 1000000000" "x_not_after c = (t + days d) div 1000000000" by auto
  have "parsed P (ca_pem cert) = Some x" using cert(1) ca(1) x by simp
  then have chain: "validate_chain P cert = Inr ()"
    using validate_chain_parsed [OF c(1)] c(2) by simp
  then show ?thesis
    by (auto simp: Certificate_validate_def validate_expiration_parsed [OF c(1)] dates res_simps split: if_splits)
qed

theorem issued_certificate_valid_witness:
  "\<exists>cert. issue_client_certificate sample_pki (Inr ()) (from_secs 5) sample_ca ''user'' None 1 = Inr cert \<and>
     validate_chain sample_pki cert = Inr () \<and> Certificate_validate sample_pki (from_secs 86405) cert = Inr () \<and>
     Certificate_validate sample_pki (from_secs 86406) cert \<noteq> Inr ()"
proof -
  have issue: "issue_client_certificate sample_pki (Inr ()) (from_secs 5) sample_ca ''user'' None 1 =
      Inr \<lparr>cert_pem = ''C'', key_pem = ''k'', ca_pem = ''A''\<rparr>"
    by (simp add: issue_client_certificate_def mail_sans_def sample_pki_defs)
  show ?thesis
    using issued_certificate_valid [OF sample_pki_laws sample_ca_new issue, of "from_secs 86405"]
      issued_certificate_valid [OF sample_pki_laws sample_ca_new issue, of "from_secs 86406"] issue
    by (auto simp: from_secs_def days_def)
qed

text \<open>
  C33. An authority that is loaded from its own files issues certificates that fail the check of
  their chain: loading makes a new authority certificate whose name is read from a \<open>Subject:\<close> line
  that PEM files do not have, so the issuer of every certificate it signs differs from the subject
  of the certificate that is distributed.
\<close>

theorem reloaded_authority_breaks_chain:
  assumes "pki_laws P" and "CertificateAuthority_new P gen\<^sub>0 t\<^sub>0 cn org d\<^sub>0 = Inr ca"
    and "CertificateAuthority_from_pem P t\<^sub>1 (certificate_pem ca) (private_key_pem P ca) = Inr ca'"
    and "issue_client_certificate P gen t ca' user mail d = Inr cert"
  shows "ca_pem cert = certificate_pem ca \<and>
         validate_chain P cert = Inl (Err (CertificateError ''Certificate issuer does not match CA subject''))"
proof -
  obtain x where x: "parsed P (ca_cert_pem ca) = Some x" "x_subject x = [(CommonName, cn), (OrganizationName, org)]"
    using CertificateAuthority_new_parsed [OF assms(1,2)] by auto
  note ca' = CertificateAuthority_from_pem_parsed [OF assms(1,3)]
  then obtain y cn' where y: "parsed P (pem_of P (ca_cert ca')) = Some y" "x_subject y = [(CommonName, cn')]" by auto
  note cert = issue_client_parsed [OF assms(1,4) y(1)]
  then obtain c where c: "parsed P (cert_pem cert) = Some c" "x_issuer c = [(CommonName, cn')]" using y(2) by auto
  have "parsed P (ca_pem cert) = Some x" using cert(1) ca'(1) x(1) by (simp add: certificate_pem_def)
  then show ?thesis
    using validate_chain_parsed [OF c(1)] c(2) x(2) cert(1) ca'(1) by (simp add: certificate_pem_def)
qed

theorem reloaded_authority_breaks_chain_witness:
  "\<exists>cert. issue_client_certificate sample_pki (Inr ()) (from_secs 5) sample_reloaded ''user'' None 1 = Inr cert \<and>
     validate_chain sample_pki cert = Inl (Err (CertificateError ''Certificate issuer does not match CA subject''))"
proof -
  have issue: "issue_client_certificate sample_pki (Inr ()) (from_secs 5) sample_reloaded ''user'' None 1 =
      Inr \<lparr>cert_pem = ''D'', key_pem = ''k'', ca_pem = ''A''\<rparr>"
    by (simp add: issue_client_certificate_def mail_sans_def sample_pki_defs)
  show ?thesis
    using reloaded_authority_breaks_chain [OF sample_pki_laws sample_ca_new sample_ca_reload issue] issue by blast
qed

end
