(* ===== verification/Config_Server.thy ===== *)
theory Config_Server
  imports Std_Net Std_Fs
begin

text \<open>
  The server configuration (\<open>corevpn-config/src/server.rs\<close>): its sections with their default
  values, the checks made before a configuration is used, and the file names derived from it.
  Reading and printing TOML is foreign code and an argument, as is the reading of networks
  (\<open>ipnet\<close>) and the Unicode table behind \<open>is_alphanumeric\<close>.
\<close>

datatype ConfigError =
    IoError string
  | SerializationError string
  | ValidationError string
  | MissingField string

fun ConfigError_fmt :: "ConfigError \<Rightarrow> string" where
  "ConfigError_fmt (IoError e) = ''IO error: '' @ e"
| "ConfigError_fmt (SerializationError e) = ''serialization error: '' @ e"
| "ConfigError_fmt (ValidationError e) = ''validation error: '' @ e"
| "ConfigError_fmt (MissingField e) = ''missing required field: '' @ e"

section \<open>Sections and defaults\<close>

record ServerSettings =
  listen_addr :: SocketAddr
  tcp_listen_addr :: "SocketAddr option"
  public_host :: string
  ss_protocol :: string
  max_clients :: u32
  data_dir :: path
  idle_timeout_sec :: u64

definition default_idle_timeout :: u64 where "default_idle_timeout = 300"

definition default_listen_addr :: SocketAddr where
  "default_listen_addr = \<lparr>sa_ip = V4 0, sa_port = 1194\<rparr>"

definition default_protocol :: string where "default_protocol = ''udp''"
definition default_max_clients :: u32 where "default_max_clients = 1000"
definition default_data_dir :: path where "default_data_dir = ''/var/lib/corevpn''"

record NetworkSettings =
  subnet :: string
  subnet_v6 :: "string option"
  ns_dns :: "string list"
  dns_search :: "string list"
  push_routes :: "string list"
  ns_redirect_gateway :: bool
  mtu :: u16

definition default_subnet :: string where "default_subnet = ''10.8.0.0/24''"
definition default_dns :: "string list" where "default_dns = [''1.1.1.1'', ''1.0.0.1'']"
definition default_redirect_gateway :: bool where "default_redirect_gateway = True"
definition default_mtu :: u16 where "default_mtu = 1420"

record SecuritySettings =
  ss_cipher :: string
  tls_min_version :: string
  ss_tls_auth :: bool
  ss_tls_crypt :: bool
  cert_lifetime_days :: u32
  client_cert_lifetime_days :: u32
  ss_reneg_sec :: u32
  pfs :: bool

definition default_cipher :: string where "default_cipher = ''chacha20-poly1305''"
definition default_tls_version :: string where "default_tls_version = ''1.3''"
definition default_true :: bool where "default_true = True"
definition default_cert_lifetime :: u32 where "default_cert_lifetime = 3650"
definition default_client_cert_lifetime :: u32 where "default_client_cert_lifetime = 90"
definition default_reneg_sec :: u32 where "default_reneg_sec = 3600"

record OAuthSettings =
  oauth_enabled :: bool
  oauth_provider :: string
  oauth_client_id :: string
  oauth_client_secret :: string
  oauth_issuer_url :: "string option"
  oauth_tenant_id :: "string option"
  oauth_domain :: "string option"
  oauth_allowed_domains :: "string list"
  oauth_required_groups :: "string list"
  oauth_port :: u16
  external_url :: "string option"
  session_lifetime_sec :: u64

definition default_session_lifetime :: u64 where "default_session_lifetime = 86400"
definition default_oauth_port :: u16 where "default_oauth_port = 9000"

datatype ConnectionLogMode = LogNone | LogMemory | LogFile | LogDatabase | LogBoth

definition ConnectionLogMode_default :: ConnectionLogMode where
  "ConnectionLogMode_default = LogMemory"

record ConnectionLogEvents =
  log_attempts :: bool
  log_connects :: bool
  log_disconnects :: bool
  auth_events :: bool
  transfer_stats :: bool
  ip_changes :: bool
  renegotiations :: bool

text \<open>The derived \<open>Default\<close>, and the values serde takes for the keys a section leaves out.\<close>

definition ConnectionLogEvents_default :: ConnectionLogEvents where
  "ConnectionLogEvents_default =
     \<lparr>log_attempts = False, log_connects = False, log_disconnects = False, auth_events = False,
      transfer_stats = False, ip_changes = False, renegotiations = False\<rparr>"

definition ConnectionLogEvents_read :: "(string \<rightharpoonup> bool) \<Rightarrow> ConnectionLogEvents" where
  "ConnectionLogEvents_read sec =
     (let key = (\<lambda>k d. case sec k of Some b \<Rightarrow> b | None \<Rightarrow> d) in
      \<lparr>log_attempts = key ''attempts'' False, log_connects = key ''connects'' default_true,
       log_disconnects = key ''disconnects'' default_true, auth_events = key ''auth_events'' False,
       transfer_stats = key ''transfer_stats'' False, ip_changes = key ''ip_changes'' False,
       renegotiations = key ''renegotiations'' False\<rparr>)"

record ConnectionLogAnonymization =
  hash_client_ips :: bool
  truncate_client_ips :: bool
  hash_usernames :: bool
  round_timestamps :: bool
  aggregate_transfer_stats :: bool

definition ConnectionLogAnonymization_default :: ConnectionLogAnonymization where
  "ConnectionLogAnonymization_default =
     \<lparr>hash_client_ips = False, truncate_client_ips = False, hash_usernames = False,
      round_timestamps = False, aggregate_transfer_stats = False\<rparr>"

record ConnectionLogRetention =
  ret_days :: u32
  max_file_size_mb :: u32
  ret_max_files :: u32
  auto_purge :: bool
  secure_delete :: bool

definition default_retention_days :: u32 where "default_retention_days = 7"
definition default_max_log_size_mb :: u32 where "default_max_log_size_mb = 100"
definition default_max_log_files :: u32 where "default_max_log_files = 5"

definition ConnectionLogRetention_default :: ConnectionLogRetention where
  "ConnectionLogRetention_default =
     \<lparr>ret_days = default_retention_days, max_file_size_mb = default_max_log_size_mb,
      ret_max_files = default_max_log_files, auto_purge = True, secure_delete = False\<rparr>"

record LoggingSettings =
  log_level :: string
  log_format :: string
  log_file :: "path option"
  connection_mode :: ConnectionLogMode
  connection_log_file :: "path option"
  connection_log_db :: "path option"
  connection_events :: ConnectionLogEvents
  anonymization :: ConnectionLogAnonymization
  retention :: ConnectionLogRetention
  log_connections :: bool

definition default_log_level :: string where "default_log_level = ''info''"
definition default_log_format :: string where "default_log_format = ''pretty''"

definition LoggingSettings_default :: LoggingSettings where
  "LoggingSettings_default =
     \<lparr>log_level = default_log_level, log_format = default_log_format, log_file = None,
      connection_mode = ConnectionLogMode_default, connection_log_file = None, connection_log_db = None,
      connection_events = ConnectionLogEvents_default, anonymization = ConnectionLogAnonymization_default,
      retention = ConnectionLogRetention_default, log_connections = True\<rparr>"

record AdminSettings =
  admin_enabled :: bool
  admin_listen_addr :: SocketAddr
  admin_api_key :: "string option"
  allowed_ips :: "string list"

definition default_admin_addr :: SocketAddr where
  "default_admin_addr = \<lparr>sa_ip = V4 (u32_from_be_bytes [127, 0, 0, 1]), sa_port = 8443\<rparr>"

definition AdminSettings_default :: AdminSettings where
  "AdminSettings_default =
     \<lparr>admin_enabled = False, admin_listen_addr = default_admin_addr, admin_api_key = None,
      allowed_ips = [''127.0.0.1'']\<rparr>"

datatype AuditSinkConfig =
    AwsCloudwatch (cw_region: string) (cw_log_group: string) (cw_log_stream: string) (cw_profile: "string option") (cw_role_arn: "string option")
  | AwsS3 (s3_region: string) (s3_bucket: string) (s3_prefix: string) (s3_profile: "string option")
  | AwsSecurityHub (sh_region: string) (sh_account_id: string) (sh_profile: "string option")
  | AwsEventBridge (eb_region: string) (eb_event_bus: string) (eb_profile: "string option")
  | AzureMonitor (am_workspace_id: string) (am_shared_key: string) (am_log_type: string)
  | AzureEventHub (eh_namespace: string) (eh_event_hub: string) (eh_policy_name: string) (eh_policy_key: string)
  | AzureSentinel (as_workspace_id: string) (as_shared_key: string) (as_log_type: string)
  | OracleLogging (ol_region: string) (ol_log_id: string) (ol_tenancy_id: string) (ol_user_id: string) (ol_fingerprint: string) (ol_private_key: string)
  | OracleStreaming (os_region: string) (os_stream_id: string) (os_tenancy_id: string) (os_user_id: string) (os_fingerprint: string) (os_private_key: string)
  | Elasticsearch (es_urls: "string list") (es_index: string) (es_username: "string option") (es_password: "string option") (es_api_key: "string option")
  | Splunk (sp_url: string) (sp_token: string) (sp_sourcetype: string) (sp_index: "string option")
  | Kafka (kf_brokers: "string list") (kf_topic: string) (kf_sasl_username: "string option") (kf_sasl_password: "string option")
  | Syslog (sl_address: string) (sl_port: u16) (sl_protocol: string) (sl_use_cef: bool) (sl_use_leef: bool)
  | Webhook (wh_url: string) (wh_headers: "(string \<times> string) list") (wh_bearer_token: "string option") (wh_api_key_header: "string option") (wh_api_key_value: "string option")
  | SinkFile (sf_path: string) (sf_format: string) (sf_max_size_mb: u64) (sf_max_files: u32)

record AuditSettings =
  audit_enabled :: bool
  buffer_size :: nat
  include_source_ip :: bool
  include_user_identity :: bool
  hash_sensitive_fields :: bool
  audit_sinks :: "AuditSinkConfig list"

definition default_audit_buffer :: nat where "default_audit_buffer = 10000"

definition AuditSettings_default :: AuditSettings where
  "AuditSettings_default =
     \<lparr>audit_enabled = False, buffer_size = 10000, include_source_ip = True,
      include_user_identity = True, hash_sensitive_fields = False, audit_sinks = []\<rparr>"

record ServerConfig =
  sc_server :: ServerSettings
  sc_network :: NetworkSettings
  sc_security :: SecuritySettings
  sc_oauth :: "OAuthSettings option"
  sc_logging :: LoggingSettings
  sc_admin :: AdminSettings
  sc_audit :: AuditSettings

definition default_config :: "string \<Rightarrow> ServerConfig" where
  "default_config host =
     \<lparr>sc_server = \<lparr>listen_addr = default_listen_addr, tcp_listen_addr = None, public_host = host,
        ss_protocol = default_protocol, max_clients = default_max_clients, data_dir = default_data_dir,
        idle_timeout_sec = default_idle_timeout\<rparr>,
      sc_network = \<lparr>subnet = default_subnet, subnet_v6 = None, ns_dns = default_dns, dns_search = [],
        push_routes = [], ns_redirect_gateway = default_redirect_gateway, mtu = default_mtu\<rparr>,
      sc_security = \<lparr>ss_cipher = default_cipher, tls_min_version = default_tls_version, ss_tls_auth = True,
        ss_tls_crypt = False, cert_lifetime_days = default_cert_lifetime,
        client_cert_lifetime_days = default_client_cert_lifetime, ss_reneg_sec = default_reneg_sec, pfs = True\<rparr>,
      sc_oauth = None, sc_logging = LoggingSettings_default, sc_admin = AdminSettings_default,
      sc_audit = AuditSettings_default\<rparr>"

section \<open>Validation\<close>

abbreviation QUOT :: char where "QUOT \<equiv> CHR 0x27"

text \<open>A \<open>for\<close> loop over \<open>iter().enumerate()\<close> that may return early.\<close>

fun for_each :: "(nat \<Rightarrow> 'a \<Rightarrow> ('e, unit) res) \<Rightarrow> nat \<Rightarrow> 'a list \<Rightarrow> ('e, unit) res" where
  "for_each f i [] = Inr ()"
| "for_each f i (x # xs) = and_then (f i x) (\<lambda>_. for_each f (Suc i) xs)"

definition check_label :: "string \<Rightarrow> (ConfigError, unit) res" where
  "check_label l =
     and_then (ensure (l \<noteq> []) (ValidationError ''Hostname labels cannot be empty'')) (\<lambda>_.
     ensure (length l \<le> 63)
       (ValidationError (''Hostname label '' @ [QUOT] @ l @ [QUOT] @ '' exceeds maximum length (63 characters)'')))"

definition validate_hostname_or_ip :: "(nat \<Rightarrow> bool) \<Rightarrow> string \<Rightarrow> (ConfigError, unit) res" where
  "validate_hostname_or_ip alnum host =
     (if parse_ip_addr host \<noteq> None then Inr ()
      else
        and_then (ensure (host \<noteq> []) (ValidationError ''Hostname cannot be empty'')) (\<lambda>_.
        and_then (ensure (length host \<le> 253) (ValidationError ''Hostname exceeds maximum length (253 characters)'')) (\<lambda>_.
        and_then (ensure (list_all (\<lambda>c. alnum c \<or> c = code CHR ''-'' \<or> c = code CHR ''.'') (str_chars host))
          (ValidationError ''Hostname contains invalid characters'')) (\<lambda>_.
        and_then (ensure (\<not> (starts_with ''.'' host \<or> ends_with_sub ''.'' host))
          (ValidationError ''Hostname cannot start or end with a dot'')) (\<lambda>_.
        and_then (ensure (\<not> (starts_with ''-'' host \<or> ends_with_sub ''-'' host))
          (ValidationError ''Hostname cannot start or end with a hyphen'')) (\<lambda>_.
        and_then (ensure (\<not> contains_sub ''..'' host)
          (ValidationError ''Hostname cannot contain consecutive dots'')) (\<lambda>_.
        for_each (\<lambda>_. check_label) 0 (split_on CHR ''.'' host))))))))"

definition addr_parse_message :: string where
  "addr_parse_message = ''invalid IP address syntax''"

definition check_dns :: "nat \<Rightarrow> string \<Rightarrow> (ConfigError, unit) res" where
  "check_dns i dns =
     ensure (parse_ip_addr dns \<noteq> None)
       (ValidationError (''invalid DNS server #'' @ string_of_nat (i + 1) @ '' '' @ [QUOT] @ dns @ [QUOT] @ '': '' @ addr_parse_message))"

definition check_search_domain :: "nat \<Rightarrow> string \<Rightarrow> (ConfigError, unit) res" where
  "check_search_domain i d =
     and_then (ensure (d \<noteq> []) (ValidationError (''DNS search domain #'' @ string_of_nat (i + 1) @ '' cannot be empty''))) (\<lambda>_.
     ensure (length d \<le> 253)
       (ValidationError (''DNS search domain #'' @ string_of_nat (i + 1) @ '' exceeds maximum length (253 characters)'')))"

definition check_push_route ::
  "(string \<Rightarrow> string + 'n) \<Rightarrow> (string \<Rightarrow> string + 'm) \<Rightarrow> nat \<Rightarrow> string \<Rightarrow> (ConfigError, unit) res" where
  "check_push_route net4 net6 i route =
     ensure (\<not> (isl (net4 route) \<and> isl (net6 route)))
       (ValidationError (''invalid push route #'' @ string_of_nat (i + 1) @ '' '' @ [QUOT] @ route @ [QUOT] @
          '': must be valid IPv4 or IPv6 network''))"

definition check_oauth :: "OAuthSettings option \<Rightarrow> (ConfigError, unit) res" where
  "check_oauth oauth =
     (case oauth of
        Some cfg \<Rightarrow>
          if oauth_enabled cfg then
            and_then (ensure (oauth_client_id cfg \<noteq> []) (MissingField ''oauth.client_id'')) (\<lambda>_.
            ensure (oauth_client_secret cfg \<noteq> []) (MissingField ''oauth.client_secret''))
          else Inr ()
      | None \<Rightarrow> Inr ())"

definition check_ports :: "ServerConfig \<Rightarrow> (ConfigError, unit) res" where
  "check_ports cfg =
     and_then (ensure (sa_port (listen_addr (sc_server cfg)) \<noteq> 0) (ValidationError ''Server listen port cannot be 0'')) (\<lambda>_.
     and_then (case tcp_listen_addr (sc_server cfg) of
          Some a \<Rightarrow> ensure (sa_port a \<noteq> 0) (ValidationError ''TCP listen port cannot be 0'')
        | None \<Rightarrow> Inr ()) (\<lambda>_.
     ensure (sa_port (admin_listen_addr (sc_admin cfg)) \<noteq> 0) (ValidationError ''Admin API listen port cannot be 0'')))"

definition check_limits :: "ServerConfig \<Rightarrow> (ConfigError, unit) res" where
  "check_limits cfg =
     and_then (ensure (max_clients (sc_server cfg) \<noteq> 0) (ValidationError ''max_clients must be greater than 0'')) (\<lambda>_.
     and_then (ensure (\<not> max_clients (sc_server cfg) > 100000)
       (ValidationError ''max_clients exceeds maximum allowed value (100000)'')) (\<lambda>_.
     and_then (ensure (cert_lifetime_days (sc_security cfg) \<noteq> 0)
       (ValidationError ''cert_lifetime_days must be greater than 0'')) (\<lambda>_.
     and_then (ensure (client_cert_lifetime_days (sc_security cfg) \<noteq> 0)
       (ValidationError ''client_cert_lifetime_days must be greater than 0'')) (\<lambda>_.
     and_then (ensure (\<not> client_cert_lifetime_days (sc_security cfg) > cert_lifetime_days (sc_security cfg))
       (ValidationError ''client_cert_lifetime_days cannot exceed cert_lifetime_days'')) (\<lambda>_.
     and_then (ensure (ss_reneg_sec (sc_security cfg) \<noteq> 0) (ValidationError ''reneg_sec must be greater than 0'')) (\<lambda>_.
     ensure (\<not> (mtu (sc_network cfg) < 68 \<or> mtu (sc_network cfg) > 1500))
       (ValidationError ''MTU must be between 68 and 1500'')))))))"

definition ServerConfig_validate ::
  "(nat \<Rightarrow> bool) \<Rightarrow> (string \<Rightarrow> string + 'n) \<Rightarrow> (string \<Rightarrow> string + 'm) \<Rightarrow> ServerConfig \<Rightarrow> (ConfigError, unit) res" where
  "ServerConfig_validate alnum net4 net6 cfg =
     and_then (ensure (public_host (sc_server cfg) \<noteq> []) (MissingField ''server.public_host'')) (\<lambda>_.
     and_then (validate_hostname_or_ip alnum (public_host (sc_server cfg))) (\<lambda>_.
     and_then (lift_err (\<lambda>e. ValidationError (''invalid subnet: '' @ e)) (net4 (subnet (sc_network cfg)))) (\<lambda>_.
     and_then (case subnet_v6 (sc_network cfg) of
          Some v6 \<Rightarrow> and_then (lift_err (\<lambda>e. ValidationError (''invalid IPv6 subnet: '' @ e)) (net6 v6)) (\<lambda>_. Inr ())
        | None \<Rightarrow> Inr ()) (\<lambda>_.
     and_then (for_each check_dns 0 (ns_dns (sc_network cfg))) (\<lambda>_.
     and_then (for_each check_search_domain 0 (dns_search (sc_network cfg))) (\<lambda>_.
     and_then (for_each (check_push_route net4 net6) 0 (push_routes (sc_network cfg))) (\<lambda>_.
     and_then (check_oauth (sc_oauth cfg)) (\<lambda>_.
     and_then (check_ports cfg) (\<lambda>_.
     check_limits cfg)))))))))"

text \<open>Loading and saving; the TOML reader and printer are arguments.\<close>

definition ServerConfig_load ::
  "(nat \<Rightarrow> bool) \<Rightarrow> (string \<Rightarrow> string + 'n) \<Rightarrow> (string \<Rightarrow> string + 'm) \<Rightarrow>
   (string \<Rightarrow> string + ServerConfig) \<Rightarrow> path \<Rightarrow> fs \<Rightarrow> (ConfigError, ServerConfig) res \<times> fs" where
  "ServerConfig_load alnum net4 net6 toml_from_str p fs =
     io_bind (io_err IoError (fs_read_to_string p fs)) (\<lambda>content fs.
       (and_then (lift_err SerializationError (toml_from_str content)) (\<lambda>cfg.
        and_then (ServerConfig_validate alnum net4 net6 cfg) (\<lambda>_. Inr cfg)), fs))"

definition ServerConfig_save ::
  "(ServerConfig \<Rightarrow> string + string) \<Rightarrow> ServerConfig \<Rightarrow> path \<Rightarrow> fs \<Rightarrow> (ConfigError, unit) res \<times> fs" where
  "ServerConfig_save toml_to_string cfg p fs =
     io_bind (lift_err SerializationError (toml_to_string cfg), fs) (\<lambda>content fs.
       io_err IoError (fs_write p content fs))"

definition ca_cert_path :: "ServerConfig \<Rightarrow> path" where
  "ca_cert_path cfg = path_join (data_dir (sc_server cfg)) ''ca.crt''"

definition ca_key_path :: "ServerConfig \<Rightarrow> path" where
  "ca_key_path cfg = path_join (data_dir (sc_server cfg)) ''ca.key''"

definition server_cert_path :: "ServerConfig \<Rightarrow> path" where
  "server_cert_path cfg = path_join (data_dir (sc_server cfg)) ''server.crt''"

definition server_key_path :: "ServerConfig \<Rightarrow> path" where
  "server_key_path cfg = path_join (data_dir (sc_server cfg)) ''server.key''"

definition ta_key_path :: "ServerConfig \<Rightarrow> path" where
  "ta_key_path cfg = path_join (data_dir (sc_server cfg)) ''ta.key''"

definition dh_path :: "ServerConfig \<Rightarrow> path" where
  "dh_path cfg = path_join (data_dir (sc_server cfg)) ''dh.pem''"

section \<open>Lemmas\<close>

lemma for_each_ok_iff: "for_each f i xs = Inr () \<longleftrightarrow> (\<forall>j < length xs. f (i + j) (xs ! j) = Inr ())"
proof (induction xs arbitrary: i)
  case (Cons x xs)
  have "for_each f i (x # xs) = Inr () \<longleftrightarrow> f i x = Inr () \<and> (\<forall>j < length xs. f (Suc i + j) (xs ! j) = Inr ())"
    by (auto simp: and_then_Inr_iff Cons.IH)
  also have "\<dots> \<longleftrightarrow> (\<forall>j < length (x # xs). f (i + j) ((x # xs) ! j) = Inr ())"
    by (auto simp: nth_Cons less_Suc_eq_0_disj split: nat.splits)
  finally show ?case .
qed simp

lemma for_each_all: "(\<And>i x. f i x = Inr () \<longleftrightarrow> P x) \<Longrightarrow> for_each f i xs = Inr () \<longleftrightarrow> list_all P xs"
  by (induction xs arbitrary: i) (auto simp: and_then_Inr_iff)

lemma for_each_no_panic [no_panic_intros]: "(\<And>i x. no_panic (f i x)) \<Longrightarrow> no_panic (for_each f i xs)"
  by (induction xs arbitrary: i) (auto intro: no_panic_and_then)

text \<open>The three checks on dots say that no label is empty.\<close>

lemma dots_rest: "(\<forall>l\<in>set (tl (split_on c s)). l \<noteq> []) \<longleftrightarrow> \<not> ends_with_sub [c] s \<and> \<not> contains_sub [c, c] s"
proof (induction s)
  case (Cons x s)
  have ends: "ends_with_sub [c] (x # s) \<longleftrightarrow> (if s = [] then x = c else ends_with_sub [c] s)"
    by (cases s rule: rev_cases) (auto simp: ends_with_iff Cons_eq_append_conv)
  have cont: "contains_sub [c, c] (x # s) \<longleftrightarrow> x = c \<and> starts_with [c] s \<or> contains_sub [c, c] s"
    by (cases s) (auto simp: contains_sub_def)
  have empty: "\<not> ends_with_sub [c] []" by (simp add: ends_with_sub_def)
  obtain l ls where ls: "split_on c s = l # ls" by (cases "split_on c s") auto
  have l: "l = [] \<longleftrightarrow> s = [] \<or> starts_with [c] s"
    using ls by (cases s) (auto split: list.splits if_splits)
  show ?case
    unfolding ends cont using Cons.IH l empty by (cases "x = c") (auto simp: ls)
qed (simp add: contains_sub_def ends_with_sub_def)

lemma dots_labels:
  "(\<forall>l\<in>set (split_on c s). l \<noteq> []) \<longleftrightarrow>
     s \<noteq> [] \<and> \<not> starts_with [c] s \<and> \<not> ends_with_sub [c] s \<and> \<not> contains_sub [c, c] s"
proof -
  obtain l ls where ls: "split_on c s = l # ls" by (cases "split_on c s") auto
  have "l = [] \<longleftrightarrow> s = [] \<or> starts_with [c] s"
    using ls by (cases s) (auto split: list.splits if_splits)
  with dots_rest [of c s] show ?thesis by (auto simp: ls)
qed

text \<open>What a host name has to be, independent of the order of the checks.\<close>

definition host_ok :: "(nat \<Rightarrow> bool) \<Rightarrow> string \<Rightarrow> bool" where
  "host_ok alnum h \<longleftrightarrow>
     parse_ip_addr h \<noteq> None \<or>
     length h \<le> 253 \<and> list_all (\<lambda>c. alnum c \<or> c = 45 \<or> c = 46) (str_chars h) \<and>
     \<not> starts_with ''-'' h \<and> \<not> ends_with_sub ''-'' h \<and>
     list_all (\<lambda>l. 1 \<le> length l \<and> length l \<le> 63) (split_on CHR ''.'' h)"

lemma check_label_iff: "check_label l = Inr () \<longleftrightarrow> 1 \<le> length l \<and> length l \<le> 63"
  by (cases l) (auto simp: check_label_def and_then_Inr_iff ensure_Inr_iff)

lemma validate_host_iff: "validate_hostname_or_ip alnum h = Inr () \<longleftrightarrow> host_ok alnum h"
proof -
  have "list_all (\<lambda>l. 1 \<le> length l \<and> length l \<le> 63) (split_on CHR ''.'' h) \<Longrightarrow>
      h \<noteq> [] \<and> \<not> starts_with ''.'' h \<and> \<not> ends_with_sub ''.'' h \<and> \<not> contains_sub ''..'' h"
    using dots_labels [of "CHR ''.''" h] by (force simp: list_all_iff)
  then show ?thesis
    using for_each_all [of "\<lambda>_. check_label", OF check_label_iff, of 0 "split_on CHR ''.'' h"]
    by (auto simp: validate_hostname_or_ip_def host_ok_def and_then_Inr_iff ensure_Inr_iff)
qed

definition config_ok ::
  "(nat \<Rightarrow> bool) \<Rightarrow> (string \<Rightarrow> string + 'n) \<Rightarrow> (string \<Rightarrow> string + 'm) \<Rightarrow> ServerConfig \<Rightarrow> bool" where
  "config_ok alnum net4 net6 cfg \<longleftrightarrow>
     (let s = sc_server cfg; n = sc_network cfg; k = sc_security cfg in
      public_host s \<noteq> [] \<and> host_ok alnum (public_host s) \<and>
      \<not> isl (net4 (subnet n)) \<and> (\<forall>v6. subnet_v6 n = Some v6 \<longrightarrow> \<not> isl (net6 v6)) \<and>
      (\<forall>d\<in>set (ns_dns n). parse_ip_addr d \<noteq> None) \<and>
      (\<forall>d\<in>set (dns_search n). 1 \<le> length d \<and> length d \<le> 253) \<and>
      (\<forall>r\<in>set (push_routes n). \<not> isl (net4 r) \<or> \<not> isl (net6 r)) \<and>
      (\<forall>a. sc_oauth cfg = Some a \<and> oauth_enabled a \<longrightarrow> oauth_client_id a \<noteq> [] \<and> oauth_client_secret a \<noteq> []) \<and>
      sa_port (listen_addr s) \<noteq> 0 \<and> (\<forall>a. tcp_listen_addr s = Some a \<longrightarrow> sa_port a \<noteq> 0) \<and>
      sa_port (admin_listen_addr (sc_admin cfg)) \<noteq> 0 \<and>
      unat (max_clients s) \<in> {1 .. 100000} \<and>
      unat (client_cert_lifetime_days k) \<in> {1 .. unat (cert_lifetime_days k)} \<and>
      ss_reneg_sec k \<noteq> 0 \<and> unat (mtu n) \<in> {68 .. 1500})"

lemma check_limits_iff:
  "check_limits cfg = Inr () \<longleftrightarrow>
     unat (max_clients (sc_server cfg)) \<in> {1 .. 100000} \<and>
     unat (client_cert_lifetime_days (sc_security cfg)) \<in> {1 .. unat (cert_lifetime_days (sc_security cfg))} \<and>
     ss_reneg_sec (sc_security cfg) \<noteq> 0 \<and> unat (mtu (sc_network cfg)) \<in> {68 .. 1500}"
proof -
  have pos: "unat w \<ge> 1 \<longleftrightarrow> w \<noteq> 0" for w :: "'a :: len word"
    by (simp add: Suc_le_eq unat_gt_0)
  have max: "unat (max_clients (sc_server cfg)) \<le> 100000 \<longleftrightarrow> max_clients (sc_server cfg) \<le> 100000"
    by (simp add: word_le_nat_alt)
  have mtu: "unat (mtu (sc_network cfg)) \<in> {68 .. 1500} \<longleftrightarrow> 68 \<le> mtu (sc_network cfg) \<and> mtu (sc_network cfg) \<le> 1500"
    by (simp add: word_le_nat_alt)
  have life: "unat a \<in> {1 .. unat b} \<longleftrightarrow> b \<noteq> 0 \<and> a \<noteq> 0 \<and> a \<le> b" for a b :: u32
    using pos [of a] pos [of b] by (auto simp: word_le_nat_alt)
  show ?thesis
    unfolding mtu life unfolding atLeastAtMost_iff pos max
    by (auto simp: check_limits_def and_then_Inr_iff ensure_Inr_iff not_less)
qed

lemma check_ports_iff:
  "check_ports cfg = Inr () \<longleftrightarrow>
     sa_port (listen_addr (sc_server cfg)) \<noteq> 0 \<and> (\<forall>a. tcp_listen_addr (sc_server cfg) = Some a \<longrightarrow> sa_port a \<noteq> 0) \<and>
     sa_port (admin_listen_addr (sc_admin cfg)) \<noteq> 0"
  by (auto simp: check_ports_def and_then_Inr_iff ensure_Inr_iff split: option.splits)

lemma check_oauth_iff:
  "check_oauth x = Inr () \<longleftrightarrow>
     (\<forall>a. x = Some a \<and> oauth_enabled a \<longrightarrow> oauth_client_id a \<noteq> [] \<and> oauth_client_secret a \<noteq> [])"
  by (auto simp: check_oauth_def and_then_Inr_iff ensure_Inr_iff split: option.splits)

lemma lift_err_ok: "(\<exists>y. lift_err f r = Inr y) \<longleftrightarrow> \<not> isl r"
  by (cases r) (auto simp: lift_err_def)

text \<open>
  The derived default of the event selection differs from the one of its keys: a file without a
  \<open>logging\<close> section logs neither connections nor disconnections, one with an empty
  \<open>connection_events\<close> section logs both.
\<close>

lemma event_defaults_differ:
  "\<not> log_connects (connection_events LoggingSettings_default)"
  "\<not> log_disconnects (connection_events LoggingSettings_default)"
  "log_connects (ConnectionLogEvents_read (\<lambda>_. None))"
  "log_disconnects (ConnectionLogEvents_read (\<lambda>_. None))"
  by (simp_all add: LoggingSettings_default_def ConnectionLogEvents_default_def ConnectionLogEvents_read_def default_true_def)

lemma dns_defaults: "list_all (\<lambda>d. parse_ip_addr d \<noteq> None) default_dns"
  by code_simp

lemma default_config_ok:
  "config_ok alnum net4 net6 (default_config h) \<longleftrightarrow> h \<noteq> [] \<and> host_ok alnum h \<and> \<not> isl (net4 ''10.8.0.0/24'')"
  using dns_defaults
  by (auto simp: config_ok_def default_config_def default_subnet_def AdminSettings_default_def default_admin_addr_def
      default_listen_addr_def default_max_clients_def default_cert_lifetime_def default_client_cert_lifetime_def
      default_reneg_sec_def default_mtu_def list_all_iff)

section \<open>Properties\<close>

text \<open>
  C35. Validation accepts a server configuration exactly when it is well formed: the public host is
  an address or a name whose labels have 1 to 63 bytes, networks, DNS servers and routes can be
  read, ports are not zero, the number of clients, the certificate lifetimes and the MTU are within
  their bounds. It never panics, and the default configuration is accepted for every good host.
\<close>

theorem validate_config_exact:
  "(ServerConfig_validate alnum net4 net6 cfg = Inr () \<longleftrightarrow> config_ok alnum net4 net6 cfg) \<and>
   no_panic (ServerConfig_validate alnum net4 net6 cfg) \<and>
   (ServerConfig_validate alnum net4 net6 (default_config h) = Inr () \<longleftrightarrow>
      h \<noteq> [] \<and> host_ok alnum h \<and> \<not> isl (net4 ''10.8.0.0/24''))"
proof -
  have iff: "ServerConfig_validate alnum net4 net6 c = Inr () \<longleftrightarrow> config_ok alnum net4 net6 c" for c
  proof -
    have dns: "for_each check_dns 0 ds = Inr () \<longleftrightarrow> (\<forall>d\<in>set ds. parse_ip_addr d \<noteq> None)" for ds
      using for_each_all [of check_dns "\<lambda>d. parse_ip_addr d \<noteq> None" 0 ds]
      by (simp add: check_dns_def ensure_Inr_iff list_all_iff)
    have search: "for_each check_search_domain 0 ds = Inr () \<longleftrightarrow> (\<forall>d\<in>set ds. 1 \<le> length d \<and> length d \<le> 253)" for ds
      using for_each_all [of check_search_domain "\<lambda>d. 1 \<le> length d \<and> length d \<le> 253" 0 ds]
      by (simp add: check_search_domain_def ensure_Inr_iff and_then_Inr_iff list_all_iff Suc_le_eq)
    have routes: "for_each (check_push_route net4 net6) 0 rs = Inr () \<longleftrightarrow>
        (\<forall>r\<in>set rs. \<not> isl (net4 r) \<or> \<not> isl (net6 r))" for rs
      using for_each_all [of "check_push_route net4 net6" "\<lambda>r. \<not> isl (net4 r) \<or> \<not> isl (net6 r)" 0 rs]
      by (simp add: check_push_route_def ensure_Inr_iff list_all_iff)
    have v6: "(case x of Some v6 \<Rightarrow> and_then (lift_err f (net6 v6)) (\<lambda>_. Inr ()) | None \<Rightarrow> Inr ()) = Inr () \<longleftrightarrow>
        (\<forall>v6. x = Some v6 \<longrightarrow> \<not> isl (net6 v6))" for x and f :: "string \<Rightarrow> ConfigError"
      using lift_err_ok [of f] by (auto simp: and_then_Inr_iff split: option.split)
    show ?thesis
      unfolding ServerConfig_validate_def and_then_Inr_iff ex_simps lift_err_ok
      by (simp add: config_ok_def Let_def ensure_Inr_iff validate_host_iff dns search routes v6
          check_oauth_iff check_ports_iff check_limits_iff lift_err_ok conj_ac)
  qed
  have "no_panic (ServerConfig_validate alnum net4 net6 cfg)"
    by (auto simp: ServerConfig_validate_def validate_hostname_or_ip_def check_label_def check_dns_def
        check_search_domain_def check_push_route_def check_oauth_def check_ports_def check_limits_def
        split: option.split intro!: no_panic_intros)
  then show ?thesis by (simp add: iff default_config_ok)
qed

end
