(* ===== verification/Config_Client.thy ===== *)
theory Config_Client
  imports Config_Server Certificates
begin

text \<open>
  Client profiles (\<open>corevpn-config/src/client.rs\<close>, \<open>generator.rs\<close>): the checks on the embedded
  certificates and keys, the text of an \<open>.ovpn\<close> file, the generator that issues a certificate and
  builds the profile, and the creation of the server's key files.
\<close>

section \<open>Client configuration\<close>

record ClientConfig =
  cc_name :: string
  cc_remote_host :: string
  cc_remote_port :: u16
  cc_protocol :: string
  cc_ca_cert :: string
  cc_client_cert :: string
  cc_client_key :: string
  cc_tls_auth_key :: "string option"
  cc_tls_crypt_key :: "string option"
  cc_cipher :: string
  cc_auth :: string
  cc_key_direction :: "u8 option"
  cc_reneg_sec :: u32
  cc_extra_options :: "string list"

definition or_find :: "nat option \<Rightarrow> nat option \<Rightarrow> nat option" where
  "or_find a b = (case a of Some i \<Rightarrow> Some i | None \<Rightarrow> b)"

definition validate_pem :: "string \<Rightarrow> string \<Rightarrow> (ConfigError, unit) res" where
  "validate_pem content expected_type =
     (let content = trim content;
          header = ''-----BEGIN '' @ expected_type;
          footer = ''-----END '' @ expected_type @ ''-----'' in
      and_then (ensure (starts_with header content)
        (ValidationError (''Invalid PEM format: missing BEGIN '' @ expected_type @ '' header''))) (\<lambda>_.
      and_then (ensure (ends_with_sub footer content)
        (ValidationError (''Invalid PEM format: missing END '' @ expected_type @ '' footer''))) (\<lambda>_.
      case or_find (find_sub [NL] content) (find_sub [CR] content) of
        Some header_end \<Rightarrow>
          (case rfind_sub footer content of
             Some footer_start \<Rightarrow>
               and_then (ensure (\<not> footer_start \<le> header_end)
                 (ValidationError (''Invalid PEM format: empty or malformed '' @ expected_type @ '' content''))) (\<lambda>_.
               and_then (str_slice content (header_end + 1) footer_start) (\<lambda>body.
               ensure (trim body \<noteq> [])
                 (ValidationError (''Invalid PEM format: empty '' @ expected_type @ '' content''))))
           | None \<Rightarrow> Inr ())
      | None \<Rightarrow> Inr ())))"

text \<open>\<open>is_ok()\<close>: errors become \<open>false\<close>, a panic stays a panic.\<close>

fun result_is_ok :: "('e, 'a) res \<Rightarrow> ('f, bool) res" where
  "result_is_ok (Inr _) = Inr True"
| "result_is_ok (Inl (Err _)) = Inr False"
| "result_is_ok (Inl Panic) = Inl Panic"

text \<open>\<open>||\<close> of two such tests, the second only if needed.\<close>

definition or_else :: "('e, bool) res \<Rightarrow> ('e, bool) res \<Rightarrow> ('e, bool) res" where
  "or_else a b = and_then a (\<lambda>x. if x then Inr True else b)"

definition prefix_message :: "string \<Rightarrow> (ConfigError, 'a) res \<Rightarrow> (ConfigError, 'a) res" where
  "prefix_message p r = map_err (\<lambda>e. ValidationError (p @ ConfigError_fmt e)) r"

definition check_static_key :: "string \<Rightarrow> string option \<Rightarrow> (ConfigError, unit) res" where
  "check_static_key what key =
     (case key of
        Some k \<Rightarrow>
          and_then (ensure (trim k \<noteq> []) (ValidationError (what @ '' key cannot be empty''))) (\<lambda>_.
          ensure (\<not> length (trim k) < 32) (ValidationError (what @ '' key appears to be too short'')))
      | None \<Rightarrow> Inr ())"

definition ClientConfig_validate :: "ClientConfig \<Rightarrow> (ConfigError, unit) res" where
  "ClientConfig_validate c =
     and_then (prefix_message ''CA certificate: '' (validate_pem (cc_ca_cert c) ''CERTIFICATE'')) (\<lambda>_.
     and_then (prefix_message ''Client certificate: '' (validate_pem (cc_client_cert c) ''CERTIFICATE'')) (\<lambda>_.
     and_then (or_else (result_is_ok (validate_pem (cc_client_key c) ''PRIVATE KEY''))
              (or_else (result_is_ok (validate_pem (cc_client_key c) ''RSA PRIVATE KEY''))
                       (result_is_ok (validate_pem (cc_client_key c) ''EC PRIVATE KEY'')))) (\<lambda>key_valid.
     and_then (ensure key_valid (ValidationError
       ''Client key: Invalid PEM format - must be PRIVATE KEY, RSA PRIVATE KEY, or EC PRIVATE KEY'')) (\<lambda>_.
     and_then (check_static_key ''tls-auth'' (cc_tls_auth_key c)) (\<lambda>_.
     check_static_key ''tls-crypt'' (cc_tls_crypt_key c))))))"

definition ovpn_head :: "ClientConfig \<Rightarrow> string list" where
  "ovpn_head c =
     [''# CoreVPN Client Configuration'', ''# Generated automatically - do not edit'', [],
      ''client'', ''dev tun'', ''proto '' @ cc_protocol c,
      ''remote '' @ cc_remote_host c @ '' '' @ string_of_nat (unat (cc_remote_port c)),
      ''resolv-retry infinite'', ''nobind'', ''persist-key'', ''persist-tun'', ''remote-cert-tls server'',
      ''cipher '' @ cc_cipher c, ''auth '' @ cc_auth c, ''verb 3'', [],
      ''# Security settings'', ''tls-client'', ''tls-version-min 1.3'']"

definition inline_block :: "string \<Rightarrow> string \<Rightarrow> string list" where
  "inline_block tag content = [''<'' @ tag @ ''>'', trim content, ''</'' @ tag @ ''>'']"

definition ovpn_tls_key :: "ClientConfig \<Rightarrow> string list" where
  "ovpn_tls_key c =
     (case cc_tls_crypt_key c of
        Some key \<Rightarrow> inline_block ''tls-crypt'' key
      | None \<Rightarrow>
          (case cc_tls_auth_key c of
             Some key \<Rightarrow>
               (case cc_key_direction c of Some dir \<Rightarrow> [''key-direction '' @ string_of_nat (unat dir)] | None \<Rightarrow> []) @
               inline_block ''tls-auth'' key
           | None \<Rightarrow> []))"

definition ovpn_lines :: "ClientConfig \<Rightarrow> string list" where
  "ovpn_lines c =
     ovpn_head c @
     (if cc_reneg_sec c > 0 then [''reneg-sec '' @ string_of_nat (unat (cc_reneg_sec c))] else []) @ [[]] @
     cc_extra_options c @ [[]] @
     inline_block ''ca'' (cc_ca_cert c) @ [[]] @
     inline_block ''cert'' (cc_client_cert c) @ [[]] @
     inline_block ''key'' (cc_client_key c) @ [[]] @
     ovpn_tls_key c"

text \<open>A configuration that is not valid panics (\<open>expect\<close>).\<close>

definition to_ovpn :: "ClientConfig \<Rightarrow> ('e, string) res" where
  "to_ovpn c =
     (case ClientConfig_validate c of Inr _ \<Rightarrow> Inr (join [NL] (ovpn_lines c)) | Inl _ \<Rightarrow> Inl Panic)"

definition to_ovpn_mobile :: "ClientConfig \<Rightarrow> ('e, string) res" where
  "to_ovpn_mobile c =
     to_ovpn (c\<lparr>cc_extra_options := cc_extra_options c @
       [''# Mobile optimizations'', ''connect-retry 2'', ''connect-retry-max 5'', ''auth-retry interact'']\<rparr>)"

text \<open>The builder has the fields of the configuration; \<open>build\<close> copies them.\<close>

type_synonym ClientConfigBuilder = ClientConfig

definition ClientConfigBuilder_new :: "string \<Rightarrow> string \<Rightarrow> ClientConfigBuilder" where
  "ClientConfigBuilder_new name host =
     \<lparr>cc_name = name, cc_remote_host = host, cc_remote_port = 1194, cc_protocol = ''udp'', cc_ca_cert = [],
      cc_client_cert = [], cc_client_key = [], cc_tls_auth_key = None, cc_tls_crypt_key = None,
      cc_cipher = ''AES-256-GCM'', cc_auth = ''SHA256'', cc_key_direction = Some 1, cc_reneg_sec = 0,
      cc_extra_options = []\<rparr>"

definition bld_port :: "u16 \<Rightarrow> ClientConfigBuilder \<Rightarrow> ClientConfigBuilder" where
  "bld_port p b = b\<lparr>cc_remote_port := p\<rparr>"

definition bld_protocol :: "string \<Rightarrow> ClientConfigBuilder \<Rightarrow> ClientConfigBuilder" where
  "bld_protocol p b = b\<lparr>cc_protocol := p\<rparr>"

definition bld_ca_cert :: "string \<Rightarrow> ClientConfigBuilder \<Rightarrow> ClientConfigBuilder" where
  "bld_ca_cert p b = b\<lparr>cc_ca_cert := p\<rparr>"

definition bld_client_cert :: "string \<Rightarrow> ClientConfigBuilder \<Rightarrow> ClientConfigBuilder" where
  "bld_client_cert p b = b\<lparr>cc_client_cert := p\<rparr>"

definition bld_client_key :: "string \<Rightarrow> ClientConfigBuilder \<Rightarrow> ClientConfigBuilder" where
  "bld_client_key p b = b\<lparr>cc_client_key := p\<rparr>"

definition bld_tls_auth :: "string \<Rightarrow> u8 \<Rightarrow> ClientConfigBuilder \<Rightarrow> ClientConfigBuilder" where
  "bld_tls_auth k d b = b\<lparr>cc_tls_auth_key := Some k, cc_key_direction := Some d\<rparr>"

definition bld_tls_crypt :: "string \<Rightarrow> ClientConfigBuilder \<Rightarrow> ClientConfigBuilder" where
  "bld_tls_crypt k b = b\<lparr>cc_tls_crypt_key := Some k, cc_tls_auth_key := None\<rparr>"

definition bld_cipher :: "string \<Rightarrow> ClientConfigBuilder \<Rightarrow> ClientConfigBuilder" where
  "bld_cipher c b = b\<lparr>cc_cipher := c\<rparr>"

definition bld_extra_option :: "string \<Rightarrow> ClientConfigBuilder \<Rightarrow> ClientConfigBuilder" where
  "bld_extra_option opt b = b\<lparr>cc_extra_options := cc_extra_options b @ [opt]\<rparr>"

definition bld_reneg_sec :: "u32 \<Rightarrow> ClientConfigBuilder \<Rightarrow> ClientConfigBuilder" where
  "bld_reneg_sec s b = b\<lparr>cc_reneg_sec := s\<rparr>"

definition bld_build :: "ClientConfigBuilder \<Rightarrow> ClientConfig" where
  "bld_build b = b"

section \<open>The generator\<close>

record ('k, 'c) ConfigGenerator =
  cg_server_config :: ServerConfig
  cg_ca :: "('k, 'c) CertificateAuthority"
  cg_ca_cert_pem :: string
  cg_ta_key :: "string option"

record GeneratedConfig =
  gc_username :: string
  ovpn_content :: string
  gc_certificate :: Certificate

definition ConfigGenerator_new ::
  "ServerConfig \<Rightarrow> ('k, 'c) CertificateAuthority \<Rightarrow> string option \<Rightarrow> ('k, 'c) ConfigGenerator" where
  "ConfigGenerator_new cfg ca ta =
     \<lparr>cg_server_config = cfg, cg_ca = ca, cg_ca_cert_pem = certificate_pem ca, cg_ta_key = ta\<rparr>"

definition map_cipher :: "(string \<Rightarrow> string) \<Rightarrow> string \<Rightarrow> string" where
  "map_cipher lower c =
     (if lower c = ''chacha20-poly1305'' then ''CHACHA20-POLY1305''
      else if lower c = ''aes-256-gcm'' then ''AES-256-GCM''
      else ''AES-256-GCM'')"

text \<open>The builder calls that both kinds of profile share.\<close>

definition base_builder ::
  "(string \<Rightarrow> string) \<Rightarrow> ('k, 'c) ConfigGenerator \<Rightarrow> string \<Rightarrow> Certificate \<Rightarrow> ClientConfigBuilder" where
  "base_builder lower g username cert =
     (let cfg = cg_server_config g in
      bld_reneg_sec (ss_reneg_sec (sc_security cfg))
        (bld_cipher (map_cipher lower (ss_cipher (sc_security cfg)))
        (bld_client_key (key_pem cert)
        (bld_client_cert (cert_pem cert)
        (bld_ca_cert (cg_ca_cert_pem g)
        (bld_protocol (ss_protocol (sc_server cfg))
        (bld_port (sa_port (listen_addr (sc_server cfg)))
        (ClientConfigBuilder_new username (public_host (sc_server cfg))))))))))"

definition add_ta_key :: "('k, 'c) ConfigGenerator \<Rightarrow> ClientConfigBuilder \<Rightarrow> ClientConfigBuilder" where
  "add_ta_key g b = (case cg_ta_key g of Some k \<Rightarrow> bld_tls_auth k 1 b | None \<Rightarrow> b)"

definition CryptoError_text :: "(CryptoError \<Rightarrow> string) \<Rightarrow> (CryptoError, 'a) res \<Rightarrow> (ConfigError, 'a) res" where
  "CryptoError_text show r = map_err (\<lambda>e. ValidationError (show e)) r"

text \<open>\<open>show\<close> prints a \<open>CryptoError\<close>, \<open>lower\<close> is \<open>to_lowercase\<close>.\<close>

definition generate_client_config ::
  "('k, 'c, 'ip) pki \<Rightarrow> (CryptoError \<Rightarrow> string) \<Rightarrow> (string \<Rightarrow> string) \<Rightarrow> string + 'k \<Rightarrow> instant \<Rightarrow>
   ('k, 'c) ConfigGenerator \<Rightarrow> string \<Rightarrow> string option \<Rightarrow> (ConfigError, GeneratedConfig) res" where
  "generate_client_config P show lower gen now g username email =
     and_then (CryptoError_text show (issue_client_certificate P gen now (cg_ca g) username email
       (client_cert_lifetime_days (sc_security (cg_server_config g))))) (\<lambda>cert.
     let config = bld_build (bld_extra_option ''compress stub-v2'' (add_ta_key g (base_builder lower g username cert))) in
     and_then (prefix_message ''Invalid client config: '' (ClientConfig_validate config)) (\<lambda>_.
     and_then (to_ovpn config) (\<lambda>content.
     Inr \<lparr>gc_username = username, ovpn_content = content, gc_certificate = cert\<rparr>)))"

definition generate_mobile_config ::
  "('k, 'c, 'ip) pki \<Rightarrow> (CryptoError \<Rightarrow> string) \<Rightarrow> (string \<Rightarrow> string) \<Rightarrow> string + 'k \<Rightarrow> instant \<Rightarrow>
   ('k, 'c) ConfigGenerator \<Rightarrow> string \<Rightarrow> string option \<Rightarrow> (ConfigError, GeneratedConfig) res" where
  "generate_mobile_config P show lower gen now g username email =
     and_then (generate_client_config P show lower gen now g username email) (\<lambda>generated.
     let b = base_builder lower g username (gc_certificate generated);
         b = bld_extra_option ''compress stub-v2'' (bld_extra_option ''auth-retry interact''
               (bld_extra_option ''connect-retry-max 5'' (bld_extra_option ''connect-retry 2'' b)));
         config = bld_build (add_ta_key g b) in
     and_then (prefix_message ''Invalid mobile config: '' (ClientConfig_validate config)) (\<lambda>_.
     and_then (to_ovpn config) (\<lambda>content.
     Inr (generated\<lparr>ovpn_content := content\<rparr>))))"

definition gc_filename :: "GeneratedConfig \<Rightarrow> string" where
  "gc_filename g = replace_chars [CHR ''@'', CHR ''.'', CHR '' ''] ''_'' (gc_username g) @ ''.ovpn''"

definition gc_save :: "GeneratedConfig \<Rightarrow> path \<Rightarrow> fs \<Rightarrow> (ConfigError, path) res \<times> fs" where
  "gc_save g dir fs =
     (let filename = gc_filename g in
      io_bind (io_check (\<not> (contains_sub ''/'' filename \<or> contains_sub ''..'' filename))
        (ValidationError ''Invalid filename: contains path separators or parent directory references'') fs) (\<lambda>_ fs.
      io_bind (if fs_exists fs dir then (Inr (), fs) else io_err IoError (fs_create_dir_all dir fs)) (\<lambda>_ fs.
      io_bind (io_check (fs_is_dir fs dir) (ValidationError ''Target path is not a directory'') fs) (\<lambda>_ fs.
      io_bind (io_err IoError (fs_canonicalize dir fs)) (\<lambda>canonical_dir fs.
      let path = path_join canonical_dir filename in
      io_bind (case path_parent path of
           Some parent \<Rightarrow>
             io_bind (io_err IoError (fs_canonicalize parent fs)) (\<lambda>canonical_parent.
             io_check (path_starts_with canonical_parent canonical_dir)
               (ValidationError ''Path traversal detected: final path outside target directory''))
         | None \<Rightarrow> (Inl (Err (ValidationError ''Invalid path: no parent directory'')), fs)) (\<lambda>_ fs.
      io_bind (io_check (path = path_join canonical_dir filename)
        (ValidationError ''Path traversal detected: invalid path construction'') fs) (\<lambda>_ fs.
      io_bind (io_err IoError (fs_write path (ovpn_content g) fs)) (\<lambda>_ fs.
      (Inr path, fs)))))))))"

definition initialize_pki ::
  "('k, 'c, 'ip) pki \<Rightarrow> (CryptoError \<Rightarrow> string) \<Rightarrow> string + 'k \<Rightarrow> string + 'k \<Rightarrow> bytes \<Rightarrow> instant \<Rightarrow>
   path \<Rightarrow> string \<Rightarrow> string \<Rightarrow> fs \<Rightarrow> (ConfigError, ('k, 'c) CertificateAuthority \<times> string) res \<times> fs" where
  "initialize_pki P show ca_gen server_gen ta_key_bytes now dir server_cn organization fs =
     io_bind (io_err IoError (fs_create_dir_all dir fs)) (\<lambda>_ fs.
     io_bind (CryptoError_text show (CertificateAuthority_new P ca_gen now (organization @ '' CA'') organization 3650), fs) (\<lambda>ca fs.
     io_bind (io_err IoError (fs_write (path_join dir ''ca.crt'') (certificate_pem ca) fs)) (\<lambda>_ fs.
     io_bind (io_err IoError (fs_write (path_join dir ''ca.key'') (private_key_pem P ca) fs)) (\<lambda>_ fs.
     io_bind (CryptoError_text show (issue_server_certificate P server_gen now ca server_cn [server_cn] [] 365), fs) (\<lambda>server_cert fs.
     io_bind (io_err IoError (fs_write (path_join dir ''server.crt'') (cert_pem server_cert) fs)) (\<lambda>_ fs.
     io_bind (io_err IoError (fs_write (path_join dir ''server.key'') (key_pem server_cert) fs)) (\<lambda>_ fs.
     let ta_key = format_static_key ta_key_bytes in
     io_bind (io_err IoError (fs_write (path_join dir ''ta.key'') ta_key fs)) (\<lambda>_ fs.
     (Inr (ca, ta_key), fs)))))))))"

section \<open>Saving a profile\<close>

text \<open>
  The steps before the write change no file, and what is written is the profile, in the resolved
  directory, under a name without slashes.
\<close>

definition saved :: "GeneratedConfig \<Rightarrow> path \<Rightarrow> fs \<Rightarrow> (ConfigError, path) res \<times> fs \<Rightarrow> bool" where
  "saved g dir fs out \<longleftrightarrow>
     (case fst out of
        Inr p \<Rightarrow> (\<exists>d. fs_canon fs dir = Some d \<and> p = path_join d (gc_filename g)) \<and>
                 CHR ''/'' \<notin> set (gc_filename g) \<and> fs_files (snd out) = (fs_files fs)(p \<mapsto> ovpn_content g)
      | Inl _ \<Rightarrow> fs_files (snd out) = fs_files fs)"

lemma saved_bind:
  assumes "fs_files (snd m) = fs_files fs" and "\<And>x. fst m = Inr x \<Longrightarrow> saved g dir fs (f x (snd m))"
  shows "saved g dir fs (io_bind m f)"
  using assms by (cases "fst m") (auto simp: io_bind_def saved_def)

lemma io_err_simps [simp]: "snd (io_err f m) = snd m" "fst (io_err f m) = Inr x \<longleftrightarrow> fst m = Inr x"
  by (simp_all add: io_err_def lift_err_Inr_iff)

lemma io_check_simps [simp]: "snd (io_check b e s) = s" "fst (io_check b e s) = Inr u \<longleftrightarrow> b"
  by (simp_all add: io_check_def ensure_Inr_iff)

lemma saved_write:
  assumes "fs_files s = fs_files fs" and "fs_canon fs dir = Some d" and "p = path_join d (gc_filename g)"
    and "CHR ''/'' \<notin> set (gc_filename g)"
  shows "saved g dir fs (io_bind (io_err IoError (fs_write p (ovpn_content g) s)) (\<lambda>_ fs. (Inr p, fs)))"
  using assms fs_write_files [of p "ovpn_content g" s]
  by (cases "fst (fs_write p (ovpn_content g) s)") (auto simp: io_bind_def io_err_def lift_err_def saved_def)

lemma gc_save_saved: "saved g dir fs (gc_save g dir fs)"
proof -
  have name: "CHR ''/'' \<notin> set (gc_filename g)" if "\<not> (contains_sub ''/'' (gc_filename g) \<or> b)" for b
    using that split_list [of "CHR ''/''" "gc_filename g"] by (auto simp: contains_sub_iff)
  have parent: "fs_files (snd (case path_parent p of
        Some q \<Rightarrow> io_bind (io_err IoError (fs_canonicalize q s)) (\<lambda>c. io_check (path_starts_with c d) e)
      | None \<Rightarrow> (Inl e', s))) = fs_files s" for p s d and e :: ConfigError and e'
    by (auto simp: io_bind_def split: option.split sum.split)
  show ?thesis
    unfolding gc_save_def Let_def
    apply (rule saved_bind, simp)
    apply (rule saved_bind, simp)
    apply (rule saved_bind, simp)
    apply (rule saved_bind, simp)
    apply (rule saved_bind, simp add: parent)
    apply (rule saved_bind, simp add: parent)
    subgoal premises prems for u1 u2 u3 d u5 u6
    proof (rule saved_write [where d = d])
      show "CHR ''/'' \<notin> set (gc_filename g)" using prems(1) unfolding io_check_simps by (rule name)
      show "fs_canon fs dir = Some d"
        using prems(4) by (auto dest!: fs_canonicalize_value split: if_splits)
    qed (simp_all add: parent)
    done
qed


definition sample_fs :: fs where
  "sample_fs =
     \<lparr>fs_files = Map.empty, fs_dirs = (\<lambda>p. p = ''/out''), fs_canon = (\<lambda>p. if p = ''/out'' then Some ''/out'' else None),
      fs_fault = (\<lambda>_. None), fs_ops = 0\<rparr>"

definition sample_generated :: "string \<Rightarrow> GeneratedConfig" where
  "sample_generated user =
     \<lparr>gc_username = user, ovpn_content = ''client'', gc_certificate = \<lparr>cert_pem = [], key_pem = [], ca_pem = []\<rparr>\<rparr>"


end
