(* ===== verification/Ovpn_Profile.thy ===== *)
theory Ovpn_Profile
  imports Config_Client
begin

text \<open>
  The reader of \<open>.ovpn\<close> files of the command line client (\<open>corevpn-cli/src/ovpn.rs\<close>), and what
  it makes of the profiles that the server's generator writes. An \<open>anyhow\<close> error is its message.
\<close>

record OvpnConfig =
  ov_remote :: SocketAddr
  ov_protocol :: string
  ov_cipher :: string
  ov_data_ciphers :: "string list"
  ov_auth :: string
  ov_verb :: u8
  ov_ca_pem :: string
  ov_cert_pem :: string
  ov_key_pem :: string
  ov_tls_auth_key :: "bytes option"
  ov_key_direction :: "u8 option"
  ov_remote_cert_tls :: bool
  ov_dev :: string

definition extract_inline_block :: "string \<Rightarrow> string \<Rightarrow> ('e, string option) res" where
  "extract_inline_block content tag =
     (let start_tag = ''<'' @ tag @ ''>''; end_tag = ''</'' @ tag @ ''>'' in
      case (find_sub start_tag content, find_sub end_tag content) of
        (Some start_idx, Some end_idx) \<Rightarrow>
          if start_idx \<ge> end_idx then Inr None
          else and_then (str_slice content (start_idx + length start_tag) end_idx) (\<lambda>block. Inr (Some (trim block)))
      | _ \<Rightarrow> Inr None)"

function hex_decode_from :: "string \<Rightarrow> nat \<Rightarrow> bytes \<Rightarrow> (string, bytes) res" where
  "hex_decode_from hex i out =
     (if length hex \<le> i then Inr out
      else and_then (str_slice hex i (i + 2)) (\<lambda>h.
        case parse_hex_u8 h of
          Some b \<Rightarrow> hex_decode_from hex (i + 2) (out @ [b])
        | None \<Rightarrow> Inl (Err (''Invalid hex at position '' @ string_of_nat i))))"
  by pat_completeness auto

termination hex_decode_from
  by (relation "measure (\<lambda>(hex, i, _). length hex - i)") auto

declare hex_decode_from.simps [simp del]

definition hex_decode :: "string \<Rightarrow> (string, bytes) res" where
  "hex_decode hex =
     (if length hex mod 2 \<noteq> 0 then Inl (Err ''Hex string has odd length'') else hex_decode_from hex 0 [])"

definition skips_key_line :: "string \<Rightarrow> bool" where
  "skips_key_line line \<longleftrightarrow>
     line = [] \<or> starts_with ''#'' line \<or> starts_with ''-'' line \<or> contains_sub ''OpenVPN Static key'' line"

definition ovpn_static_key :: "string \<Rightarrow> (string, bytes) res" where
  "ovpn_static_key pem_block =
     (let hex_data = concat (filter (\<lambda>l. \<not> skips_key_line l) (map trim (str_lines pem_block))) in
      and_then (map_err (\<lambda>_. ''Failed to decode tls-auth key hex data'') (hex_decode hex_data)) (\<lambda>key.
      if length key \<noteq> 256 then
        Inl (Err (''tls-auth key has wrong length: expected 256 bytes, got '' @ string_of_nat (length key)))
      else Inr key))"

text \<open>The variables of the loop over the lines.\<close>

record directives =
  d_remote_host :: string
  d_remote_port :: u16
  d_protocol :: string
  d_cipher :: string
  d_data_ciphers :: "string list"
  d_auth :: string
  d_verb :: u8
  d_remote_cert_tls :: bool
  d_key_direction :: "u8 option"
  d_dev :: string

definition directives_init :: directives where
  "directives_init =
     \<lparr>d_remote_host = [], d_remote_port = 1194, d_protocol = ''udp'', d_cipher = ''AES-256-GCM'', d_data_ciphers = [],
      d_auth = ''SHA256'', d_verb = 3, d_remote_cert_tls = False, d_key_direction = None, d_dev = ''tun''\<rparr>"

text \<open>\<open>parse().unwrap_or(d)\<close> of an unsigned number.\<close>

definition parse_or :: "'a :: len word \<Rightarrow> string \<Rightarrow> 'a word" where
  "parse_or d s = (case parse_unsigned (2 ^ LENGTH('a)) s of Some n \<Rightarrow> of_nat n | None \<Rightarrow> d)"

definition apply_words :: "directives \<Rightarrow> string list \<Rightarrow> directives" where
  "apply_words d ws =
     (case ws of
        [] \<Rightarrow> d
      | w # args \<Rightarrow>
          if w = ''remote'' then
            (let d = (case args of host # _ \<Rightarrow> d\<lparr>d_remote_host := host\<rparr> | [] \<Rightarrow> d) in
             case args of _ # port # _ \<Rightarrow> d\<lparr>d_remote_port := parse_or 1194 port\<rparr> | _ \<Rightarrow> d)
          else if w = ''proto'' then (case args of p # _ \<Rightarrow> d\<lparr>d_protocol := p\<rparr> | [] \<Rightarrow> d)
          else if w = ''cipher'' then (case args of c # _ \<Rightarrow> d\<lparr>d_cipher := c\<rparr> | [] \<Rightarrow> d)
          else if w = ''data-ciphers'' then
            (case args of c # _ \<Rightarrow> d\<lparr>d_data_ciphers := split_on CHR '':'' c\<rparr> | [] \<Rightarrow> d)
          else if w = ''auth'' then (case args of a # _ \<Rightarrow> d\<lparr>d_auth := a\<rparr> | [] \<Rightarrow> d)
          else if w = ''verb'' then (case args of v # _ \<Rightarrow> d\<lparr>d_verb := parse_or 3 v\<rparr> | [] \<Rightarrow> d)
          else if w = ''remote-cert-tls'' then d\<lparr>d_remote_cert_tls := True\<rparr>
          else if w = ''key-direction'' then
            (case args of k # _ \<Rightarrow> d\<lparr>d_key_direction := Some (parse_or 1 k)\<rparr> | [] \<Rightarrow> d)
          else if w = ''dev'' then (case args of x # _ \<Rightarrow> d\<lparr>d_dev := x\<rparr> | [] \<Rightarrow> d)
          else d)"

definition apply_line :: "directives \<Rightarrow> string \<Rightarrow> directives" where
  "apply_line d l =
     (let line = trim l in
      if line = [] \<or> starts_with ''#'' line \<or> starts_with '';'' line then d
      else apply_words d (split_whitespace line))"

definition required_block :: "string \<Rightarrow> string \<Rightarrow> (string, string) res" where
  "required_block content tag =
     and_then (extract_inline_block content tag) (\<lambda>b.
     ok_or b (''Missing <'' @ tag @ ''> block in .ovpn file''))"

definition OvpnConfig_parse :: "string \<Rightarrow> (string, OvpnConfig) res" where
  "OvpnConfig_parse content =
     and_then (required_block content ''ca'') (\<lambda>ca_pem.
     and_then (required_block content ''cert'') (\<lambda>cert_pem.
     and_then (required_block content ''key'') (\<lambda>key_pem.
     and_then (extract_inline_block content ''tls-auth'') (\<lambda>tls_auth_raw.
     and_then (case tls_auth_raw of
          Some raw \<Rightarrow> and_then (ovpn_static_key raw) (\<lambda>k. Inr (Some k))
        | None \<Rightarrow> Inr None) (\<lambda>tls_auth_key.
     let d = foldl apply_line directives_init (str_lines content) in
     if d_remote_host d = [] then Inl (Err (''Missing '' @ [QUOT] @ ''remote'' @ [QUOT] @ '' directive in .ovpn file''))
     else
       (let addr = d_remote_host d @ '':'' @ string_of_nat (unat (d_remote_port d)) in
        and_then (ok_or (parse_socket_addr addr) (''Invalid remote address: '' @ addr)) (\<lambda>remote.
        Inr \<lparr>ov_remote = remote, ov_protocol = d_protocol d, ov_cipher = d_cipher d, ov_data_ciphers = d_data_ciphers d,
             ov_auth = d_auth d, ov_verb = d_verb d, ov_ca_pem = ca_pem, ov_cert_pem = cert_pem, ov_key_pem = key_pem,
             ov_tls_auth_key = tls_auth_key, ov_key_direction = d_key_direction d,
             ov_remote_cert_tls = d_remote_cert_tls d, ov_dev = d_dev d\<rparr>)))))))"

definition OvpnConfig_parse_file :: "path \<Rightarrow> fs \<Rightarrow> (string, OvpnConfig) res \<times> fs" where
  "OvpnConfig_parse_file p fs =
     io_bind (io_err (\<lambda>_. ''Failed to read .ovpn file: '' @ p) (fs_read_to_string p fs)) (\<lambda>content fs.
     (OvpnConfig_parse content, fs))"

section \<open>Reading static keys\<close>

lemma hex_decode_from_reads:
  "\<forall>c\<in>set pre. hex_char c \<Longrightarrow> hex_decode_from (pre @ hex_line bs) (length pre) out = Inr (out @ bs)"
proof (induction bs arbitrary: pre out)
  case Nil
  then show ?case by (simp add: hex_decode_from.simps)
next
  case (Cons b bs)
  let ?h = "hex_pad 2 (unat b)"
  have hex: "\<forall>c\<in>set (pre @ hex_line (b # bs)). hex_char c"
    using Cons.prems(1) by (metis Un_iff hex_char_line set_append)
  have slice: "str_slice (pre @ hex_line (b # bs)) (length pre) (length pre + 2) = (Inr ?h :: (string, string) res)"
    using hex_chars_boundary [OF hex] by (simp add: str_slice_def)
  have "hex_decode_from (pre @ hex_line (b # bs)) (length pre) out =
      hex_decode_from ((pre @ ?h) @ hex_line bs) (length (pre @ ?h)) (out @ [b])"
    using slice by (subst hex_decode_from.simps) (simp add: parse_hex_pad)
  also have "\<dots> = Inr ((out @ [b]) @ bs)"
    using hex by (intro Cons.IH) auto
  finally show ?case by simp
qed

lemma hex_decode_line: "hex_decode (hex_line bs) = Inr bs"
  using hex_decode_from_reads [of "[]" bs "[]"] by (simp add: hex_decode_def)

lemma concat_hex_lines: "concat (map hex_line cs) = hex_line (concat cs)"
  by (induction cs) (simp_all add: hex_line_def)

lemma skips_hex_line: "bs \<noteq> [] \<Longrightarrow> \<not> skips_key_line (hex_line bs)"
proof -
  assume "bs \<noteq> []"
  moreover have "find_sub ''OpenVPN Static key'' (hex_line bs) = None"
    using hex_line_shape by (intro find_sub_None) blast
  ultimately show ?thesis using hex_line_kept [of bs] by (simp add: skips_key_line_def contains_sub_def)
qed

lemma key_text:
  fixes key :: bytes
  defines "ls \<equiv> key_header @ map hex_line (chunks_of 16 (length key) key) @ key_footer"
  shows "trim (format_static_key key) = join [NL] ls" and "solid_ends (join [NL] ls)"
    and "str_lines (join [NL] ls) = ls"
proof -
  let ?ls = "key_header @ map hex_line (chunks_of 16 (length key) key) @ key_footer"
  have "join [NL] ls @ [NL] = concat (map (\<lambda>l. l @ [NL]) ls)" if "ls \<noteq> []" for ls
    using that by (induction "[NL]" ls rule: join.induct) auto
  then have fmt: "format_static_key key = join [NL] ?ls @ [NL]"
    unfolding format_static_key_lines by (simp add: key_header_def)
  have front: "join [NL] ?ls = CHR ''#'' # join [NL] ([] # tl ?ls)"
    by (simp add: key_header_def)
  have rear: "join [NL] ?ls = join [NL] (butlast ?ls) @ [NL] @ last ?ls"
    using join_append [of "butlast ?ls" "[last ?ls]" "[NL]"] by (simp add: key_header_def key_footer_def butlast_append)
  have ends: "solid_ends (join [NL] ?ls)"
    unfolding solid_ends_def
  proof (intro conjI)
    show "join [NL] ?ls \<noteq> []" and "solid (hd (join [NL] ?ls))" by (simp_all add: front solid_def)
    show "solid (last (join [NL] ?ls))" unfolding rear by (simp add: key_footer_def solid_def)
  qed
  show "trim (format_static_key key) = join [NL] ls"
    unfolding ls_def fmt using ends by (rule solid_ends_trim)
  show "solid_ends (join [NL] ls)" using ends by (simp add: ls_def)
  have "NL \<notin> set (hex_line bs) \<and> CR \<notin> set (hex_line bs)" for bs
    using hex_line_shape by blast
  then show "str_lines (join [NL] ls) = ls"
    unfolding ls_def using header_plain str_lines_join [of ?ls] by (auto simp: key_header_def key_footer_def)
qed

lemma ovpn_static_key_reads:
  assumes "length key = 256"
  shows "ovpn_static_key (trim (format_static_key key)) = Inr key"
proof -
  have head: "filter (\<lambda>l. \<not> skips_key_line l) (map trim key_header) = []"
    "filter (\<lambda>l. \<not> skips_key_line l) (map trim key_footer) = []"
    by code_simp+
  let ?cs = "chunks_of 16 (length key) key"
  have kept: "filter (\<lambda>l. \<not> skips_key_line l) (map trim (map hex_line cs)) = map hex_line cs" if "[] \<notin> set cs" for cs
    using that skips_hex_line by (induction cs) auto
  have "str_lines (trim (format_static_key key)) = key_header @ map hex_line ?cs @ key_footer"
    unfolding key_text(1) by (rule key_text(3))
  then have "concat (filter (\<lambda>l. \<not> skips_key_line l) (map trim (str_lines (trim (format_static_key key))))) =
      concat (map hex_line ?cs)"
    using kept [OF chunks_of_nonempty [of 16 "length key" key]] head
    by (simp only: map_append filter_append) simp
  also have "\<dots> = hex_line key"
    unfolding concat_hex_lines by (simp add: concat_chunks_of)
  finally show ?thesis
    using assms by (simp add: ovpn_static_key_def hex_decode_line)
qed

section \<open>Lines of a profile\<close>

definition directive_names :: "string list" where
  "directive_names =
     [''remote'', ''proto'', ''cipher'', ''data-ciphers'', ''auth'', ''verb'', ''remote-cert-tls'', ''key-direction'', ''dev'']"

text \<open>A line that sets nothing: empty, a comment, or with another first word.\<close>

definition neutral_line :: "string \<Rightarrow> bool" where
  "neutral_line l \<longleftrightarrow>
     (let t = trim l in
      t = [] \<or> starts_with ''#'' t \<or> starts_with '';'' t \<or>
      (case split_whitespace t of w # _ \<Rightarrow> w \<notin> set directive_names | [] \<Rightarrow> True))"

definition neutral :: "string \<Rightarrow> bool" where
  "neutral s \<longleftrightarrow> list_all neutral_line (split_on NL s)"

definition apply_item :: "directives \<Rightarrow> string \<Rightarrow> directives" where
  "apply_item d s = foldl apply_line d (split_on NL s)"

lemma apply_words_other: "w \<notin> set directive_names \<Longrightarrow> apply_words d (w # args) = d"
  by (simp add: apply_words_def directive_names_def)

lemma apply_neutral_line: "neutral_line l \<Longrightarrow> apply_line d l = d"
proof (cases "split_whitespace (trim l)")
  case Nil
  then show ?thesis by (simp add: apply_line_def apply_words_def Let_def)
next
  case (Cons w args)
  moreover assume "neutral_line l"
  ultimately show ?thesis by (auto simp: neutral_line_def apply_line_def Let_def apply_words_other)
qed

lemma apply_neutral [simp]: "neutral s \<Longrightarrow> apply_item d s = d"
proof -
  have "list_all neutral_line ls \<Longrightarrow> foldl apply_line d ls = d" for ls
    by (induction ls) (auto simp: apply_neutral_line)
  then show "neutral s \<Longrightarrow> apply_item d s = d" by (simp add: neutral_def apply_item_def)
qed

lemma apply_neutrals: "list_all neutral ls \<Longrightarrow> foldl apply_item d ls = d"
  by (induction ls) auto

lemma apply_empty_line [simp]: "apply_line d [] = d"
  by (simp add: apply_line_def trim_def trim_start_word)

lemma fold_lines:
  assumes "ls \<noteq> []" and "CR \<notin> set (join [NL] ls)"
  shows "foldl apply_line d (str_lines (join [NL] ls)) = foldl apply_item d ls"
proof -
  let ?parts = "split_on NL (join [NL] ls)"
  have "CR \<notin> set l" if "l \<in> set ?parts" for l
    using split_on_subset [OF that] assms(2) by blast
  then have "strip_cr l = l" if "l \<in> set ?parts" for l
    using that by (auto simp: strip_cr_def dest: last_in_set)
  then have cr: "map strip_cr (butlast ?parts) = butlast ?parts"
    by (intro map_idI) (simp add: in_set_butlastD)
  have "foldl apply_line d (str_lines (join [NL] ls)) = foldl apply_line d (butlast ?parts @ [last ?parts])"
    by (simp add: str_lines_def Let_def cr del: append_butlast_last_id)
  also have "\<dots> = foldl apply_line d ?parts"
    by (subst append_butlast_last_id) simp_all
  also have "\<dots> = foldl apply_item d ls"
    unfolding split_on_lines [OF assms(1)]
    by (induction ls arbitrary: d) (simp_all add: apply_item_def)
  finally show ?thesis .
qed

lemma no_ws_no_NL: "no_ws w \<Longrightarrow> NL \<notin> set w \<and> CR \<notin> set w"
  by (induction w) (auto simp: ws_len.simps(2))

lemma apply_sentence:
  assumes "words (w # ws)" and "\<not> starts_with ''#'' w" and "\<not> starts_with '';'' w"
  shows "apply_item d (join '' '' (w # ws)) = apply_words d (w # ws)"
proof -
  let ?s = "join '' '' (w # ws)"
  have "NL \<notin> set ?s"
  proof
    assume "NL \<in> set ?s"
    with set_join have "NL \<in> set '' '' \<union> \<Union> (set (map set (w # ws)))" by (rule subsetD)
    then obtain x where x: "x \<in> set (w # ws)" "NL \<in> set x" by auto
    then have "no_ws x" using assms(1) unfolding words_def by blast
    with x no_ws_no_NL show False by blast
  qed
  then have "split_on NL ?s = [?s]" by (rule split_on_none)
  moreover have "\<not> starts_with ''#'' ?s" "\<not> starts_with '';'' ?s"
    using assms by (cases w; cases ws; auto simp: words_def)+
  ultimately show ?thesis
    using trim_sentence [OF assms(1)] split_sentence [OF assms(1)] join_nonempty [OF assms(1), of "'' ''"]
    by (simp add: apply_item_def apply_line_def del: join.simps)
qed

section \<open>Blocks of a profile\<close>

definition ovpn_text :: "string \<Rightarrow> string \<Rightarrow> string \<Rightarrow> string \<Rightarrow> string \<Rightarrow> string" where
  "ovpn_text p x y z r =
     p @ ''<ca>'' @ [NL] @ x @ [NL] @ ''</ca>'' @ [NL, NL] @ ''<cert>'' @ [NL] @ y @ [NL] @ ''</cert>'' @ [NL, NL] @
     ''<key>'' @ [NL] @ z @ [NL] @ ''</key>'' @ [NL] @ r"

lemma extract_found:
  assumes "find_sub (''<'' @ tag @ ''>'') s = Some (length a)"
    and "find_sub (''</'' @ tag @ ''>'') s = Some (length a + length tag + length t + 4)"
    and "s = a @ (''<'' @ tag @ ''>'') @ (NL # t @ [NL]) @ (''</'' @ tag @ ''>'') @ e" and "solid_ends t"
  shows "extract_inline_block s tag = Inr (Some t)"
proof -
  have "str_slice s (length (a @ ''<'' @ tag @ ''>'')) (length (a @ ''<'' @ tag @ ''>'') + length (NL # t @ [NL])) =
      (Inr (NL # t @ [NL]) :: ('a, string) res)"
    using str_slice_mid [of "NL # t @ [NL]" "(''</'' @ tag @ ''>'') @ e" "a @ ''<'' @ tag @ ''>''"] assms(3) by simp
  then have "str_slice s (length a + length (''<'' @ tag @ ''>'')) (length a + length tag + length t + 4) =
      (Inr (NL # t @ [NL]) :: ('a, string) res)"
    by (simp add: eval_nat_numeral)
  with assms(1,2,4) show ?thesis
    unfolding extract_inline_block_def Let_def by (simp add: solid_ends_trim)
qed

abbreviation no_tag :: "string \<Rightarrow> bool" where
  "no_tag s \<equiv> CHR ''<'' \<notin> set s"

lemma ovpn_text_blocks:
  assumes "no_tag p" "no_tag x" "no_tag y" "no_tag z" and "solid_ends x" "solid_ends y" "solid_ends z"
  shows "extract_inline_block (ovpn_text p x y z r) ''ca'' = Inr (Some x)"
    and "extract_inline_block (ovpn_text p x y z r) ''cert'' = Inr (Some y)"
    and "extract_inline_block (ovpn_text p x y z r) ''key'' = Inr (Some z)"
proof -
  show "extract_inline_block (ovpn_text p x y z r) ''ca'' = Inr (Some x)"
    by (rule extract_found [where a = p]) (use assms in \<open>simp_all add: ovpn_text_def find_sub_skip\<close>)
  show "extract_inline_block (ovpn_text p x y z r) ''cert'' = Inr (Some y)"
    by (rule extract_found [where a = "p @ ''<ca>'' @ [NL] @ x @ [NL] @ ''</ca>'' @ [NL, NL]"])
       (use assms in \<open>simp_all add: ovpn_text_def find_sub_skip\<close>)
  show "extract_inline_block (ovpn_text p x y z r) ''key'' = Inr (Some z)"
    by (rule extract_found [where a = "p @ ''<ca>'' @ [NL] @ x @ [NL] @ ''</ca>'' @ [NL, NL] @ ''<cert>'' @ [NL] @ y @ [NL] @
          ''</cert>'' @ [NL, NL]"])
       (use assms in \<open>simp_all add: ovpn_text_def find_sub_skip\<close>)
qed

section \<open>Generated profiles\<close>

definition word_ok :: "string \<Rightarrow> bool" where
  "word_ok w \<longleftrightarrow> no_ws w \<and> w \<noteq> [] \<and> no_tag w"

text \<open>Text that neither ends a block nor sets a directive.\<close>

definition plain_text :: "string \<Rightarrow> bool" where
  "plain_text s \<longleftrightarrow> no_tag s \<and> CR \<notin> set s \<and> neutral s"

definition profile_plain :: "ClientConfig \<Rightarrow> bool" where
  "profile_plain c \<longleftrightarrow>
     ClientConfig_validate c = Inr () \<and>
     list_all word_ok [cc_remote_host c, cc_protocol c, cc_cipher c, cc_auth c] \<and>
     list_all plain_text (cc_extra_options c) \<and>
     list_all (\<lambda>pem. plain_text (trim pem)) [cc_ca_cert c, cc_client_cert c, cc_client_key c] \<and>
     (case cc_tls_crypt_key c of Some k \<Rightarrow> plain_text (trim k) | None \<Rightarrow> True)"

lemma parse_or_show [simp]: "parse_or d (string_of_nat (unat w)) = w"
proof -
  have "unat w < 2 ^ LENGTH('a)" by (rule unat_bound)
  then show ?thesis by (simp add: parse_or_def parse_unsigned_string_of_nat)
qed

lemma apply_pair:
  assumes "word_ok w" and "word_ok v" and "\<not> starts_with ''#'' w" and "\<not> starts_with '';'' w"
  shows "apply_item d (w @ CHR '' '' # v) = apply_words d [w, v]"
  using apply_sentence [of w "[v]" d] assms by (simp add: words_def word_ok_def)

lemma directive_words:
  "word_ok ''dev''" "word_ok ''tun''" "word_ok ''proto''" "word_ok ''remote''" "word_ok ''remote-cert-tls''"
  "word_ok ''server''" "word_ok ''cipher''" "word_ok ''auth''" "word_ok ''verb''" "word_ok ''3''" "word_ok ''key-direction''"
  by code_simp+

lemma number_word [simp]: "word_ok (string_of_nat n)"
proof -
  have "list_all is_digit (string_of_nat n)" using string_of_nat_digits by simp
  then have "CHR ''<'' \<notin> set (string_of_nat n)" by (auto simp: list_all_iff is_digit_def)
  then show ?thesis by (simp add: word_ok_def)
qed

lemma neutral_head:
  "neutral ''# CoreVPN Client Configuration''" "neutral ''# Generated automatically - do not edit''" "neutral []"
  "neutral ''client''" "neutral ''resolv-retry infinite''" "neutral ''nobind''" "neutral ''persist-key''"
  "neutral ''persist-tun''" "neutral ''# Security settings''" "neutral ''tls-client''" "neutral ''tls-version-min 1.3''"
  by code_simp+

lemma neutral_tags:
  "neutral ''<ca>''" "neutral ''</ca>''" "neutral ''<cert>''" "neutral ''</cert>''" "neutral ''<key>''" "neutral ''</key>''"
  "neutral ''<tls-auth>''" "neutral ''</tls-auth>''" "neutral ''<tls-crypt>''" "neutral ''</tls-crypt>''"
  by code_simp+

lemma neutral_reneg: "neutral (''reneg-sec '' @ string_of_nat n)"
proof -
  let ?ws = "[''reneg-sec'', string_of_nat n]"
  have w: "words ?ws" using number_word [of n] by (simp add: words_def word_ok_def) code_simp
  have "NL \<notin> set (string_of_nat n)" using no_ws_no_NL by simp
  then have "split_on NL (join '' '' ?ws) = [join '' '' ?ws]" by (intro split_on_none) simp
  then show ?thesis
    using trim_sentence [OF w] split_sentence [OF w]
    by (simp add: neutral_def neutral_line_def directive_names_def)
qed

definition head_directives :: "ClientConfig \<Rightarrow> directives" where
  "head_directives c =
     \<lparr>d_remote_host = cc_remote_host c, d_remote_port = cc_remote_port c, d_protocol = cc_protocol c,
      d_cipher = cc_cipher c, d_data_ciphers = [], d_auth = cc_auth c, d_verb = 3, d_remote_cert_tls = True,
      d_key_direction = None, d_dev = ''tun''\<rparr>"

lemma apply_remote:
  assumes "word_ok h"
  shows "apply_item d (''remote '' @ h @ '' '' @ string_of_nat (unat p)) = d\<lparr>d_remote_host := h, d_remote_port := p\<rparr>"
proof -
  have "words [''remote'', h, string_of_nat (unat p)]"
    using assms directive_words(4) number_word [of "unat p"] by (simp add: words_def word_ok_def)
  then show ?thesis
    using apply_sentence [of "''remote''" "[h, string_of_nat (unat p)]" d] by (simp add: apply_words_def)
qed

lemma apply_head:
  assumes "profile_plain c"
  shows "foldl apply_item directives_init (ovpn_head c) = head_directives c"
proof -
  have w: "word_ok (cc_remote_host c)" "word_ok (cc_protocol c)" "word_ok (cc_cipher c)" "word_ok (cc_auth c)"
    using assms by (simp_all add: profile_plain_def)
  have pairs:
    "apply_item d ''dev tun'' = d\<lparr>d_dev := ''tun''\<rparr>"
    "apply_item d (''proto '' @ cc_protocol c) = d\<lparr>d_protocol := cc_protocol c\<rparr>"
    "apply_item d ''remote-cert-tls server'' = d\<lparr>d_remote_cert_tls := True\<rparr>"
    "apply_item d (''cipher '' @ cc_cipher c) = d\<lparr>d_cipher := cc_cipher c\<rparr>"
    "apply_item d (''auth '' @ cc_auth c) = d\<lparr>d_auth := cc_auth c\<rparr>" for d
    using apply_pair [of "''dev''" "''tun''" d] apply_pair [of "''proto''" "cc_protocol c" d]
      apply_pair [of "''remote-cert-tls''" "''server''" d] apply_pair [of "''cipher''" "cc_cipher c" d]
      apply_pair [of "''auth''" "cc_auth c" d] directive_words w
    by (simp_all add: apply_words_def)
  have verb: "apply_item d ''verb 3'' = d\<lparr>d_verb := 3\<rparr>" for d
    using apply_pair [of "''verb''" "''3''" d] directive_words
    by (simp add: apply_words_def parse_or_def parse_unsigned_def is_digit_def digits_value_def)
  show ?thesis
    using apply_remote [OF w(1)]
    by (simp add: ovpn_head_def neutral_head pairs verb head_directives_def directives_init_def del: append_Cons)
qed

lemma no_char_join: "c \<notin> set sep \<Longrightarrow> \<forall>x\<in>set xs. c \<notin> set x \<Longrightarrow> c \<notin> set (join sep xs)"
  using set_join [of sep xs] by auto

lemma hex_line_neutral: "neutral_line (hex_line bs)"
proof (cases "bs = []")
  case True
  then show ?thesis by (simp add: neutral_line_def trim_def trim_start_word)
next
  case False
  have hex: "\<forall>c\<in>set (hex_line bs). hex_char c" using hex_char_line by blast
  have "\<forall>w\<in>set directive_names. \<exists>c\<in>set w. \<not> hex_char c" by code_simp
  with hex have "hex_line bs \<notin> set directive_names" by blast
  moreover have "split_whitespace (hex_line bs) = [hex_line bs]"
    using False hex hex_line_kept [of bs] by (intro split_whitespace_word hex_chars_no_ws) auto
  ultimately show ?thesis by (simp add: neutral_line_def)
qed

lemma static_key_plain: "plain_text (trim (format_static_key key))"
proof -
  let ?ls = "key_header @ map hex_line (chunks_of 16 (length key) key) @ key_footer"
  have chars: "NL \<notin> set (hex_line bs)" "CR \<notin> set (hex_line bs)" "CHR ''<'' \<notin> set (hex_line bs)" for bs
    using hex_char_line [of NL bs] hex_char_line [of CR bs] hex_char_line [of "CHR ''<''" bs] by (auto simp: hex_char_def)
  have head: "\<forall>l\<in>set (key_header @ key_footer). NL \<notin> set l \<and> CR \<notin> set l \<and> CHR ''<'' \<notin> set l \<and> neutral_line l"
    by code_simp
  have "split_on NL (join [NL] ?ls) = ?ls"
    using head chars by (intro split_on_join) (auto simp: key_header_def)
  then have "neutral (join [NL] ?ls)"
    using head by (auto simp: neutral_def list_all_iff hex_line_neutral)
  moreover have "CR \<notin> set (join [NL] ?ls)" and "no_tag (join [NL] ?ls)"
    using head chars by (intro no_char_join; auto)+
  ultimately show ?thesis unfolding key_text(1) by (simp add: plain_text_def)
qed

definition uses_tls_auth :: "ClientConfig \<Rightarrow> bool" where
  "uses_tls_auth c \<longleftrightarrow> cc_tls_crypt_key c = None \<and> cc_tls_auth_key c \<noteq> None"

definition rest_text :: "ClientConfig \<Rightarrow> string" where
  "rest_text c = (if ovpn_tls_key c = [] then [] else NL # join [NL] (ovpn_tls_key c))"

definition front_items :: "ClientConfig \<Rightarrow> string list" where
  "front_items c =
     ovpn_head c @
     (if cc_reneg_sec c > 0 then [''reneg-sec '' @ string_of_nat (unat (cc_reneg_sec c))] else []) @ [[]] @
     cc_extra_options c @ [[]]"

lemma ovpn_lines_text:
  "join [NL] (ovpn_lines c) =
     ovpn_text (join [NL] (front_items c) @ [NL]) (trim (cc_ca_cert c)) (trim (cc_client_cert c))
       (trim (cc_client_key c)) (rest_text c)"
proof -
  let ?B = "inline_block ''ca'' (cc_ca_cert c) @ [[]] @ inline_block ''cert'' (cc_client_cert c) @ [[]] @
     inline_block ''key'' (cc_client_key c) @ [[]]"
  have "ovpn_lines c = front_items c @ (?B @ ovpn_tls_key c)"
    by (simp add: ovpn_lines_def front_items_def)
  moreover have "front_items c \<noteq> []" "?B @ ovpn_tls_key c \<noteq> []" by (simp_all add: front_items_def)
  ultimately have "join [NL] (ovpn_lines c) = join [NL] (front_items c) @ [NL] @ join [NL] (?B @ ovpn_tls_key c)"
    using join_append by metis
  moreover have "join [NL] (?B @ ovpn_tls_key c) = join [NL] ?B @ rest_text c"
    using join_append [of ?B "ovpn_tls_key c" "[NL]"] by (cases "ovpn_tls_key c") (simp_all add: rest_text_def)
  ultimately show ?thesis by (simp add: ovpn_text_def inline_block_def)
qed

lemma word_ok_chars: "word_ok w \<Longrightarrow> NL \<notin> set w \<and> CR \<notin> set w \<and> no_tag w"
  using no_ws_no_NL by (auto simp: word_ok_def)

lemma number_chars: "NL \<notin> set (string_of_nat n)" "CR \<notin> set (string_of_nat n)" "no_tag (string_of_nat n)"
  using word_ok_chars [OF number_word] by auto

lemma front_items_plain:
  assumes "profile_plain c"
  shows "\<forall>l\<in>set (front_items c). CR \<notin> set l \<and> no_tag l"
proof -
  have "\<forall>w\<in>set [cc_remote_host c, cc_protocol c, cc_cipher c, cc_auth c]. CR \<notin> set w \<and> no_tag w"
    using assms word_ok_chars by (auto simp: profile_plain_def)
  moreover have "\<forall>l\<in>set (cc_extra_options c). CR \<notin> set l \<and> no_tag l"
    using assms by (auto simp: profile_plain_def plain_text_def list_all_iff)
  ultimately show ?thesis
    by (auto simp: front_items_def ovpn_head_def number_chars)
qed

text \<open>What the loop over the lines finds in a generated profile.\<close>

lemma front_directives:
  assumes "profile_plain c"
  shows "foldl apply_item directives_init (front_items c) = head_directives c"
proof -
  have "list_all neutral (cc_extra_options c)"
    using assms by (auto simp: profile_plain_def plain_text_def list_all_iff)
  then show ?thesis
    by (simp add: front_items_def apply_head [OF assms] neutral_reneg neutral_head apply_neutrals del: append_Cons)
qed

definition profile_direction :: "ClientConfig \<Rightarrow> u8 option" where
  "profile_direction c = (if uses_tls_auth c then cc_key_direction c else None)"

lemma apply_direction: "apply_item d (''key-direction '' @ string_of_nat (unat k)) = d\<lparr>d_key_direction := Some k\<rparr>"
  using apply_pair [of "''key-direction''" "string_of_nat (unat k)" d] directive_words
  by (simp add: apply_words_def)

lemma tls_key_directives:
  assumes "profile_plain c" and "cc_tls_auth_key c \<in> {None, Some (format_static_key key)}"
    and "d_key_direction d = None"
  shows "foldl apply_item d (ovpn_tls_key c) = d\<lparr>d_key_direction := profile_direction c\<rparr>"
proof -
  have d: "d\<lparr>d_key_direction := None\<rparr> = d" using assms(3) by (cases d) simp
  have key: "neutral (trim (format_static_key key))" using static_key_plain [of key] by (simp add: plain_text_def)
  show ?thesis
  proof (cases "cc_tls_crypt_key c")
    case (Some k)
    then have "neutral (trim k)" using assms(1) by (simp add: profile_plain_def plain_text_def)
    with Some d show ?thesis
      by (simp add: ovpn_tls_key_def inline_block_def neutral_tags profile_direction_def uses_tls_auth_def)
  next
    case None
    with assms(2) d key show ?thesis
      by (cases "cc_key_direction c")
         (auto simp: ovpn_tls_key_def inline_block_def neutral_tags profile_direction_def uses_tls_auth_def
           apply_direction [simplified])
  qed
qed

lemma profile_directives:
  assumes "profile_plain c" and "cc_tls_auth_key c \<in> {None, Some (format_static_key key)}"
  shows "foldl apply_line directives_init (str_lines (join [NL] (ovpn_lines c))) =
           (head_directives c)\<lparr>d_key_direction := profile_direction c\<rparr>"
proof -
  have pems: "CR \<notin> set (trim p) \<and> neutral (trim p)" if "p \<in> {cc_ca_cert c, cc_client_cert c, cc_client_key c}" for p
    using that assms(1) by (auto simp: profile_plain_def plain_text_def)
  have crypt: "CR \<notin> set (trim k)" if "cc_tls_crypt_key c = Some k" for k
    using that assms(1) by (simp add: profile_plain_def plain_text_def)
  have tls: "\<forall>l\<in>set (ovpn_tls_key c). CR \<notin> set l"
    using crypt assms(2) static_key_plain [of key]
    by (auto simp: ovpn_tls_key_def inline_block_def plain_text_def number_chars split: option.splits)
  have lines: "ovpn_lines c = front_items c @
      inline_block ''ca'' (cc_ca_cert c) @ [[]] @ inline_block ''cert'' (cc_client_cert c) @ [[]] @
      inline_block ''key'' (cc_client_key c) @ [[]] @ ovpn_tls_key c"
    by (simp add: ovpn_lines_def front_items_def)
  have "CR \<notin> set (join [NL] (ovpn_lines c))"
    using front_items_plain [OF assms(1)] pems tls
    by (intro no_char_join) (auto simp: lines inline_block_def)
  moreover have "ovpn_lines c \<noteq> []" by (simp add: lines)
  ultimately have "foldl apply_line directives_init (str_lines (join [NL] (ovpn_lines c))) =
      foldl apply_item directives_init (ovpn_lines c)"
    by (intro fold_lines)
  also have "\<dots> = foldl apply_item (head_directives c) (ovpn_tls_key c)"
    using pems by (simp add: lines front_directives [OF assms(1)] inline_block_def neutral_tags neutral_head)
  also have "\<dots> = (head_directives c)\<lparr>d_key_direction := profile_direction c\<rparr>"
    using assms by (intro tls_key_directives) (simp_all add: head_directives_def)
  finally show ?thesis .
qed

lemma validated_pem_ends:
  assumes "validate_pem s ty = Inr ()"
  shows "solid_ends (trim s)"
proof -
  obtain x y where front: "trim s = (''-----BEGIN '' @ ty) @ x" and rear: "trim s = y @ (''-----END '' @ ty @ ''-----'')"
    using assms unfolding validate_pem_def Let_def and_then_Inr_iff ensure_Inr_iff starts_with_iff ends_with_iff by blast
  have "trim s \<noteq> []" "hd (trim s) = CHR ''-''" unfolding front by simp_all
  moreover have "last (trim s) = CHR ''-''" unfolding rear by simp
  ultimately show ?thesis by (simp add: solid_ends_def solid_def)
qed

lemma result_is_ok_True [simp]: "result_is_ok r = Inr True \<longleftrightarrow> (\<exists>x. r = Inr x)"
  by (cases r rule: result_is_ok.cases) auto

lemma or_else_True: "or_else a b = Inr True \<longleftrightarrow> a = Inr True \<or> a = Inr False \<and> b = Inr True"
  by (auto simp: or_else_def and_then_Inr_iff split: if_splits)

lemma validated_ends:
  assumes "ClientConfig_validate c = Inr ()"
  shows "solid_ends (trim (cc_ca_cert c))" and "solid_ends (trim (cc_client_cert c))" and "solid_ends (trim (cc_client_key c))"
proof -
  have v: "validate_pem (cc_ca_cert c) ''CERTIFICATE'' = Inr ()" "validate_pem (cc_client_cert c) ''CERTIFICATE'' = Inr ()"
    "\<exists>ty. validate_pem (cc_client_key c) ty = Inr ()"
    using assms
    by (auto simp: ClientConfig_validate_def and_then_Inr_iff ensure_Inr_iff prefix_message_def map_err_Inr_iff or_else_True)
  show "solid_ends (trim (cc_ca_cert c))" and "solid_ends (trim (cc_client_cert c))" and "solid_ends (trim (cc_client_key c))"
    using v validated_pem_ends by blast+
qed

lemma tls_auth_block:
  assumes "no_tag p" "no_tag x" "no_tag y" "no_tag z"
  shows "no_tag r \<Longrightarrow> extract_inline_block (ovpn_text p x y z r) ''tls-auth'' = Inr None"
    and "no_tag k \<Longrightarrow> extract_inline_block (ovpn_text p x y z
           (NL # ''<tls-crypt>'' @ [NL] @ k @ [NL] @ ''</tls-crypt>'')) ''tls-auth'' = Inr None"
    and "no_tag q \<Longrightarrow> no_tag k \<Longrightarrow> solid_ends k \<Longrightarrow> extract_inline_block (ovpn_text p x y z
           (q @ ''<tls-auth>'' @ [NL] @ k @ [NL] @ ''</tls-auth>'')) ''tls-auth'' = Inr (Some k)"
proof -
  assume "no_tag r"
  then have "find_sub ''<tls-auth>'' r = None" by (rule find_sub_None)
  with assms show "extract_inline_block (ovpn_text p x y z r) ''tls-auth'' = Inr None"
    by (simp add: ovpn_text_def extract_inline_block_def find_sub_skip)
next
  assume "no_tag k"
  with assms show "extract_inline_block (ovpn_text p x y z
      (NL # ''<tls-crypt>'' @ [NL] @ k @ [NL] @ ''</tls-crypt>'')) ''tls-auth'' = Inr None"
    by (simp add: ovpn_text_def extract_inline_block_def find_sub_skip)
next
  assume "no_tag q" "no_tag k" "solid_ends k"
  with assms show "extract_inline_block (ovpn_text p x y z
      (q @ ''<tls-auth>'' @ [NL] @ k @ [NL] @ ''</tls-auth>'')) ''tls-auth'' = Inr (Some k)"
    by (intro extract_found [where a = "p @ ''<ca>'' @ [NL] @ x @ [NL] @ ''</ca>'' @ [NL, NL] @ ''<cert>'' @ [NL] @ y @ [NL] @
          ''</cert>'' @ [NL, NL] @ ''<key>'' @ [NL] @ z @ [NL] @ ''</key>'' @ [NL] @ q"])
       (simp_all add: ovpn_text_def find_sub_skip)
qed

lemma profile_blocks:
  assumes "profile_plain c" and "cc_tls_auth_key c \<in> {None, Some (format_static_key key)}"
  defines "s \<equiv> join [NL] (ovpn_lines c)"
  shows "extract_inline_block s ''ca'' = Inr (Some (trim (cc_ca_cert c)))"
    and "extract_inline_block s ''cert'' = Inr (Some (trim (cc_client_cert c)))"
    and "extract_inline_block s ''key'' = Inr (Some (trim (cc_client_key c)))"
    and "extract_inline_block s ''tls-auth'' =
           Inr (if uses_tls_auth c then Some (trim (format_static_key key)) else None)"
proof -
  let ?p = "join [NL] (front_items c) @ [NL]"
  have p: "no_tag ?p"
    using front_items_plain [OF assms(1)] no_char_join [of "CHR ''<''" "[NL]" "front_items c"] by auto
  have t: "no_tag (trim (cc_ca_cert c))" "no_tag (trim (cc_client_cert c))" "no_tag (trim (cc_client_key c))"
    using assms(1) by (simp_all add: profile_plain_def plain_text_def)
  have "ClientConfig_validate c = Inr ()" using assms(1) by (simp add: profile_plain_def)
  note ends = validated_ends [OF this]
  show "extract_inline_block s ''ca'' = Inr (Some (trim (cc_ca_cert c)))"
    and "extract_inline_block s ''cert'' = Inr (Some (trim (cc_client_cert c)))"
    and "extract_inline_block s ''key'' = Inr (Some (trim (cc_client_key c)))"
    unfolding s_def ovpn_lines_text by (rule ovpn_text_blocks [OF p t ends])+
  have key: "no_tag (trim (format_static_key key))" "solid_ends (trim (format_static_key key))"
    using static_key_plain [of key] key_text [of key] by (simp_all add: plain_text_def)
  show "extract_inline_block s ''tls-auth'' =
      Inr (if uses_tls_auth c then Some (trim (format_static_key key)) else None)"
  proof (cases "cc_tls_crypt_key c")
    case (Some k)
    then have "no_tag (trim k)" using assms(1) by (simp add: profile_plain_def plain_text_def)
    with Some show ?thesis
      unfolding s_def ovpn_lines_text using tls_auth_block(2) [OF p t]
      by (simp add: rest_text_def ovpn_tls_key_def inline_block_def uses_tls_auth_def)
  next
    case crypt: None
    show ?thesis
    proof (cases "cc_tls_auth_key c")
      case None
      with crypt show ?thesis
        unfolding s_def ovpn_lines_text using tls_auth_block(1) [OF p t, of "[]"]
        by (simp add: rest_text_def ovpn_tls_key_def uses_tls_auth_def)
    next
      case (Some k)
      then have k: "k = format_static_key key" using assms(2) by simp
      let ?q = "case cc_key_direction c of
          Some dir \<Rightarrow> NL # ''key-direction '' @ string_of_nat (unat dir) @ [NL] | None \<Rightarrow> [NL]"
      have q: "no_tag ?q" by (simp add: number_chars split: option.split)
      have "rest_text c = ?q @ ''<tls-auth>'' @ [NL] @ trim (format_static_key key) @ [NL] @ ''</tls-auth>''"
        using crypt Some k by (simp add: rest_text_def ovpn_tls_key_def inline_block_def split: option.split)
      with crypt Some show ?thesis
        unfolding s_def ovpn_lines_text using tls_auth_block(3) [OF p t q key]
        by (simp add: uses_tls_auth_def)
    qed
  qed
qed

text \<open>What parsing gives, up to the reading of the remote address.\<close>

definition profile_of :: "ClientConfig \<Rightarrow> bytes \<Rightarrow> SocketAddr \<Rightarrow> OvpnConfig" where
  "profile_of c key addr =
     \<lparr>ov_remote = addr, ov_protocol = cc_protocol c, ov_cipher = cc_cipher c, ov_data_ciphers = [],
      ov_auth = cc_auth c, ov_verb = 3, ov_ca_pem = trim (cc_ca_cert c), ov_cert_pem = trim (cc_client_cert c),
      ov_key_pem = trim (cc_client_key c), ov_tls_auth_key = (if uses_tls_auth c then Some key else None),
      ov_key_direction = profile_direction c, ov_remote_cert_tls = True, ov_dev = ''tun''\<rparr>"

lemma parse_generated:
  assumes "profile_plain c" and "cc_tls_auth_key c \<in> {None, Some (format_static_key key)}" and "length key = 256"
  defines "addr \<equiv> cc_remote_host c @ '':'' @ string_of_nat (unat (cc_remote_port c))"
  shows "to_ovpn c = (Inr (join [NL] (ovpn_lines c)) :: ('e, string) res)"
    and "OvpnConfig_parse (join [NL] (ovpn_lines c)) =
           and_then (ok_or (parse_socket_addr addr) (''Invalid remote address: '' @ addr)) (\<lambda>a. Inr (profile_of c key a))"
proof -
  show "to_ovpn c = (Inr (join [NL] (ovpn_lines c)) :: ('e, string) res)"
    using assms(1) by (simp add: to_ovpn_def profile_plain_def)
  have "cc_remote_host c \<noteq> []" using assms(1) by (simp add: profile_plain_def word_ok_def)
  then show "OvpnConfig_parse (join [NL] (ovpn_lines c)) =
      and_then (ok_or (parse_socket_addr addr) (''Invalid remote address: '' @ addr)) (\<lambda>a. Inr (profile_of c key a))"
    unfolding OvpnConfig_parse_def profile_directives [OF assms(1,2)]
    by (simp add: required_block_def profile_blocks [OF assms(1,2)] ok_or_def ovpn_static_key_reads [OF assms(3)]
        head_directives_def profile_of_def addr_def Let_def del: append_Cons)
qed

lemma static_key_long: "32 \<le> length (trim (format_static_key key))"
  unfolding key_text(1) by (simp add: key_header_def)

definition sample_pem :: "string \<Rightarrow> string" where
  "sample_pem ty = ''-----BEGIN '' @ ty @ ''-----'' @ [NL] @ ''TUlJ'' @ [NL] @ ''-----END '' @ ty @ ''-----'' @ [NL]"

definition sample_profile :: "string \<Rightarrow> bytes \<Rightarrow> ClientConfig" where
  "sample_profile host key =
     bld_build (bld_extra_option ''compress stub-v2'' (bld_tls_auth (format_static_key key) 1
       (bld_client_key (sample_pem ''PRIVATE KEY'') (bld_client_cert (sample_pem ''CERTIFICATE'')
       (bld_ca_cert (sample_pem ''CERTIFICATE'') (ClientConfigBuilder_new ''alice'' host))))))"

lemma sample_profile_plain: "word_ok host \<Longrightarrow> profile_plain (sample_profile host key)"
proof -
  assume host: "word_ok host"
  have "validate_pem (sample_pem ''CERTIFICATE'') ''CERTIFICATE'' = Inr ()"
    "validate_pem (sample_pem ''PRIVATE KEY'') ''PRIVATE KEY'' = Inr ()"
    by code_simp+
  moreover have "list_all word_ok [''udp'', ''AES-256-GCM'', ''SHA256'']" "plain_text ''compress stub-v2''"
    "plain_text (trim (sample_pem ''CERTIFICATE''))" "plain_text (trim (sample_pem ''PRIVATE KEY''))"
    by code_simp+
  ultimately show ?thesis
    using host static_key_long [of key] list.size(3) [where 'a = char]
    by (cases "trim (format_static_key key) = []") (auto simp: profile_plain_def sample_profile_def ClientConfig_validate_def prefix_message_def or_else_def
        check_static_key_def bld_build_def bld_extra_option_def bld_tls_auth_def bld_client_key_def bld_client_cert_def
        bld_ca_cert_def ClientConfigBuilder_new_def)
qed

section \<open>Properties\<close>

text \<open>
  C31. A profile that the server generates for an IPv4 server is read back by the command line
  client: address, port, protocol, cipher, digest, the three PEM blocks, the static key and its
  direction are the ones of the configuration. It is supposed that the words and the embedded texts
  contain neither a tag nor a line that is itself a directive.
\<close>

theorem generated_profile_roundtrip:
  assumes "profile_plain c" and "cc_remote_host c = show_ipv4 ip"
    and "cc_tls_auth_key c \<in> {None, Some (format_static_key key)}" and "length key = 256"
  shows "\<exists>text. to_ovpn c = (Inr text :: ('e, string) res) \<and>
           OvpnConfig_parse text = Inr (profile_of c key \<lparr>sa_ip = V4 ip, sa_port = cc_remote_port c\<rparr>)"
proof -
  have "unat (cc_remote_port c) < 65536" using unat_bound [of "cc_remote_port c"] by simp
  then have "parse_socket_addr (show_ipv4 ip @ '':'' @ string_of_nat (unat (cc_remote_port c))) =
      Some \<lparr>sa_ip = V4 ip, sa_port = cc_remote_port c\<rparr>"
    using parse_socket_addr_show [of "unat (cc_remote_port c)" ip] by simp
  then show ?thesis
    using parse_generated(2) [OF assms(1,3,4)] assms(2) by (simp add: ok_or_def parse_generated(1) [OF assms(1,3,4)])
qed

theorem generated_profile_roundtrip_witness:
  "\<exists>text. to_ovpn (sample_profile ''10.0.0.1'' (replicate 256 7)) = (Inr text :: (unit, string) res) \<and>
     OvpnConfig_parse text =
       Inr (profile_of (sample_profile ''10.0.0.1'' (replicate 256 7)) (replicate 256 7) \<lparr>sa_ip = V4 0x0A000001, sa_port = 1194\<rparr>)"
proof -
  have host: "show_ipv4 0x0A000001 = ''10.0.0.1''" "word_ok ''10.0.0.1''" by code_simp+
  show ?thesis
    using generated_profile_roundtrip [OF sample_profile_plain [OF host(2)], of "replicate 256 7" "0x0A000001" "replicate 256 7"]
    by (simp add: sample_profile_def bld_build_def bld_extra_option_def bld_tls_auth_def bld_client_key_def
        bld_client_cert_def bld_ca_cert_def ClientConfigBuilder_new_def host)
qed

text \<open>
  A profile that the server generates for a host name is never accepted by the command line
  client: the reader wants an address where the generator writes the name.
\<close>

theorem hostname_profile_rejected:
  assumes "profile_plain c" and "cc_remote_host c = h # hs" and "\<not> is_digit h" and "h \<noteq> CHR ''[''"
    and "cc_tls_auth_key c \<in> {None, Some (format_static_key key)}" and "length key = 256"
  shows "\<exists>text. to_ovpn c = (Inr text :: ('e, string) res) \<and>
           OvpnConfig_parse text = Inl (Err (''Invalid remote address: '' @ cc_remote_host c @ '':'' @
             string_of_nat (unat (cc_remote_port c))))"
proof -
  have "parse_socket_addr (cc_remote_host c @ '':'' @ string_of_nat (unat (cc_remote_port c))) = None"
  proof (rule ccontr)
    assume "parse_socket_addr (cc_remote_host c @ '':'' @ string_of_nat (unat (cc_remote_port c))) \<noteq> None"
    then obtain a where "parse_socket_addr (cc_remote_host c @ '':'' @ string_of_nat (unat (cc_remote_port c))) = Some a" by auto
    then show False using assms(2-4) by (auto elim: parse_socket_addr_first)
  qed
  then show ?thesis
    using parse_generated(2) [OF assms(1,5,6)] by (simp add: ok_or_def parse_generated(1) [OF assms(1,5,6)])
qed

theorem hostname_profile_rejected_witness:
  "\<exists>text. to_ovpn (sample_profile ''vpn.example.com'' (replicate 256 7)) = (Inr text :: (unit, string) res) \<and>
     OvpnConfig_parse text = Inl (Err ''Invalid remote address: vpn.example.com:1194'')"
proof -
  have host: "word_ok ''vpn.example.com''" "string_of_nat 1194 = ''1194''" by code_simp+
  show ?thesis
    using hostname_profile_rejected [OF sample_profile_plain [OF host(1)], of "replicate 256 7" "CHR ''v''" "''pn.example.com''" "replicate 256 7"]
    by (simp add: sample_profile_def bld_build_def bld_extra_option_def bld_tls_auth_def bld_client_key_def
        bld_client_cert_def bld_ca_cert_def ClientConfigBuilder_new_def host is_digit_def)
qed

end
