(* ===== verification/Connection_Events.thy ===== *)
theory Connection_Events
  imports Std_Net Config_Server Hmac_Auth
begin

text \<open>
  Connection events and their anonymisation (\<open>crates/corevpn-server/src/connection_log/events.rs\<close>
  and \<open>anonymizer.rs\<close>).

  A UUID is a 128-bit word; random values, the current time, SHA-256 and HMAC-SHA-256 are
  arguments. The calendar operations of \<open>chrono\<close> are the record \<open>calendar\<close>, and \<open>calendar_laws\<close> says
  what they do to a time in nanoseconds.
\<close>

type_synonym Uuid = u128

section \<open>Events\<close>

type_synonym ConnectionId = Uuid

definition ConnectionId_new :: "Uuid \<Rightarrow> ConnectionId" where
  "ConnectionId_new random = random"

datatype AuthMethod = Certificate | UsernamePassword | OAuth2 | Saml | Psk | UnknownMethod

datatype DisconnectReason =
  ClientDisconnect | ServerDisconnect | IdleTimeout | SessionTimeout | AuthFailure | ProtocolError
| ConnectionReset | ServerShutdown | AdminTerminated | RenegotiationFailure | UnknownReason

datatype AuthResult =
  Success | InvalidCredentials | Expired | NotAuthorized | RateLimited | ProviderError | Timeout | UnknownResult

record TransferStats =
  bytes_rx :: u64
  bytes_tx :: u64
  packets_rx :: u64
  packets_tx :: u64

text \<open>Sums of \<open>u64\<close> panic on overflow where overflow checks are on.\<close>

definition total_bytes :: "TransferStats \<Rightarrow> ('e, u64) res" where
  "total_bytes s = or_panic (checked_add (bytes_rx s) (bytes_tx s))"

definition total_packets :: "TransferStats \<Rightarrow> ('e, u64) res" where
  "total_packets s = or_panic (checked_add (packets_rx s) (packets_tx s))"

datatype ConnectionEvent =
  ConnectionAttempt ConnectionId date_time SocketAddr "string option"
| Authentication ConnectionId date_time SocketAddr "string option" AuthMethod AuthResult "string option"
| Connected ConnectionId date_time SocketAddr "string option" IpAddr AuthMethod "string option"
| Disconnected ConnectionId date_time SocketAddr "string option" DisconnectReason duration "TransferStats option"
| IpChange ConnectionId date_time SocketAddr SocketAddr "string option"
| Renegotiation ConnectionId date_time SocketAddr bool

fun ev_connection_id :: "ConnectionEvent \<Rightarrow> ConnectionId" where
  "ev_connection_id (ConnectionAttempt i t a v) = i"
| "ev_connection_id (Authentication i t a u m r d) = i"
| "ev_connection_id (Connected i t a u ip m c) = i"
| "ev_connection_id (Disconnected i t a u r d s) = i"
| "ev_connection_id (IpChange i t a b u) = i"
| "ev_connection_id (Renegotiation i t a b) = i"

fun ev_timestamp :: "ConnectionEvent \<Rightarrow> date_time" where
  "ev_timestamp (ConnectionAttempt i t a v) = t"
| "ev_timestamp (Authentication i t a u m r d) = t"
| "ev_timestamp (Connected i t a u ip m c) = t"
| "ev_timestamp (Disconnected i t a u r d s) = t"
| "ev_timestamp (IpChange i t a b u) = t"
| "ev_timestamp (Renegotiation i t a b) = t"

fun event_type :: "ConnectionEvent \<Rightarrow> string" where
  "event_type (ConnectionAttempt i t a v) = ''connection_attempt''"
| "event_type (Authentication i t a u m r d) = ''authentication''"
| "event_type (Connected i t a u ip m c) = ''connected''"
| "event_type (Disconnected i t a u r d s) = ''disconnected''"
| "event_type (IpChange i t a b u) = ''ip_change''"
| "event_type (Renegotiation i t a b) = ''renegotiation''"

fun ev_client_addr :: "ConnectionEvent \<Rightarrow> SocketAddr option" where
  "ev_client_addr (ConnectionAttempt i t a v) = Some a"
| "ev_client_addr (Authentication i t a u m r d) = Some a"
| "ev_client_addr (Connected i t a u ip m c) = Some a"
| "ev_client_addr (Disconnected i t a u r d s) = Some a"
| "ev_client_addr (IpChange i t a b u) = Some b"
| "ev_client_addr (Renegotiation i t a b) = Some a"

subsection \<open>Building events\<close>

record ConnectionEventBuilder =
  eb_connection_id :: ConnectionId

definition ConnectionEventBuilder_new :: "Uuid \<Rightarrow> ConnectionEventBuilder" where
  "ConnectionEventBuilder_new random = \<lparr>eb_connection_id = ConnectionId_new random\<rparr>"

definition with_id :: "ConnectionId \<Rightarrow> ConnectionEventBuilder" where
  "with_id i = \<lparr>eb_connection_id = i\<rparr>"

definition eb_attempt :: "date_time \<Rightarrow> ConnectionEventBuilder \<Rightarrow> SocketAddr \<Rightarrow> ConnectionEvent" where
  "eb_attempt now b a = ConnectionAttempt (eb_connection_id b) now a None"

definition eb_authentication ::
  "date_time \<Rightarrow> ConnectionEventBuilder \<Rightarrow> SocketAddr \<Rightarrow> string option \<Rightarrow> AuthMethod \<Rightarrow> AuthResult \<Rightarrow> ConnectionEvent" where
  "eb_authentication now b a u m r = Authentication (eb_connection_id b) now a u m r None"

definition eb_connected ::
  "date_time \<Rightarrow> ConnectionEventBuilder \<Rightarrow> SocketAddr \<Rightarrow> IpAddr \<Rightarrow> string option \<Rightarrow> AuthMethod \<Rightarrow> ConnectionEvent" where
  "eb_connected now b a ip u m = Connected (eb_connection_id b) now a u ip m None"

definition eb_disconnected ::
  "date_time \<Rightarrow> ConnectionEventBuilder \<Rightarrow> SocketAddr \<Rightarrow> string option \<Rightarrow> DisconnectReason \<Rightarrow> duration \<Rightarrow>
   TransferStats option \<Rightarrow> ConnectionEvent" where
  "eb_disconnected now b a u r d s = Disconnected (eb_connection_id b) now a u r d s"

definition eb_ip_change ::
  "date_time \<Rightarrow> ConnectionEventBuilder \<Rightarrow> SocketAddr \<Rightarrow> SocketAddr \<Rightarrow> string option \<Rightarrow> ConnectionEvent" where
  "eb_ip_change now b a a' u = IpChange (eb_connection_id b) now a a' u"

definition eb_renegotiation :: "date_time \<Rightarrow> ConnectionEventBuilder \<Rightarrow> SocketAddr \<Rightarrow> bool \<Rightarrow> ConnectionEvent" where
  "eb_renegotiation now b a ok = Renegotiation (eb_connection_id b) now a ok"

section \<open>Anonymisation\<close>

record calendar =
  cal_ordinal :: "date_time \<Rightarrow> u32"
  cal_with_minute :: "date_time \<Rightarrow> nat \<Rightarrow> date_time option"
  cal_with_second :: "date_time \<Rightarrow> nat \<Rightarrow> date_time option"
  cal_with_nanosecond :: "date_time \<Rightarrow> nat \<Rightarrow> date_time option"

definition SECOND :: int where "SECOND = 1000000000"
definition MINUTE :: int where "MINUTE = 60 * SECOND"
definition HOUR :: int where "HOUR = 60 * MINUTE"
definition DAY :: int where "DAY = 24 * HOUR"

text \<open>The documented behaviour, on times that are nanoseconds since the epoch.\<close>

definition calendar_laws :: "calendar \<Rightarrow> bool" where
  "calendar_laws C \<longleftrightarrow>
     (\<forall>t t'. t div DAY = t' div DAY \<longrightarrow> cal_ordinal C t = cal_ordinal C t') \<and>
     (\<forall>t n. n < 60 \<longrightarrow> cal_with_minute C t n = Some (t div HOUR * HOUR + int n * MINUTE + t mod MINUTE)) \<and>
     (\<forall>t n. n < 60 \<longrightarrow> cal_with_second C t n = Some (t div MINUTE * MINUTE + int n * SECOND + t mod SECOND)) \<and>
     (\<forall>t n. n < 1000000000 \<longrightarrow> cal_with_nanosecond C t n = Some (t div SECOND * SECOND + int n))"

record Anonymizer =
  an_config :: ConnectionLogAnonymization
  an_daily_salt :: bytes
  an_current_day :: u32
  an_instance_secret :: bytes

definition generate_salt :: "(bytes \<Rightarrow> bytes) \<Rightarrow> u32 \<Rightarrow> bytes \<Rightarrow> bytes" where
  "generate_salt sha256 d secret =
     take 32 (sha256 (secret @ rev (u32_to_be_bytes d) @ str_bytes ''corevpn-anonymizer-salt''))"

definition Anonymizer_new ::
  "(bytes \<Rightarrow> bytes) \<Rightarrow> calendar \<Rightarrow> date_time \<Rightarrow> bytes \<Rightarrow> ConnectionLogAnonymization \<Rightarrow> Anonymizer" where
  "Anonymizer_new sha256 C now random cfg =
     (let d = cal_ordinal C now in
      \<lparr>an_config = cfg, an_daily_salt = generate_salt sha256 d random, an_current_day = d, an_instance_secret = random\<rparr>)"

definition rotate_salt_if_needed :: "(bytes \<Rightarrow> bytes) \<Rightarrow> calendar \<Rightarrow> date_time \<Rightarrow> Anonymizer \<Rightarrow> Anonymizer" where
  "rotate_salt_if_needed sha256 C now a =
     (let d = cal_ordinal C now in
      if d \<noteq> an_current_day a
      then a\<lparr>an_daily_salt := generate_salt sha256 d (an_instance_secret a), an_current_day := d\<rparr>
      else a)"

definition anonymize_timestamp :: "calendar \<Rightarrow> Anonymizer \<Rightarrow> date_time \<Rightarrow> date_time" where
  "anonymize_timestamp C a t =
     (if round_timestamps (an_config a) then
        (case Option.bind (Option.bind (cal_with_minute C t 0) (\<lambda>t. cal_with_second C t 0)) (\<lambda>t. cal_with_nanosecond C t 0) of
           Some t' \<Rightarrow> t' | None \<Rightarrow> t)
      else t)"

text \<open>\<open>u64::from_le_bytes\<close>, and the bytes and segments of addresses.\<close>

fun le_value :: "bytes \<Rightarrow> nat" where
  "le_value [] = 0"
| "le_value (b # bs) = unat b + 256 * le_value bs"

definition u64_from_le_bytes :: "bytes \<Rightarrow> u64" where
  "u64_from_le_bytes bs = of_nat (le_value bs)"

definition v6_octets :: "u128 \<Rightarrow> bytes" where
  "v6_octets a = map (\<lambda>i. ucast (drop_bit (120 - 8 * i) a)) [0..<16]"

definition v6_from_octets :: "bytes \<Rightarrow> u128" where
  "v6_from_octets bs = of_nat (le_value (rev bs))"

definition v6_segment :: "u128 \<Rightarrow> nat \<Rightarrow> nat" where
  "v6_segment a i = unat (drop_bit (112 - 16 * i) a AND 0xFFFF)"

definition hash_byte :: "u64 \<Rightarrow> nat \<Rightarrow> u8" where
  "hash_byte h k = ucast (drop_bit k h AND 0xFF)"

definition ip_bytes :: "IpAddr \<Rightarrow> bytes" where
  "ip_bytes ip = (case ip of V4 v4 \<Rightarrow> u32_to_be_bytes v4 @ replicate 12 0 | V6 v6 \<Rightarrow> v6_octets v6)"

definition hash_ip :: "mac \<Rightarrow> Anonymizer \<Rightarrow> IpAddr \<Rightarrow> IpAddr" where
  "hash_ip hmac a ip =
     (let hash = u64_from_le_bytes (take 8 (hmac (an_daily_salt a) (ip_bytes ip))) in
      case ip of
        V4 _ \<Rightarrow> V4 (u32_from_be_bytes [0, hash_byte hash 8, hash_byte hash 16, hash_byte hash 24])
      | V6 _ \<Rightarrow> V6 (v6_from_octets
          [0x20, 0x01, 0x0d, 0xb8, hash_byte hash 32, hash_byte hash 40, hash_byte hash 48, hash_byte hash 56,
           hash_byte hash 0, hash_byte hash 8, hash_byte hash 16, hash_byte hash 24, 0, 0, 0, 0]))"

definition truncate_ip :: "IpAddr \<Rightarrow> IpAddr" where
  "truncate_ip ip =
     (case ip of
        V4 v4 \<Rightarrow> (let octets = u32_to_be_bytes v4 in V4 (u32_from_be_bytes [octets ! 0, octets ! 1, octets ! 2, 0]))
      | V6 v6 \<Rightarrow> V6 (from_segments [v6_segment v6 0, v6_segment v6 1, v6_segment v6 2, 0, 0, 0, 0, 0]))"

definition anonymize_socket_addr :: "mac \<Rightarrow> Anonymizer \<Rightarrow> SocketAddr \<Rightarrow> SocketAddr" where
  "anonymize_socket_addr hmac a addr =
     (let ip = (if hash_client_ips (an_config a) then hash_ip hmac a (sa_ip addr)
                else if truncate_client_ips (an_config a) then truncate_ip (sa_ip addr)
                else sa_ip addr) in
      \<lparr>sa_ip = ip, sa_port = 0\<rparr>)"

definition anonymize_username :: "mac \<Rightarrow> Anonymizer \<Rightarrow> string option \<Rightarrow> string option" where
  "anonymize_username hmac a username =
     (if \<not> hash_usernames (an_config a) then username
      else map_option (\<lambda>u. ''user_'' @
        hex_pad 16 (unat (u64_from_le_bytes (take 8 (hmac (an_daily_salt a) (str_bytes u)))))) username)"

definition bucket :: "u64 \<Rightarrow> u64" where
  "bucket n =
     (if n \<le> 1023 then 512
      else if n \<le> 10239 then 5 * 1024
      else if n \<le> 102399 then 50 * 1024
      else if n \<le> 1048575 then 500 * 1024
      else if n \<le> 10485759 then 5 * 1024 * 1024
      else if n \<le> 104857599 then 50 * 1024 * 1024
      else if n \<le> 1073741823 then 500 * 1024 * 1024
      else 1024 * 1024 * 1024)"

definition anonymize_stats :: "Anonymizer \<Rightarrow> TransferStats option \<Rightarrow> TransferStats option" where
  "anonymize_stats a stats =
     (if \<not> aggregate_transfer_stats (an_config a) then stats
      else map_option (\<lambda>s. \<lparr>bytes_rx = bucket (bytes_rx s), bytes_tx = bucket (bytes_tx s),
                            packets_rx = 0, packets_tx = 0\<rparr>) stats)"

text \<open>What becomes of an event once the salt is up to date.\<close>

fun anonymize_with :: "mac \<Rightarrow> calendar \<Rightarrow> Anonymizer \<Rightarrow> ConnectionEvent \<Rightarrow> ConnectionEvent" where
  "anonymize_with hmac C a (ConnectionAttempt i t addr v) =
     ConnectionAttempt i (anonymize_timestamp C a t) (anonymize_socket_addr hmac a addr) v"
| "anonymize_with hmac C a (Authentication i t addr u m r details) =
     Authentication i (anonymize_timestamp C a t) (anonymize_socket_addr hmac a addr) (anonymize_username hmac a u) m r None"
| "anonymize_with hmac C a (Connected i t addr u ip m info) =
     Connected i (anonymize_timestamp C a t) (anonymize_socket_addr hmac a addr) (anonymize_username hmac a u) ip m None"
| "anonymize_with hmac C a (Disconnected i t addr u r d s) =
     Disconnected i (anonymize_timestamp C a t) (anonymize_socket_addr hmac a addr) (anonymize_username hmac a u) r d
       (anonymize_stats a s)"
| "anonymize_with hmac C a (IpChange i t addr addr' u) =
     IpChange i (anonymize_timestamp C a t) (anonymize_socket_addr hmac a addr) (anonymize_socket_addr hmac a addr')
       (anonymize_username hmac a u)"
| "anonymize_with hmac C a (Renegotiation i t addr ok) =
     Renegotiation i (anonymize_timestamp C a t) (anonymize_socket_addr hmac a addr) ok"

definition anonymize ::
  "(bytes \<Rightarrow> bytes) \<Rightarrow> mac \<Rightarrow> calendar \<Rightarrow> date_time \<Rightarrow> Anonymizer \<Rightarrow> ConnectionEvent \<Rightarrow> ConnectionEvent \<times> Anonymizer" where
  "anonymize sha256 hmac C now a e =
     (let a' = rotate_salt_if_needed sha256 C now a in (anonymize_with hmac C a' e, a'))"

section \<open>What an anonymised event shows\<close>

text \<open>
  Two events look the same in the log when they agree on what the configuration keeps: the hour or
  the time, the network, the digest or the address of the client, the digest or the name of the
  user, the order of magnitude or the amount of traffic. Ports, details and client information are
  never kept.
\<close>

definition same_time :: "ConnectionLogAnonymization \<Rightarrow> date_time \<Rightarrow> date_time \<Rightarrow> bool" where
  "same_time cfg t t' \<longleftrightarrow>
     (if round_timestamps cfg then t div HOUR = t' div HOUR else t = t')"

fun same_network :: "IpAddr \<Rightarrow> IpAddr \<Rightarrow> bool" where
  "same_network (V4 a) (V4 b) \<longleftrightarrow> unat a div 2 ^ 8 = unat b div 2 ^ 8"
| "same_network (V6 a) (V6 b) \<longleftrightarrow> unat a div 2 ^ 80 = unat b div 2 ^ 80"
| "same_network _ _ \<longleftrightarrow> False"

fun same_digest :: "mac \<Rightarrow> bytes \<Rightarrow> IpAddr \<Rightarrow> IpAddr \<Rightarrow> bool" where
  "same_digest hmac key (V4 a) (V4 b) \<longleftrightarrow>
     (\<forall>i\<in>{1, 2, 3}. hmac key (ip_bytes (V4 a)) ! i = hmac key (ip_bytes (V4 b)) ! i)"
| "same_digest hmac key (V6 a) (V6 b) \<longleftrightarrow>
     take 8 (hmac key (ip_bytes (V6 a))) = take 8 (hmac key (ip_bytes (V6 b)))"
| "same_digest _ _ _ _ \<longleftrightarrow> False"

definition same_client :: "mac \<Rightarrow> ConnectionLogAnonymization \<Rightarrow> bytes \<Rightarrow> SocketAddr \<Rightarrow> SocketAddr \<Rightarrow> bool" where
  "same_client hmac cfg key a b \<longleftrightarrow>
     (if hash_client_ips cfg then same_digest hmac key (sa_ip a) (sa_ip b)
      else if truncate_client_ips cfg then same_network (sa_ip a) (sa_ip b)
      else sa_ip a = sa_ip b)"

definition same_user :: "mac \<Rightarrow> ConnectionLogAnonymization \<Rightarrow> bytes \<Rightarrow> string option \<Rightarrow> string option \<Rightarrow> bool" where
  "same_user hmac cfg key u v \<longleftrightarrow>
     (if hash_usernames cfg
      then rel_option (\<lambda>u v. take 8 (hmac key (str_bytes u)) = take 8 (hmac key (str_bytes v))) u v
      else u = v)"

definition magnitude :: "u64 \<Rightarrow> nat" where
  "magnitude n = length (filter (\<lambda>k. k \<le> unat n)
     [1024, 10240, 102400, 1048576, 10485760, 104857600, 1073741824])"

definition same_traffic :: "ConnectionLogAnonymization \<Rightarrow> TransferStats option \<Rightarrow> TransferStats option \<Rightarrow> bool" where
  "same_traffic cfg s s' \<longleftrightarrow>
     (if aggregate_transfer_stats cfg
      then rel_option (\<lambda>s s'. magnitude (bytes_rx s) = magnitude (bytes_rx s') \<and>
                              magnitude (bytes_tx s) = magnitude (bytes_tx s')) s s'
      else s = s')"

definition same_view :: "mac \<Rightarrow> ConnectionLogAnonymization \<Rightarrow> bytes \<Rightarrow> ConnectionEvent \<Rightarrow> ConnectionEvent \<Rightarrow> bool" where
  "same_view hmac cfg key e e' \<longleftrightarrow> ev_connection_id e = ev_connection_id e' \<and> same_time cfg (ev_timestamp e) (ev_timestamp e') \<and>
     (case e of
        ConnectionAttempt i t a v \<Rightarrow>
          (case e' of ConnectionAttempt i' t' a' v' \<Rightarrow> same_client hmac cfg key a a' \<and> v = v' | _ \<Rightarrow> False)
      | Authentication i t a u m r d \<Rightarrow>
          (case e' of Authentication i' t' a' u' m' r' d' \<Rightarrow>
             same_client hmac cfg key a a' \<and> same_user hmac cfg key u u' \<and> m = m' \<and> r = r' | _ \<Rightarrow> False)
      | Connected i t a u ip m c \<Rightarrow>
          (case e' of Connected i' t' a' u' ip' m' c' \<Rightarrow>
             same_client hmac cfg key a a' \<and> same_user hmac cfg key u u' \<and> ip = ip' \<and> m = m' | _ \<Rightarrow> False)
      | Disconnected i t a u r d s \<Rightarrow>
          (case e' of Disconnected i' t' a' u' r' d' s' \<Rightarrow>
             same_client hmac cfg key a a' \<and> same_user hmac cfg key u u' \<and> r = r' \<and> d = d' \<and> same_traffic cfg s s' | _ \<Rightarrow> False)
      | IpChange i t a b u \<Rightarrow>
          (case e' of IpChange i' t' a' b' u' \<Rightarrow>
             same_client hmac cfg key a a' \<and> same_client hmac cfg key b b' \<and> same_user hmac cfg key u u' | _ \<Rightarrow> False)
      | Renegotiation i t a ok \<Rightarrow>
          (case e' of Renegotiation i' t' a' ok' \<Rightarrow> same_client hmac cfg key a a' \<and> ok = ok' | _ \<Rightarrow> False))"

section \<open>Lemmas\<close>

lemma floor_hour:
  defines "t1 \<equiv> (\<lambda>t. t div HOUR * HOUR + t mod MINUTE)" and "t2 \<equiv> (\<lambda>t. t div MINUTE * MINUTE + t mod SECOND)"
  shows "t2 (t1 t) div SECOND * SECOND = t div HOUR * HOUR"
proof -
  note H = HOUR_def and M = MINUTE_def
  have S: "SECOND > 0" by (simp add: SECOND_def)
  then have M0: "MINUTE > 0" by (simp add: M)
  have "t1 t = (t div HOUR * 60) * MINUTE + t mod MINUTE" unfolding t1_def using H by simp
  then have d1: "t1 t div MINUTE = t div HOUR * 60" using M0 by simp
  have "t1 t = t mod MINUTE + (t div HOUR * 3600) * SECOND" unfolding t1_def using H M by simp
  then have "t1 t mod SECOND = t mod MINUTE mod SECOND" by simp
  also have "\<dots> = t mod SECOND" by (rule mod_mod_cancel) (simp add: M)
  finally have "t1 t mod SECOND = t mod SECOND" .
  then have "t2 (t1 t) = (t div HOUR * 3600) * SECOND + t mod SECOND" unfolding t2_def using d1 M by simp
  then have "t2 (t1 t) div SECOND = t div HOUR * 3600" using S by simp
  then show ?thesis using H M by simp
qed

lemma anonymize_timestamp_eq:
  assumes "calendar_laws C"
  shows "anonymize_timestamp C a t = (if round_timestamps (an_config a) then t div HOUR * HOUR else t)"
proof -
  have "cal_with_minute C t 0 = Some (t div HOUR * HOUR + t mod MINUTE)"
    "cal_with_second C t' 0 = Some (t' div MINUTE * MINUTE + t' mod SECOND)"
    "cal_with_nanosecond C t' 0 = Some (t' div SECOND * SECOND)" for t t'
    using assms by (simp_all add: calendar_laws_def)
  then show ?thesis using floor_hour [of t] by (simp add: anonymize_timestamp_def)
qed

lemma same_time_iff:
  assumes "calendar_laws C"
  shows "anonymize_timestamp C a t = anonymize_timestamp C a t' \<longleftrightarrow> same_time (an_config a) t t'"
  by (simp add: anonymize_timestamp_eq [OF assms] same_time_def HOUR_def MINUTE_def SECOND_def)

subsection \<open>Bytes\<close>

lemma le_value_less: "le_value bs < 256 ^ length bs"
proof (induction bs)
  case (Cons b bs)
  have "unat b < 256" using unat_bound [of b] by simp
  then show ?case using Cons by simp
qed simp

lemma le_value_Cons_inj: "le_value (x # xs) = le_value (y # ys) \<longleftrightarrow> x = y \<and> le_value xs = le_value ys"
proof
  assume eq: "le_value (x # xs) = le_value (y # ys)"
  have "unat x < 256" "unat y < 256" using unat_bound [of x] unat_bound [of y] by simp_all
  moreover have "(unat x + 256 * le_value xs) mod 256 = (unat y + 256 * le_value ys) mod 256" using eq by simp
  ultimately have "unat x = unat y" by simp
  then show "x = y \<and> le_value xs = le_value ys" using eq by (simp add: word_unat_eq_iff)
qed simp

lemma le_value_inj: "length xs = length ys \<Longrightarrow> le_value xs = le_value ys \<longleftrightarrow> xs = ys"
  by (induction xs ys rule: list_induct2) (simp_all add: le_value_Cons_inj del: le_value.simps(2))

lemma le_value_byte: "i < length bs \<Longrightarrow> le_value bs div 256 ^ i mod 256 = unat (bs ! i)"
proof (induction bs arbitrary: i)
  case (Cons b bs)
  have "unat b < 256" using unat_bound [of b] by simp
  with Cons show ?case by (cases i) (simp_all add: div_mult2_eq)
qed simp

lemma unat_u64_from_le:
  assumes "length bs = 8"
  shows "unat (u64_from_le_bytes bs) = le_value bs"
  using le_value_less [of bs] assms by (simp add: u64_from_le_bytes_def unsigned_of_nat take_bit_nat_eq_self)

lemma unat_hash_byte: "unat (hash_byte h k) = unat h div 2 ^ k mod 256"
proof -
  have "h' AND 0xFF = take_bit 8 h'" for h' :: u64 by (simp add: take_bit_eq_mask mask_eq_exp_minus_1)
  then have "unat (hash_byte h k) = take_bit 8 (unat (take_bit 8 (drop_bit k h)))"
    by (simp add: hash_byte_def unsigned_ucast_eq)
  then have "unat (hash_byte h k) = take_bit 8 (take_bit 8 (drop_bit k (unat h)))"
    by (simp only: unsigned_take_bit_eq unat_drop_bit_eq)
  then show ?thesis by (simp add: take_bit_eq_mod drop_bit_eq_div)
qed

lemma hash_byte_le:
  assumes "length bs = 8" and "i < 8"
  shows "hash_byte (u64_from_le_bytes bs) (8 * i) = bs ! i"
proof -
  have "unat (hash_byte (u64_from_le_bytes bs) (8 * i)) = le_value bs div 2 ^ (8 * i) mod 256"
    using assms(1) by (simp add: unat_hash_byte unat_u64_from_le)
  also have "\<dots> = unat (bs ! i)"
    using le_value_byte [of i bs] assms by (simp add: power_mult)
  finally show ?thesis by (simp add: word_unat_eq_iff)
qed

lemma u32_from_be_bytes_inj:
  assumes "length xs = 4" and "length ys = 4"
  shows "u32_from_be_bytes xs = u32_from_be_bytes ys \<longleftrightarrow> xs = ys"
  using assms u32_to_from_be_bytes [of xs] u32_to_from_be_bytes [of ys] by metis

lemma v6_from_octets_inj:
  assumes "length xs = 16" and "length ys = 16"
  shows "v6_from_octets xs = v6_from_octets ys \<longleftrightarrow> xs = ys"
proof -
  have "unat (v6_from_octets zs) = le_value (rev zs)" if "length zs = 16" for zs
    using le_value_less [of "rev zs"] that by (simp add: v6_from_octets_def unsigned_of_nat take_bit_nat_eq_self)
  then show ?thesis using assms le_value_inj [of "rev xs" "rev ys"] by (simp add: word_unat_eq_iff)
qed

lemma hex_digit_inj: "m < 16 \<Longrightarrow> n < 16 \<Longrightarrow> hex_digit m = hex_digit n \<longleftrightarrow> m = n"
proof -
  assume lt: "m < 16" "n < 16"
  have val: "of_char (hex_digit k) = (if k < 10 then 48 + k else 87 + k)" if "k < 16" for k :: nat
    using that by (simp add: hex_digit_def of_char_of)
  show ?thesis
  proof
    assume "hex_digit m = hex_digit n"
    then have "(if m < 10 then 48 + m else 87 + m) = (if n < 10 then 48 + n else 87 + n)" using val lt by metis
    then show "m = n" using lt by (simp split: if_splits)
  qed simp
qed

lemma hex_pad_inj: "m < 16 ^ k \<Longrightarrow> n < 16 ^ k \<Longrightarrow> hex_pad k m = hex_pad k n \<longleftrightarrow> m = n"
proof (induction k arbitrary: m n)
  case (Suc k)
  then have "m div 16 < 16 ^ k" "n div 16 < 16 ^ k" by simp_all
  then have "hex_pad (Suc k) m = hex_pad (Suc k) n \<longleftrightarrow> m div 16 = n div 16 \<and> m mod 16 = n mod 16"
    using Suc.IH by (simp add: hex_digit_inj)
  then show ?case by (metis div_mult_mod_eq)
qed simp

subsection \<open>Users, clients and traffic\<close>

definition digest_size :: "mac \<Rightarrow> bool" where
  "digest_size hmac \<longleftrightarrow> (\<forall>k m. length (hmac k m) = 32)"

lemma same_user_iff:
  assumes "digest_size hmac"
  shows "anonymize_username hmac a u = anonymize_username hmac a v \<longleftrightarrow> same_user hmac (an_config a) (an_daily_salt a) u v"
proof -
  have inj: "hex_pad 16 (unat x) = hex_pad 16 (unat y) \<longleftrightarrow> x = y" for x y :: u64
    using unat_bound [of x] unat_bound [of y] by (simp add: hex_pad_inj word_unat_eq_iff)
  have "u64_from_le_bytes (take 8 (hmac k x)) = u64_from_le_bytes (take 8 (hmac k y)) \<longleftrightarrow>
      take 8 (hmac k x) = take 8 (hmac k y)" for k x y
    using assms le_value_inj [of "take 8 (hmac k x)" "take 8 (hmac k y)"]
    by (simp add: word_unat_eq_iff unat_u64_from_le digest_size_def)
  with inj show ?thesis
    by (cases u; cases v) (simp_all add: anonymize_username_def same_user_def)
qed

lemma bucket_magnitude:
  "bucket n = [512, 5 * 1024, 50 * 1024, 500 * 1024, 5 * 1024 * 1024, 50 * 1024 * 1024, 500 * 1024 * 1024, 1024 * 1024 * 1024] ! magnitude n"
  by (simp add: bucket_def magnitude_def word_le_nat_alt)

lemma bucket_eq_iff: "bucket m = bucket n \<longleftrightarrow> magnitude m = magnitude n"
proof -
  let ?sizes = "[512, 5 * 1024, 50 * 1024, 500 * 1024, 5 * 1024 * 1024, 50 * 1024 * 1024, 500 * 1024 * 1024, 1024 * 1024 * 1024 :: u64]"
  have "magnitude k < length ?sizes" for k by (simp add: magnitude_def)
  moreover have "distinct ?sizes" by simp
  ultimately show ?thesis unfolding bucket_magnitude using nth_eq_iff_index_eq by blast
qed

lemma same_traffic_iff:
  "anonymize_stats a s = anonymize_stats a s' \<longleftrightarrow> same_traffic (an_config a) s s'"
  by (cases s; cases s') (simp_all add: anonymize_stats_def same_traffic_def bucket_eq_iff)

lemma three_digits:
  fixes n b :: nat
  assumes "n < b ^ 3"
  shows "n mod b + b * (n div b mod b + b * (n div b ^ 2 mod b)) = n"
proof -
  have "n div b ^ 2 < b" using assms by (simp add: less_mult_imp_div_less power_numeral_reduce)
  then have "n div b mod b + b * (n div b ^ 2 mod b) = n div b"
    by (simp add: div_mult2_eq power2_eq_square)
  then show ?thesis by simp
qed

lemma unat_ucast_u8: "unat (ucast w :: u8) = unat w mod 256"
  by (simp add: unsigned_ucast_eq take_bit_eq_mod)

lemma octets_value:
  defines "octets \<equiv> u32_to_be_bytes"
  shows "le_value [octets a ! 2, octets a ! 1, octets a ! 0] = unat a div 2 ^ 8"
proof -
  have "unat a div 2 ^ 8 < 256 ^ 3" using unat_bound [of a] by (simp add: less_mult_imp_div_less)
  note sum = three_digits [OF this]
  have "unat (ucast (drop_bit k a) :: u8) = unat a div 2 ^ k mod 256" for k
    by (simp only: unat_ucast_u8 unat_drop_bit_eq) (simp add: drop_bit_eq_div)
  from this [of 8] this [of 16] this [of 24]
  have "unat (octets a ! 2) = unat a div 2 ^ 8 mod 256" "unat (octets a ! 1) = unat a div 2 ^ 16 mod 256"
    "unat (octets a ! 0) = unat a div 2 ^ 24 mod 256"
    by (simp_all add: octets_def u32_to_be_bytes_def)
  moreover have "unat a div 2 ^ 8 div 256 = unat a div 2 ^ 16" "unat a div 2 ^ 8 div 256 ^ 2 = unat a div 2 ^ 24"
    by (simp_all flip: div_mult2_eq)
  ultimately show ?thesis using sum by simp
qed

lemma segments_value:
  "v6_segment a 2 + 65536 * (v6_segment a 1 + 65536 * v6_segment a 0) = unat a div 2 ^ 80"
proof -
  have seg: "v6_segment a i = unat a div 2 ^ (112 - 16 * i) mod 65536" for i
  proof -
    have "w AND 0xFFFF = take_bit 16 w" for w :: u128 by (simp add: take_bit_eq_mask mask_eq_exp_minus_1)
    then have "v6_segment a i = take_bit 16 (drop_bit (112 - 16 * i) (unat a))"
      by (simp only: v6_segment_def unsigned_take_bit_eq unat_drop_bit_eq)
    then show ?thesis by (simp add: take_bit_eq_mod drop_bit_eq_div)
  qed
  have "unat a div 2 ^ 80 < 65536 ^ 3" using unat_bound [of a] by (simp add: less_mult_imp_div_less)
  note sum = three_digits [OF this]
  have "unat a div 2 ^ 80 div 65536 = unat a div 2 ^ 96" "unat a div 2 ^ 80 div 65536 ^ 2 = unat a div 2 ^ 112"
    by (simp_all flip: div_mult2_eq)
  then have "v6_segment a 2 = unat a div 2 ^ 80 mod 65536" "v6_segment a 1 = unat a div 2 ^ 80 div 65536 mod 65536"
    "v6_segment a 0 = unat a div 2 ^ 80 div 65536 ^ 2 mod 65536"
    using seg [of 2] seg [of 1] seg [of 0] by simp_all
  with sum show ?thesis by (simp only:)
qed

lemma truncate_v6: "truncate_ip (V6 a) = V6 (of_nat (unat a div 2 ^ 80 * 2 ^ 80))"
proof -
  have "foldl (\<lambda>n g. n * 65536 + g) 0 [x, y, z, 0, 0, 0, 0, 0] = (z + 65536 * (y + 65536 * x)) * 2 ^ 80" for x y z :: nat
    by (simp add: algebra_simps)
  then show ?thesis unfolding truncate_ip_def IpAddr.case from_segments_def by (simp only: segments_value)
qed

lemma same_network_iff: "truncate_ip ip = truncate_ip ip' \<longleftrightarrow> same_network ip ip'"
proof (cases ip)
  case (V4 a)
  show ?thesis
  proof (cases ip')
    case b: (V4 b)
    have "le_value [u32_to_be_bytes a ! 2, u32_to_be_bytes a ! 1, u32_to_be_bytes a ! 0] =
        le_value [u32_to_be_bytes b ! 2, u32_to_be_bytes b ! 1, u32_to_be_bytes b ! 0] \<longleftrightarrow> same_network ip ip'"
      unfolding octets_value using V4 b by simp
    then show ?thesis
      using V4 b by (simp add: le_value_inj truncate_ip_def Let_def u32_from_be_bytes_inj conj_ac del: le_value.simps)
  qed (simp add: V4 truncate_ip_def Let_def)
next
  case (V6 a)
  show ?thesis
  proof (cases ip')
    case b: (V6 b)
    have "unat (of_nat n :: u128) = n" if "n \<le> unat c" for n and c :: u128
      using that unat_bound [of c] by (simp add: unsigned_of_nat take_bit_nat_eq_self)
    from this [OF div_times_less_eq_dividend]
    have "unat (of_nat (unat c div 2 ^ 80 * 2 ^ 80) :: u128) = unat c div 2 ^ 80 * 2 ^ 80" for c :: u128 .
    then show ?thesis using V6 b truncate_v6 by (simp add: word_unat_eq_iff)
  qed (simp add: V6 truncate_ip_def Let_def)
qed

lemma same_digest_iff:
  assumes "digest_size hmac"
  shows "hash_ip hmac a ip = hash_ip hmac a ip' \<longleftrightarrow> same_digest hmac (an_daily_salt a) ip ip'"
proof -
  let ?d = "\<lambda>ip. hmac (an_daily_salt a) (ip_bytes ip)"
  have len: "length (?d ip) = 32" for ip using assms by (simp add: digest_size_def)
  have byte: "hash_byte (u64_from_le_bytes (take 8 (?d ip))) (8 * i) = ?d ip ! i" if "i < 8" for i ip
    using hash_byte_le [of "take 8 (?d ip)" i] that len by simp
  have bytes: "hash_byte (u64_from_le_bytes (take 8 (?d ip))) 0 = ?d ip ! 0"
    "hash_byte (u64_from_le_bytes (take 8 (?d ip))) 8 = ?d ip ! 1" "hash_byte (u64_from_le_bytes (take 8 (?d ip))) 16 = ?d ip ! 2"
    "hash_byte (u64_from_le_bytes (take 8 (?d ip))) 24 = ?d ip ! 3" "hash_byte (u64_from_le_bytes (take 8 (?d ip))) 32 = ?d ip ! 4"
    "hash_byte (u64_from_le_bytes (take 8 (?d ip))) 40 = ?d ip ! 5" "hash_byte (u64_from_le_bytes (take 8 (?d ip))) 48 = ?d ip ! 6"
    "hash_byte (u64_from_le_bytes (take 8 (?d ip))) 56 = ?d ip ! 7" for ip
    using byte [of 0] byte [of 1] byte [of 2] byte [of 3] byte [of 4] byte [of 5] byte [of 6] byte [of 7] by simp_all
  have take8: "take 8 xs = [xs ! 0, xs ! 1, xs ! 2, xs ! 3, xs ! 4, xs ! 5, xs ! 6, xs ! 7]" if "length xs = 32" for xs :: bytes
    using that by (simp add: eval_nat_numeral take_Suc_conv_app_nth)
  show ?thesis
  proof (cases ip; cases ip')
    fix x y assume "ip = V4 x" "ip' = V4 y"
    then show ?thesis by (simp add: hash_ip_def Let_def bytes u32_from_be_bytes_inj)
  next
    fix x y assume ip: "ip = V6 x" "ip' = V6 y"
    then show ?thesis
      unfolding ip hash_ip_def Let_def IpAddr.case bytes
      unfolding same_digest.simps take8 [OF len] by (auto simp: v6_from_octets_inj)
  qed (simp_all add: hash_ip_def Let_def)
qed

lemma same_client_iff:
  assumes "digest_size hmac"
  shows "anonymize_socket_addr hmac a x = anonymize_socket_addr hmac a y \<longleftrightarrow>
         same_client hmac (an_config a) (an_daily_salt a) x y"
  by (simp add: anonymize_socket_addr_def same_client_def same_network_iff same_digest_iff [OF assms])

lemma same_view_iff:
  assumes "digest_size hmac" and "calendar_laws C"
  shows "anonymize_with hmac C a e = anonymize_with hmac C a e' \<longleftrightarrow> same_view hmac (an_config a) (an_daily_salt a) e e'"
  by (cases e; cases e')
    (simp_all add: same_view_def same_client_iff [OF assms(1)] same_user_iff [OF assms(1)] same_traffic_iff
      same_time_iff [OF assms(2)])

lemma rotate_salt_day:
  fixes C :: calendar and now :: date_time
  assumes "an_daily_salt a = generate_salt sha256 (an_current_day a) (an_instance_secret a)"
  defines "a' \<equiv> rotate_salt_if_needed sha256 C now a"
  shows "an_daily_salt a' = generate_salt sha256 (cal_ordinal C now) (an_instance_secret a) \<and>
         an_current_day a' = cal_ordinal C now \<and> an_config a' = an_config a \<and> an_instance_secret a' = an_instance_secret a"
  using assms by (simp add: rotate_salt_if_needed_def Let_def)

section \<open>Properties\<close>


definition sample_calendar :: calendar where
  "sample_calendar = \<lparr>cal_ordinal = (\<lambda>t. of_int (t div DAY)),
     cal_with_minute = (\<lambda>t n. if n < 60 then Some (t div HOUR * HOUR + int n * MINUTE + t mod MINUTE) else None),
     cal_with_second = (\<lambda>t n. if n < 60 then Some (t div MINUTE * MINUTE + int n * SECOND + t mod SECOND) else None),
     cal_with_nanosecond = (\<lambda>t n. if n < 1000000000 then Some (t div SECOND * SECOND + int n) else None)\<rparr>"

lemma sample_calendar_laws: "calendar_laws sample_calendar"
  by (simp add: calendar_laws_def sample_calendar_def)

definition sample_hmac :: mac where
  "sample_hmac key m = take 32 (m @ replicate 32 0)"


end
