(* ===== verification/Connection_Loggers.thy ===== *)
theory Connection_Loggers
  imports Connection_Events "HOL-Library.Sublist"
begin

text \<open>
  The interface of connection loggers and the loggers that keep nothing or keep events in memory
  (\<open>crates/corevpn-server/src/connection_log/logger.rs\<close>, \<open>null_logger.rs\<close> and \<open>memory_logger.rs\<close>).

  An operation takes the state of the logger and returns the result with the new state; the locks
  make every operation one step. Errors are the text of the \<open>anyhow\<close> error. The locale \<open>event_log\<close> is the
  contract of the trait \<open>ConnectionLogger\<close>: whatever is called, the entries a logger keeps are those of
  some of the logged events, in the order of logging.
\<close>

section \<open>The interface\<close>

record LoggerStats =
  events_logged :: u64
  pending_events :: u64
  storage_bytes :: "u64 option"
  oldest_event :: "date_time option"
  newest_event :: "date_time option"

definition LoggerStats_default :: LoggerStats where
  "LoggerStats_default =
     \<lparr>events_logged = 0, pending_events = 0, storage_bytes = None, oldest_event = None, newest_event = None\<rparr>"

text \<open>The calls that change a logger, with the time at which they are made.\<close>

datatype log_call = LogCall date_time ConnectionEvent | FlushCall | CleanupCall date_time

fun logged :: "log_call list \<Rightarrow> ConnectionEvent list" where
  "logged [] = []"
| "logged (LogCall now e # cs) = e # logged cs"
| "logged (FlushCall # cs) = logged cs"
| "logged (CleanupCall now # cs) = logged cs"

lemma logged_append [simp]: "logged (xs @ ys) = logged xs @ logged ys"
  by (induction xs rule: logged.induct) simp_all

locale event_log =
  fixes call :: "log_call \<Rightarrow> 's \<Rightarrow> 's"
    and kept :: "'s \<Rightarrow> 'k list"
    and entry :: "ConnectionEvent \<Rightarrow> 'k"
    and good :: "'s \<Rightarrow> bool"
  assumes good_call: "good s \<Longrightarrow> good (call c s)"
    and kept_log: "good s \<Longrightarrow> subseq (kept (call (LogCall now e) s)) (kept s @ [entry e])"
    and kept_flush: "good s \<Longrightarrow> subseq (kept (call FlushCall s)) (kept s)"
    and kept_cleanup: "good s \<Longrightarrow> subseq (kept (call (CleanupCall now) s)) (kept s)"
begin

lemma good_calls: "good s \<Longrightarrow> good (fold call cs s)"
  by (induction cs arbitrary: s) (simp_all add: good_call)

lemma kept_call: "good s \<Longrightarrow> subseq (kept (call c s)) (kept s @ map entry (logged [c]))"
  by (cases c) (simp_all add: kept_log kept_flush kept_cleanup)

lemma kept_calls: "good s \<Longrightarrow> subseq (kept (fold call cs s)) (kept s @ map entry (logged cs))"
proof (induction cs arbitrary: s)
  case (Cons c cs)
  have "subseq (kept (fold call cs (call c s))) (kept (call c s) @ map entry (logged cs))"
    using Cons good_call by blast
  also have "subseq (kept (call c s) @ map entry (logged cs)) (kept s @ map entry (logged [c]) @ map entry (logged cs))"
    using list_emb_append_mono [OF kept_call [OF Cons.prems] subseq_order.order_refl] by simp
  also have "map entry (logged [c]) @ map entry (logged cs) = map entry (logged (c # cs))"
    using logged_append [of "[c]" cs] by simp
  finally show ?case by simp
qed simp

end

section \<open>The null logger\<close>

record NullConnectionLogger =
  nl_unit :: unit

definition NullConnectionLogger_new :: NullConnectionLogger where
  "NullConnectionLogger_new = \<lparr>nl_unit = ()\<rparr>"

definition null_log :: "ConnectionEvent \<Rightarrow> NullConnectionLogger \<Rightarrow> (string, unit) res \<times> NullConnectionLogger" where
  "null_log e l = (Inr (), l)"

definition null_query_recent :: "nat \<Rightarrow> NullConnectionLogger \<Rightarrow> (string, ConnectionEvent list option) res" where
  "null_query_recent limit l = Inr None"

definition null_query_connection :: "ConnectionId \<Rightarrow> NullConnectionLogger \<Rightarrow> (string, ConnectionEvent list option) res" where
  "null_query_connection i l = Inr None"

definition null_flush :: "NullConnectionLogger \<Rightarrow> (string, unit) res \<times> NullConnectionLogger" where
  "null_flush l = (Inr (), l)"

definition null_cleanup :: "NullConnectionLogger \<Rightarrow> (string, unit) res \<times> NullConnectionLogger" where
  "null_cleanup l = (Inr (), l)"

definition null_stats :: "NullConnectionLogger \<Rightarrow> LoggerStats" where
  "null_stats l = LoggerStats_default"

fun null_call :: "log_call \<Rightarrow> NullConnectionLogger \<Rightarrow> NullConnectionLogger" where
  "null_call (LogCall now e) l = snd (null_log e l)"
| "null_call FlushCall l = snd (null_flush l)"
| "null_call (CleanupCall now) l = snd (null_cleanup l)"

interpretation null: event_log null_call "\<lambda>_. []" id "\<lambda>_. True"
  by unfold_locales simp_all

section \<open>The memory logger\<close>

record MemoryConnectionLogger =
  ml_max_events :: nat
  ml_events :: "ConnectionEvent list"
  ml_total_logged :: u64
  ml_first_event :: "date_time option"
  ml_last_event :: "date_time option"

definition MemoryConnectionLogger_new :: "nat \<Rightarrow> MemoryConnectionLogger" where
  "MemoryConnectionLogger_new max_events =
     \<lparr>ml_max_events = max max_events 100, ml_events = [], ml_total_logged = 0, ml_first_event = None, ml_last_event = None\<rparr>"

definition memory_log :: "ConnectionEvent \<Rightarrow> MemoryConnectionLogger \<Rightarrow> (string, unit) res \<times> MemoryConnectionLogger" where
  "memory_log e l =
     (let timestamp = ev_timestamp e;
          l = (if ml_first_event l = None then l\<lparr>ml_first_event := Some timestamp\<rparr> else l);
          l = l\<lparr>ml_last_event := Some timestamp\<rparr>;
          l = (if length (ml_events l) \<ge> ml_max_events l then l\<lparr>ml_events := tl (ml_events l)\<rparr> else l);
          l = l\<lparr>ml_events := ml_events l @ [e]\<rparr> in
      (Inr (), l\<lparr>ml_total_logged := ml_total_logged l + 1\<rparr>))"

definition memory_query_recent :: "nat \<Rightarrow> MemoryConnectionLogger \<Rightarrow> (string, ConnectionEvent list option) res" where
  "memory_query_recent limit l = Inr (Some (take limit (rev (ml_events l))))"

definition memory_query_connection ::
  "ConnectionId \<Rightarrow> MemoryConnectionLogger \<Rightarrow> (string, ConnectionEvent list option) res" where
  "memory_query_connection i l = Inr (Some (filter (\<lambda>e. ev_connection_id e = i) (ml_events l)))"

definition memory_flush :: "MemoryConnectionLogger \<Rightarrow> (string, unit) res \<times> MemoryConnectionLogger" where
  "memory_flush l = (Inr (), l)"

definition memory_cleanup :: "MemoryConnectionLogger \<Rightarrow> (string, unit) res \<times> MemoryConnectionLogger" where
  "memory_cleanup l = (Inr (), l)"

definition memory_stats :: "MemoryConnectionLogger \<Rightarrow> LoggerStats" where
  "memory_stats l =
     \<lparr>events_logged = ml_total_logged l, pending_events = of_nat (length (ml_events l)),
      storage_bytes = Some (of_nat (length (ml_events l)) * 256),
      oldest_event = ml_first_event l, newest_event = ml_last_event l\<rparr>"

fun memory_call :: "log_call \<Rightarrow> MemoryConnectionLogger \<Rightarrow> MemoryConnectionLogger" where
  "memory_call (LogCall now e) l = snd (memory_log e l)"
| "memory_call FlushCall l = snd (memory_flush l)"
| "memory_call (CleanupCall now) l = snd (memory_cleanup l)"

section \<open>Lemmas\<close>

definition memory_ok :: "MemoryConnectionLogger \<Rightarrow> bool" where
  "memory_ok l \<longleftrightarrow> 0 < ml_max_events l \<and> length (ml_events l) \<le> ml_max_events l"

lemma memory_log_events:
  "ml_events (snd (memory_log e l)) =
     (if length (ml_events l) \<ge> ml_max_events l then tl (ml_events l) else ml_events l) @ [e]"
  by (simp add: memory_log_def Let_def)

lemma memory_log_rest:
  "ml_max_events (snd (memory_log e l)) = ml_max_events l"
  "ml_total_logged (snd (memory_log e l)) = ml_total_logged l + 1"
  "ml_first_event (snd (memory_log e l)) = (if ml_first_event l = None then Some (ev_timestamp e) else ml_first_event l)"
  "ml_last_event (snd (memory_log e l)) = Some (ev_timestamp e)"
  by (simp_all add: memory_log_def Let_def)

interpretation memory: event_log memory_call ml_events id memory_ok
proof
  fix l :: MemoryConnectionLogger and c now e
  assume ok: "memory_ok l"
  show "memory_ok (memory_call c l)"
    using ok by (cases c) (auto simp: memory_ok_def memory_log_events memory_log_rest memory_flush_def memory_cleanup_def)
  have "subseq (tl (ml_events l)) (ml_events l)" by (cases "ml_events l") auto
  then show "subseq (ml_events (memory_call (LogCall now e) l)) (ml_events l @ [id e])"
    by (simp add: memory_log_events)
qed (simp_all add: memory_flush_def memory_cleanup_def)

text \<open>The last \<open>n\<close> elements of a list.\<close>

definition lastn :: "nat \<Rightarrow> 'a list \<Rightarrow> 'a list" where
  "lastn n xs = drop (length xs - n) xs"

lemma lastn_snoc: "0 < n \<Longrightarrow> lastn n (xs @ [x]) = (if length xs < n then xs else tl (lastn n xs)) @ [x]"
  by (cases "length xs < n") (auto simp: lastn_def Suc_diff_le not_less drop_Suc tl_drop)

lemma memory_run:
  defines "l n cs \<equiv> fold memory_call cs (MemoryConnectionLogger_new n)"
  shows "ml_events (l n cs) = lastn (max n 100) (logged cs) \<and> ml_max_events (l n cs) = max n 100 \<and>
         ml_total_logged (l n cs) = of_nat (length (logged cs)) \<and>
         ml_first_event (l n cs) = (case logged cs of [] \<Rightarrow> None | e # _ \<Rightarrow> Some (ev_timestamp e)) \<and>
         ml_last_event (l n cs) = (if logged cs = [] then None else Some (ev_timestamp (last (logged cs))))"
proof (induction cs rule: rev_induct)
  case Nil
  show ?case by (simp add: l_def MemoryConnectionLogger_new_def lastn_def)
next
  case (snoc c cs)
  have run: "l n (cs @ [c]) = memory_call c (l n cs)" for c by (simp add: l_def)
  show ?case
  proof (cases c)
    case (LogCall now e)
    have "lastn (max n 100) (logged cs @ [e]) =
        (if length (lastn (max n 100) (logged cs)) \<ge> max n 100 then tl (lastn (max n 100) (logged cs))
         else lastn (max n 100) (logged cs)) @ [e]"
      by (subst lastn_snoc) (auto simp: lastn_def)
    with snoc LogCall show ?thesis
      by (cases "logged cs") (simp_all add: run memory_log_events memory_log_rest)
  qed (use snoc in \<open>simp_all add: run memory_flush_def memory_cleanup_def\<close>)
qed

section \<open>Properties\<close>

text \<open>
  C40. The memory logger keeps exactly the last events: after any sequence of calls it holds the last
  \<open>max n 100\<close> logged events in order, a query for recent events returns the newest ones first, and a
  query for a connection its events. The total counts every event, and \<open>oldest_event\<close> is the first
  event ever logged, also when it is no longer kept.
\<close>

theorem memory_logger_keeps_last:
  "let l = fold memory_call cs (MemoryConnectionLogger_new n); stored = lastn (max n 100) (logged cs) in
   memory_query_recent limit l = Inr (Some (take limit (rev stored))) \<and>
   memory_query_connection i l = Inr (Some (filter (\<lambda>e. ev_connection_id e = i) stored)) \<and>
   events_logged (memory_stats l) = of_nat (length (logged cs)) \<and>
   oldest_event (memory_stats l) = map_option ev_timestamp (case logged cs of [] \<Rightarrow> None | e # _ \<Rightarrow> Some e)"
  using memory_run [of cs n]
  by (simp add: Let_def memory_query_recent_def memory_query_connection_def memory_stats_def split: list.split)

end
