(* ===== verification/File_Logger.thy ===== *)
theory File_Logger
  imports Connection_Loggers Std_Files "HOL-Library.Countable"
begin

text \<open>
  The logger that appends events to a file and rotates it
  (\<open>crates/corevpn-server/src/connection_log/file_logger.rs\<close>).

  The state is the logger with the file system; \<open>writer\<close> is the text in the buffer of the open file, or
  \<open>None\<close> when no file is open. The JSON coding of the crate \<open>serde_json\<close> is the two arguments \<open>to_json\<close> and
  \<open>from_json\<close>. Any call of the file system may fail (see \<open>Std_Fs\<close>); every error path of the code is a
  branch. A write is one operation: it happens or fails as a whole.
\<close>

section \<open>The logger\<close>

record FileConnectionLogger =
  fl_path :: path
  fl_max_size :: nat
  fl_max_files :: nat
  fl_secure_delete :: bool
  fl_writer :: "string option"
  fl_total_logged :: u64
  fl_pending :: u64
  fl_first_event :: "date_time option"
  fl_last_event :: "date_time option"

type_synonym file_log_state = "FileConnectionLogger \<times> fs"

definition open_file :: "file_log_state \<Rightarrow> (string, unit) res \<times> file_log_state" where
  "open_file s =
     (let (l, fs) = s in
      case fs_open_append (fl_path l) fs of
        (Inl _, fs) \<Rightarrow> (Inl (Err ''Failed to open log file''), (l, fs))
      | (Inr _, fs) \<Rightarrow> (Inr (), (l\<lparr>fl_writer := Some []\<rparr>, fs)))"

definition FileConnectionLogger_new ::
  "path \<Rightarrow> nat \<Rightarrow> nat \<Rightarrow> bool \<Rightarrow> fs \<Rightarrow> (string, FileConnectionLogger) res \<times> fs" where
  "FileConnectionLogger_new p max_size max_files secure fs =
     io_bind (case path_parent p of
        Some parent \<Rightarrow> io_err (\<lambda>_. ''Failed to create log directory'') (fs_create_dir_all parent fs)
      | None \<Rightarrow> (Inr (), fs)) (\<lambda>_ fs.
     let l = \<lparr>fl_path = p, fl_max_size = max max_size (1024 * 1024), fl_max_files = max max_files 1,
              fl_secure_delete = secure, fl_writer = None, fl_total_logged = 0, fl_pending = 0,
              fl_first_event = None, fl_last_event = None\<rparr> in
     case open_file (l, fs) of
       (Inl e, (l, fs)) \<Rightarrow> (Inl e, fs)
     | (Inr _, (l, fs)) \<Rightarrow> (Inr l, fs))"

section \<open>Secure deletion\<close>

text \<open>The loop that writes a block of 4096 bytes until \<open>remaining\<close> bytes are written.\<close>

function overwrite :: "string \<Rightarrow> path \<Rightarrow> nat \<Rightarrow> nat \<Rightarrow> fs \<Rightarrow> (string, unit) res \<times> fs" where
  "overwrite block p pos remaining fs =
     (if remaining = 0 then (Inr (), fs)
      else
        let to_write = min remaining 4096 in
        io_bind (io_err id (fs_write_at p pos (take to_write block) fs)) (\<lambda>_ fs.
        overwrite block p (pos + to_write) (remaining - to_write) fs))"
  by auto
termination
  by (relation "measure (\<lambda>(_, _, _, remaining, _). remaining)") auto

declare overwrite.simps [simp del]

definition zeros :: string where
  "zeros = replicate 4096 CHR 0x00"

definition pattern :: "nat \<Rightarrow> string" where
  "pattern pass = map (\<lambda>i. char_of ((i * 0x5A + pass) mod 256)) [0..<4096]"

definition write_block :: "string \<Rightarrow> path \<Rightarrow> nat \<Rightarrow> fs \<Rightarrow> (string, unit) res \<times> fs" where
  "write_block block p file_size fs =
     io_bind (io_err id (fs_sync fs)) (\<lambda>_ fs.
     io_bind (overwrite block p 0 file_size fs) (\<lambda>_ fs.
     io_err id (fs_sync fs)))"

fun erase_passes :: "path \<Rightarrow> nat \<Rightarrow> nat list \<Rightarrow> fs \<Rightarrow> (string, unit) res \<times> fs" where
  "erase_passes p file_size [] fs = (Inr (), fs)"
| "erase_passes p file_size (pass # passes) fs =
     io_bind (write_block zeros p file_size fs) (\<lambda>_ fs.
     io_bind (if pass < 2 then write_block (pattern pass) p file_size fs else (Inr (), fs)) (\<lambda>_ fs.
     erase_passes p file_size passes fs))"

definition secure_delete_file :: "path \<Rightarrow> fs \<Rightarrow> (string, unit) res \<times> fs" where
  "secure_delete_file p fs =
     (case fs_len p fs of
        (Inl _, fs) \<Rightarrow> (Inr (), fs)
      | (Inr file_size, fs) \<Rightarrow>
          if file_size = 0 then (Inr (), snd (fs_remove_file p fs))
          else
            io_bind (io_err (\<lambda>_. ''Failed to open file for secure delete'') (fs_open_write p fs)) (\<lambda>_ fs.
            io_bind (erase_passes p file_size [0, 1, 2] fs) (\<lambda>_ fs.
            io_err id (fs_remove_file p fs))))"

section \<open>Rotation\<close>

definition rotated :: "FileConnectionLogger \<Rightarrow> nat \<Rightarrow> path" where
  "rotated l i = with_extension (fl_path l) (''log.'' @ string_of_nat i)"

definition rotated_from :: "FileConnectionLogger \<Rightarrow> nat \<Rightarrow> path" where
  "rotated_from l i = (if i = 1 then fl_path l else rotated l (i - 1))"

fun shift_files :: "FileConnectionLogger \<Rightarrow> nat list \<Rightarrow> fs \<Rightarrow> (string, unit) res \<times> fs" where
  "shift_files l [] fs = (Inr (), fs)"
| "shift_files l (i # is) fs =
     (if fs_exists fs (rotated_from l i) then
        io_bind (if fs_exists fs (rotated l i) \<and> fl_secure_delete l then secure_delete_file (rotated l i) fs
                 else (Inr (), fs)) (\<lambda>_ fs.
        shift_files l is (snd (fs_rename (rotated_from l i) (rotated l i) fs)))
      else shift_files l is fs)"

definition delete_oldest :: "FileConnectionLogger \<Rightarrow> fs \<Rightarrow> (string, unit) res \<times> fs" where
  "delete_oldest l fs =
     (let oldest = rotated l (fl_max_files l) in
      if fs_exists fs oldest then
        (if fl_secure_delete l then secure_delete_file oldest fs else (Inr (), snd (fs_remove_file oldest fs)))
      else (Inr (), fs))"

text \<open>Closing: flush what is in the buffer, and drop the writer.\<close>

definition close_writer :: "file_log_state \<Rightarrow> (string, unit) res \<times> file_log_state" where
  "close_writer s =
     (let (l, fs) = s in
      case fl_writer l of
        None \<Rightarrow> (Inr (), s)
      | Some buf \<Rightarrow>
          (case buf_flush (fl_path l) buf fs of
             (Inl e, buf, fs) \<Rightarrow> (Inl (Err e), (l\<lparr>fl_writer := Some buf\<rparr>, fs))
           | (Inr _, _, fs) \<Rightarrow> (Inr (), (l\<lparr>fl_writer := None\<rparr>, fs))))"

definition on_fs :: "FileConnectionLogger \<Rightarrow> ('e, 'a) res \<times> fs \<Rightarrow> ('e, 'a) res \<times> file_log_state" where
  "on_fs l r = (fst r, (l, snd r))"

definition rotate_if_needed :: "file_log_state \<Rightarrow> (string, unit) res \<times> file_log_state" where
  "rotate_if_needed s =
     (let (l, fs) = s in
      case fs_len (fl_path l) fs of
        (Inl _, fs) \<Rightarrow> (Inr (), (l, fs))
      | (Inr file_size, fs) \<Rightarrow>
          if file_size < fl_max_size l then (Inr (), (l, fs))
          else
            io_bind (close_writer (l, fs)) (\<lambda>_ (l, fs).
            io_bind (on_fs l (shift_files l (rev [1..<fl_max_files l]) fs)) (\<lambda>_ (l, fs).
            io_bind (on_fs l (delete_oldest l fs)) (\<lambda>_ s.
            open_file s))))"

section \<open>Logging\<close>

definition write_event :: "(ConnectionEvent \<Rightarrow> string + string) \<Rightarrow> ConnectionEvent \<Rightarrow> file_log_state \<Rightarrow> (string, unit) res \<times> file_log_state" where
  "write_event to_json e s =
     (let (l, fs) = s in
      case fl_writer l of
        None \<Rightarrow> (Inl (Err ''Log file not open''), s)
      | Some buf \<Rightarrow>
          (case to_json e of
             Inl err \<Rightarrow> (Inl (Err err), s)
           | Inr json \<Rightarrow>
               (case buf_write_all 8192 (fl_path l) json buf fs of
                  (Inl err, buf, fs) \<Rightarrow> (Inl (Err err), (l\<lparr>fl_writer := Some buf\<rparr>, fs))
                | (Inr _, buf, fs) \<Rightarrow>
                    (case buf_write_all 8192 (fl_path l) [NL] buf fs of
                       (Inl err, buf, fs) \<Rightarrow> (Inl (Err err), (l\<lparr>fl_writer := Some buf\<rparr>, fs))
                     | (Inr _, buf, fs) \<Rightarrow> (Inr (), (l\<lparr>fl_writer := Some buf, fl_pending := fl_pending l + 1\<rparr>, fs))))))"

definition file_flush :: "file_log_state \<Rightarrow> (string, unit) res \<times> file_log_state" where
  "file_flush s =
     (let (l, fs) = s in
      case fl_writer l of
        None \<Rightarrow> (Inr (), s)
      | Some buf \<Rightarrow>
          (case buf_flush (fl_path l) buf fs of
             (Inl e, buf, fs) \<Rightarrow> (Inl (Err e), (l\<lparr>fl_writer := Some buf\<rparr>, fs))
           | (Inr _, buf, fs) \<Rightarrow> (Inr (), (l\<lparr>fl_writer := Some buf, fl_pending := 0\<rparr>, fs))))"

definition note_times :: "date_time \<Rightarrow> FileConnectionLogger \<Rightarrow> FileConnectionLogger" where
  "note_times t l =
     (let l = (if fl_first_event l = None then l\<lparr>fl_first_event := Some t\<rparr> else l) in l\<lparr>fl_last_event := Some t\<rparr>)"

definition file_log :: "(ConnectionEvent \<Rightarrow> string + string) \<Rightarrow> ConnectionEvent \<Rightarrow> file_log_state \<Rightarrow> (string, unit) res \<times> file_log_state" where
  "file_log to_json e s =
     io_bind (rotate_if_needed (note_times (ev_timestamp e) (fst s), snd s)) (\<lambda>_ s.
     io_bind (write_event to_json e s) (\<lambda>_ (l, fs).
     let l = l\<lparr>fl_total_logged := fl_total_logged l + 1\<rparr> in
     if fl_pending l \<ge> 100 then file_flush (l, fs) else (Inr (), (l, fs))))"

definition file_cleanup :: "file_log_state \<Rightarrow> (string, unit) res \<times> file_log_state" where
  "file_cleanup s = rotate_if_needed s"

definition read_log :: "file_log_state \<Rightarrow> (string, string) res \<times> file_log_state" where
  "read_log s = io_bind (file_flush s) (\<lambda>_ (l, fs). on_fs l (io_err id (fs_read_to_string (fl_path l) fs)))"

definition file_query_recent ::
  "(string \<Rightarrow> ConnectionEvent option) \<Rightarrow> nat \<Rightarrow> file_log_state \<Rightarrow> (string, ConnectionEvent list option) res \<times> file_log_state" where
  "file_query_recent from_json limit s =
     io_bind (read_log s) (\<lambda>content s.
     (Inr (Some (List.map_filter from_json (take limit (rev (str_lines content))))), s))"

definition file_query_connection ::
  "(string \<Rightarrow> ConnectionEvent option) \<Rightarrow> ConnectionId \<Rightarrow> file_log_state \<Rightarrow>
   (string, ConnectionEvent list option) res \<times> file_log_state" where
  "file_query_connection from_json i s =
     io_bind (read_log s) (\<lambda>content s.
     (Inr (Some (filter (\<lambda>e. ev_connection_id e = i) (List.map_filter from_json (str_lines content)))), s))"

definition file_stats :: "file_log_state \<Rightarrow> LoggerStats" where
  "file_stats s =
     (let (l, fs) = s in
      \<lparr>events_logged = fl_total_logged l, pending_events = fl_pending l,
       storage_bytes = (case fst (fs_len (fl_path l) fs) of Inr n \<Rightarrow> Some (of_nat n) | Inl _ \<Rightarrow> None),
       oldest_event = fl_first_event l, newest_event = fl_last_event l\<rparr>)"

definition file_drop :: "file_log_state \<Rightarrow> fs" where
  "file_drop s =
     (let (l, fs) = s in
      case fl_writer l of Some buf \<Rightarrow> snd (snd (buf_flush (fl_path l) buf fs)) | None \<Rightarrow> fs)"

fun file_call :: "(ConnectionEvent \<Rightarrow> string + string) \<Rightarrow> log_call \<Rightarrow> file_log_state \<Rightarrow> file_log_state" where
  "file_call to_json (LogCall now e) s = snd (file_log to_json e s)"
| "file_call to_json FlushCall s = snd (file_flush s)"
| "file_call to_json (CleanupCall now) s = snd (file_cleanup s)"

section \<open>What is on disk\<close>

text \<open>The documented behaviour of the JSON coding: it succeeds, is read back and has no control characters.\<close>

definition json_laws :: "(ConnectionEvent \<Rightarrow> string + string) \<Rightarrow> (string \<Rightarrow> ConnectionEvent option) \<Rightarrow> bool" where
  "json_laws to_json from_json \<longleftrightarrow>
     (\<forall>e. \<exists>j. to_json e = Inr j \<and> from_json j = Some e \<and> NL \<notin> set j \<and> CR \<notin> set j)"

definition json_line :: "(ConnectionEvent \<Rightarrow> string + string) \<Rightarrow> ConnectionEvent \<Rightarrow> string" where
  "json_line to_json e = projr (to_json e)"

definition log_text :: "(ConnectionEvent \<Rightarrow> string + string) \<Rightarrow> ConnectionEvent list \<Rightarrow> string" where
  "log_text to_json es = concat (map (\<lambda>l. l @ [NL]) (map (json_line to_json) es))"

text \<open>
  The generations of the log, newest first: the open file with its buffer holds \<open>gens ! 0\<close>, the i-th
  rotated file \<open>gens ! i\<close>; a missing file holds nothing, and neither do the files after it.
\<close>

definition gapless :: "FileConnectionLogger \<Rightarrow> nat \<Rightarrow> (path \<rightharpoonup> string) \<Rightarrow> bool" where
  "gapless l n m \<longleftrightarrow> (\<forall>i\<in>{1..<n}. m (rotated_from l i) = None \<longrightarrow> m (rotated l i) = None)"

definition archived ::
  "(ConnectionEvent \<Rightarrow> string + string) \<Rightarrow> FileConnectionLogger \<Rightarrow> (path \<rightharpoonup> string) \<Rightarrow> ConnectionEvent list list \<Rightarrow> bool" where
  "archived to_json l m gens \<longleftrightarrow>
     (\<forall>i\<in>{1..<fl_max_files l}.
        m (rotated l i) = Some (log_text to_json (gens ! i)) \<or> m (rotated l i) = None \<and> gens ! i = []) \<and>
     gapless l (fl_max_files l) m \<and> m (rotated l (fl_max_files l)) = None"

definition holds :: "(ConnectionEvent \<Rightarrow> string + string) \<Rightarrow> ConnectionEvent list list \<Rightarrow> file_log_state \<Rightarrow> bool" where
  "holds to_json gens s \<longleftrightarrow>
     (let (l, fs) = s in
      healthy fs \<and> 0 < fl_max_size l \<and> 1 \<le> fl_max_files l \<and> length gens = fl_max_files l \<and>
      \<not> fs_dirs fs (fl_path l) \<and> (\<forall>i. \<not> fs_dirs fs (rotated l i)) \<and>
      (\<exists>c buf. fs_files fs (fl_path l) = Some c \<and> fl_writer l = Some buf \<and> length buf \<le> 8192 \<and>
               c @ buf = log_text to_json (gens ! 0)) \<and>
      archived to_json l (fs_files fs) gens)"

section \<open>Lemmas\<close>

lemma log_text_snoc: "log_text to_json (es @ [e]) = log_text to_json es @ json_line to_json e @ [NL]"
  by (simp add: log_text_def)

lemma log_text_Nil [simp]: "log_text to_json [] = []"
  by (simp add: log_text_def)

lemma json_line_laws:
  assumes "json_laws to_json from_json"
  shows "to_json e = Inr (json_line to_json e)" "from_json (json_line to_json e) = Some e"
    "NL \<notin> set (json_line to_json e)" "CR \<notin> set (json_line to_json e)"
proof -
  obtain j where "to_json e = Inr j \<and> from_json j = Some e \<and> NL \<notin> set j \<and> CR \<notin> set j"
    using assms unfolding json_laws_def by blast
  then show "to_json e = Inr (json_line to_json e)" "from_json (json_line to_json e) = Some e"
    "NL \<notin> set (json_line to_json e)" "CR \<notin> set (json_line to_json e)"
    by (simp_all add: json_line_def)
qed

lemma log_text_lines:
  assumes "json_laws to_json from_json"
  shows "str_lines (log_text to_json es) = map (json_line to_json) es"
    "List.map_filter from_json (map (json_line to_json) es) = es"
proof -
  show "str_lines (log_text to_json es) = map (json_line to_json) es"
    unfolding log_text_def by (rule str_lines_unlines) (use json_line_laws [OF assms] in auto)
  show "List.map_filter from_json (map (json_line to_json) es) = es"
    by (induction es) (simp_all add: List.map_filter_def json_line_laws(2) [OF assms])
qed

subsection \<open>File names\<close>

lemma rotated_neq [simp]: "rotated l i \<noteq> fl_path l" "fl_path l \<noteq> rotated l i" "rotated l i = rotated l j \<longleftrightarrow> i = j"
  using with_extension_log_neq [of "fl_path l" i] with_extension_inj [of "fl_path l" i j]
  by (metis rotated_def)+

lemma rotated_from_neq:
  "i < n \<Longrightarrow> rotated_from l i \<noteq> rotated l n" "1 \<le> i \<Longrightarrow> i < n \<Longrightarrow> rotated_from l i \<noteq> rotated_from l n"
  by (auto simp: rotated_from_def)

lemma rotated_same_path: "fl_path l' = fl_path l \<Longrightarrow> rotated l' = rotated l" "fl_path l' = fl_path l \<Longrightarrow> rotated_from l' = rotated_from l"
  by (simp_all add: rotated_def rotated_from_def fun_eq_iff)

subsection \<open>Secure deletion without faults\<close>

lemma healthy_io:
  assumes "healthy fs"
  shows "fs_sync fs = (Inr (), fs\<lparr>fs_ops := fs_ops fs + 1\<rparr>)"
    "fs_files fs p = Some c \<Longrightarrow> fs_write_at p pos s fs =
       (Inr (), fs\<lparr>fs_ops := fs_ops fs + 1, fs_files := (fs_files fs)(p \<mapsto> take pos c @ s @ drop (pos + length s) c)\<rparr>)"
    "fs_files fs p = Some c \<Longrightarrow> fs_len p fs = (Inr (length c), fs\<lparr>fs_ops := fs_ops fs + 1\<rparr>)"
    "fs_files fs p = Some c \<Longrightarrow> fs_open_write p fs = (Inr (), fs\<lparr>fs_ops := fs_ops fs + 1\<rparr>)"
    "fs_files fs p = Some c \<Longrightarrow> fs_remove_file p fs = (Inr (), fs\<lparr>fs_ops := fs_ops fs + 1, fs_files := (fs_files fs)(p := None)\<rparr>)"
    "fs_files fs p = Some c \<Longrightarrow> fs_rename p q fs =
       (Inr (), fs\<lparr>fs_ops := fs_ops fs + 1, fs_files := (fs_files fs)(p := None, q := Some c)\<rparr>)"
    "fs_files fs p = Some c \<Longrightarrow> fs_read_to_string p fs = (Inr c, fs\<lparr>fs_ops := fs_ops fs + 1\<rparr>)"
  using assms by (simp_all add: fs_sync_def fs_write_at_def fs_len_def fs_open_write_def fs_remove_file_def
      fs_rename_def fs_read_to_string_def healthy_op)

lemma healthy_overwrite:
  assumes "healthy fs" and "fs_files fs p = Some c" and "pos + remaining = length c" and "length block = 4096"
  shows "\<exists>fs' c'. overwrite block p pos remaining fs = (Inr (), fs') \<and> becomes fs ((fs_files fs)(p \<mapsto> c')) fs' \<and>
           length c' = length c \<and> take pos c' = take pos c \<and> set (drop pos c') \<subseteq> set block"
  using assms
proof (induction block p pos remaining fs arbitrary: c rule: overwrite.induct)
  case (1 block p pos remaining fs)
  show ?case
  proof (cases "remaining = 0")
    case True
    then have "overwrite block p pos remaining fs = (Inr (), fs)" by (simp add: overwrite.simps)
    moreover have "becomes fs ((fs_files fs)(p \<mapsto> c)) fs" by (rule becomes_same [OF 1(2,3)])
    moreover have "set (drop pos c) \<subseteq> set block" using 1 True by simp
    ultimately show ?thesis by blast
  next
    case False
    let ?n = "min remaining 4096" and ?b = "take (min remaining 4096) block"
    let ?c = "take pos c @ ?b @ drop (pos + ?n) c"
    let ?fs = "fs\<lparr>fs_ops := fs_ops fs + 1, fs_files := (fs_files fs)(p \<mapsto> ?c)\<rparr>"
    have len: "length ?b = ?n" using 1 by simp
    have step: "fs_write_at p pos ?b fs = (Inr (), ?fs)" using healthy_io(2) [OF 1(2,3), of pos ?b] len by simp
    have lenc: "length ?c = length c" using 1 False by simp
    have "healthy ?fs" "fs_files ?fs p = Some ?c" "pos + ?n + (remaining - ?n) = length ?c" "length block = 4096"
      using 1 lenc by simp_all
    from 1(1) [OF False refl this] obtain fs' c' where
      rest: "overwrite block p (pos + ?n) (remaining - ?n) ?fs = (Inr (), fs')" "becomes ?fs ((fs_files ?fs)(p \<mapsto> c')) fs'"
        "length c' = length ?c" "take (pos + ?n) c' = take (pos + ?n) ?c" "set (drop (pos + ?n) c') \<subseteq> set block" by blast
    have "overwrite block p pos remaining fs = (Inr (), fs')"
      using False rest(1) step by (subst overwrite.simps) (simp add: io_err_def lift_err_def Let_def)
    moreover have "becomes fs ((fs_files fs)(p \<mapsto> c')) fs'" using rest(2) by (simp add: becomes_def)
    moreover have "take pos c' = take pos c"
    proof -
      have "take pos c' = take pos (take (pos + ?n) c')" by simp
      also have "\<dots> = take pos ?c" unfolding rest(4) by simp
      finally show ?thesis using 1 by simp
    qed
    moreover have "set (drop pos c') \<subseteq> set block"
    proof -
      have "drop pos c' = take ?n (drop pos c') @ drop (pos + ?n) c'" by (metis append_take_drop_id drop_drop add.commute)
      moreover have "take ?n (drop pos c') = ?b"
        using rest(4) 1 len by (simp add: take_drop add.commute)
      ultimately show ?thesis using rest(5) set_take_subset [of ?n block] by (metis set_append Un_least)
    qed
    moreover have "length c' = length c" using rest(3) lenc by simp
    ultimately show ?thesis by blast
  qed
qed

lemma healthy_write_block:
  assumes "healthy fs" and "fs_files fs p = Some c" and "length block = 4096"
  shows "\<exists>fs' c'. write_block block p (length c) fs = (Inr (), fs') \<and> becomes fs ((fs_files fs)(p \<mapsto> c')) fs' \<and>
           length c' = length c \<and> set c' \<subseteq> set block"
proof -
  let ?fs = "fs\<lparr>fs_ops := fs_ops fs + 1\<rparr>"
  have "healthy ?fs" "fs_files ?fs p = Some c" "0 + length c = length c" using assms by simp_all
  from healthy_overwrite [OF this assms(3)] obtain fs' c' where
    w: "overwrite block p 0 (length c) ?fs = (Inr (), fs')" "becomes ?fs ((fs_files ?fs)(p \<mapsto> c')) fs'"
      "length c' = length c" "set (drop 0 c') \<subseteq> set block" by blast
  have "healthy fs'" using w(2) by (simp add: becomes_def)
  then have "write_block block p (length c) fs = (Inr (), fs'\<lparr>fs_ops := fs_ops fs' + 1\<rparr>)"
    using w(1) assms(1) by (simp add: write_block_def healthy_io(1) io_err_def lift_err_def)
  moreover have "becomes fs ((fs_files fs)(p \<mapsto> c')) (fs'\<lparr>fs_ops := fs_ops fs' + 1\<rparr>)"
    using w(2) by (simp add: becomes_def)
  ultimately show ?thesis using w(3,4) by auto
qed

lemma healthy_erase:
  assumes "healthy fs" and "fs_files fs p = Some c" and "c \<noteq> []"
  shows "\<exists>fs' c'. erase_passes p (length c) passes fs = (Inr (), fs') \<and> becomes fs ((fs_files fs)(p \<mapsto> c')) fs' \<and>
           length c' = length c \<and> (passes \<noteq> [] \<and> 2 \<le> last passes \<longrightarrow> set c' \<subseteq> {CHR 0x00}) \<and>
           (passes = [] \<longrightarrow> c' = c)"
  using assms
proof (induction passes arbitrary: fs c)
  case Nil
  have "erase_passes p (length c) [] fs = (Inr (), fs)" by simp
  then show ?case using becomes_same [OF Nil(1,2)] by blast
next
  case (Cons pass passes)
  have zeros: "length zeros = 4096" "set zeros = {CHR 0x00}" by (simp_all add: zeros_def)
  have pat: "length (pattern pass) = 4096" by (simp add: pattern_def)
  from healthy_write_block [OF Cons(2,3) zeros(1)] obtain fs1 c1 where
    one: "write_block zeros p (length c) fs = (Inr (), fs1)" "becomes fs ((fs_files fs)(p \<mapsto> c1)) fs1"
      "length c1 = length c" "set c1 \<subseteq> {CHR 0x00}" using zeros by auto
  then have fs1: "healthy fs1" "fs_files fs1 p = Some c1" by (simp_all add: becomes_def)
  from healthy_write_block [OF fs1 pat] one(3) obtain fs2 c2 where
    "write_block (pattern pass) p (length c) fs1 = (Inr (), fs2)" "becomes fs1 ((fs_files fs1)(p \<mapsto> c2)) fs2"
      "length c2 = length c" by auto
  then obtain fs3 c3 where
    two: "(if pass < 2 then write_block (pattern pass) p (length c) fs1 else (Inr (), fs1)) = (Inr (), fs3)"
      "becomes fs1 ((fs_files fs1)(p \<mapsto> c3)) fs3" "length c3 = length c" "2 \<le> pass \<longrightarrow> c3 = c1"
    using becomes_same [OF fs1] one(3) by (cases "pass < 2") auto
  then have fs3: "healthy fs3" "fs_files fs3 p = Some c3" by (simp_all add: becomes_def)
  have "c3 \<noteq> []" using two(3) Cons.prems(3) by auto
  from Cons.IH [OF fs3 this] obtain fs' c' where
    rest: "erase_passes p (length c3) passes fs3 = (Inr (), fs')" "becomes fs3 ((fs_files fs3)(p \<mapsto> c')) fs'"
      "length c' = length c3" "passes \<noteq> [] \<and> 2 \<le> last passes \<longrightarrow> set c' \<subseteq> {CHR 0x00}" "passes = [] \<longrightarrow> c' = c3"
    by blast
  have "erase_passes p (length c) (pass # passes) fs = (Inr (), fs')"
    using one(1) two(1,3) rest(1) by simp
  moreover have "becomes fs ((fs_files fs)(p \<mapsto> c')) fs'" using one(2) two(2) rest(2) by (simp add: becomes_def)
  moreover have "length c' = length c" using rest(3) two(3) by simp
  moreover have "pass # passes \<noteq> [] \<and> 2 \<le> last (pass # passes) \<longrightarrow> set c' \<subseteq> {CHR 0x00}"
    using rest(4,5) two(4) one(4) by (cases "passes = []") simp_all
  ultimately show ?case by blast
qed

lemma healthy_secure_delete:
  assumes "healthy fs" and "fs_files fs p = Some c"
  obtains fs' where "secure_delete_file p fs = (Inr (), fs')" "becomes fs ((fs_files fs)(p := None)) fs'"
proof (cases "c = []")
  case True
  then have "fs_len p fs = (Inr 0, fs\<lparr>fs_ops := fs_ops fs + 1\<rparr>)" using healthy_io(3) [OF assms] by simp
  then have "secure_delete_file p fs = (Inr (), fs\<lparr>fs_ops := fs_ops fs + 2, fs_files := (fs_files fs)(p := None)\<rparr>)"
    using assms by (simp add: secure_delete_file_def healthy_io(5))
  from that [OF this] show ?thesis using assms(1) by (simp add: becomes_def)
next
  case False
  let ?fs = "fs\<lparr>fs_ops := fs_ops fs + 2\<rparr>"
  have fs: "healthy ?fs" "fs_files ?fs p = Some c" using assms by simp_all
  from healthy_erase [OF this False, of "[0, 1, 2]"] obtain fs' c' where
    e: "erase_passes p (length c) [0, 1, 2] ?fs = (Inr (), fs')" "becomes ?fs ((fs_files ?fs)(p \<mapsto> c')) fs'" by blast
  then have fs': "healthy fs'" "fs_files fs' p = Some c'" by (simp_all add: becomes_def)
  have "secure_delete_file p fs = io_bind (erase_passes p (length c) [0, 1, 2] ?fs) (\<lambda>_ fs. io_err id (fs_remove_file p fs))"
    using assms False by (simp add: secure_delete_file_def healthy_io io_err_def lift_err_def)
  with e(1) healthy_io(5) [OF fs']
  have "secure_delete_file p fs = (Inr (), fs'\<lparr>fs_ops := fs_ops fs' + 1, fs_files := (fs_files fs')(p := None)\<rparr>)"
    by (simp add: io_err_def lift_err_def)
  from that [OF this] show ?thesis using e(2) fs'(1) by (simp add: becomes_def)
qed

subsection \<open>Rotation without faults\<close>

text \<open>Each file takes the place of the next one.\<close>

definition shifted :: "FileConnectionLogger \<Rightarrow> nat \<Rightarrow> (path \<rightharpoonup> string) \<Rightarrow> path \<rightharpoonup> string" where
  "shifted l n m q =
     (if q = fl_path l \<and> 2 \<le> n then None
      else if \<exists>i\<in>{1..<n}. q = rotated l i then m (rotated_from l (THE i. q = rotated l i))
      else m q)"

lemma shifted_simps:
  "2 \<le> n \<Longrightarrow> shifted l n m (fl_path l) = None"
  "i \<in> {1..<n} \<Longrightarrow> shifted l n m (rotated l i) = m (rotated_from l i)"
  "n \<le> i \<Longrightarrow> shifted l n m (rotated l i) = m (rotated l i)"
  "shifted l (Suc 0) m = m"
proof -
  show "i \<in> {1..<n} \<Longrightarrow> shifted l n m (rotated l i) = m (rotated_from l i)" by (simp add: shifted_def)
qed (auto simp: shifted_def fun_eq_iff)

lemma shifted_Suc:
  assumes "1 \<le> n"
  shows "shifted l (Suc n) m = shifted l n (m(rotated_from l n := None, rotated l n := m (rotated_from l n)))"
proof
  fix q
  let ?m = "m(rotated_from l n := None, rotated l n := m (rotated_from l n))"
  consider "q = fl_path l" | i where "q = rotated l i" "i \<in> {1..<n}" | "q = rotated l n"
    | "q \<noteq> fl_path l" "\<forall>i\<in>{1..n}. q \<noteq> rotated l i" by fastforce
  then show "shifted l (Suc n) m q = shifted l n ?m q"
  proof cases
    case 1
    then show ?thesis using assms by (cases "n = 1") (simp_all add: shifted_simps rotated_from_def)
  next
    case 2
    then have "?m (rotated_from l i) = m (rotated_from l i)"
      using rotated_from_neq [of i n l] by simp
    then show ?thesis using 2 by (simp add: shifted_simps)
  next
    case 3
    then show ?thesis using assms by (simp add: shifted_simps)
  next
    case 4
    then have "q \<noteq> rotated_from l n" using assms by (auto simp: rotated_from_def)
    moreover have "\<not> (\<exists>i\<in>{1..<n}. q = rotated l i)" "\<not> (\<exists>i\<in>{1..<Suc n}. q = rotated l i)" "q \<noteq> rotated l n"
      using 4 assms by auto
    ultimately show ?thesis using 4(1) by (simp only: shifted_def fun_upd_apply if_False simp_thms)
  qed
qed

lemma gapless_Suc:
  assumes "gapless l (Suc n) m" and "1 \<le> n"
  shows "gapless l n (m(rotated_from l n := None, rotated l n := m (rotated_from l n)))"
  unfolding gapless_def
proof (intro ballI impI)
  fix i assume i: "i \<in> {1..<n}"
    and none: "(m(rotated_from l n := None, rotated l n := m (rotated_from l n))) (rotated_from l i) = None"
  have "rotated_from l i \<noteq> rotated l n" "rotated_from l i \<noteq> rotated_from l n" using i rotated_from_neq [of i n l] by simp_all
  then have "m (rotated_from l i) = None" using none by simp
  then have "m (rotated l i) = None" using assms(1) i by (simp add: gapless_def)
  then show "(m(rotated_from l n := None, rotated l n := m (rotated_from l n))) (rotated l i) = None" using i by simp
qed

lemma healthy_shift:
  assumes "healthy fs" and "gapless l n (fs_files fs)" and "\<forall>i. \<not> fs_dirs fs (rotated l i)" and "\<not> fs_dirs fs (fl_path l)"
    and "1 \<le> n"
  shows "\<exists>fs'. shift_files l (rev [1..<n]) fs = (Inr (), fs') \<and> becomes fs (shifted l n (fs_files fs)) fs'"
  using assms(5,1-4)
proof (induction n arbitrary: fs rule: dec_induct)
  case base
  then show ?case by (auto simp: shifted_simps becomes_def)
next
  case (step n)
  let ?m = "(fs_files fs)(rotated_from l n := None, rotated l n := fs_files fs (rotated_from l n))"
  have dirs: "\<not> fs_dirs fs (rotated_from l n)" using step.prems(3,4) by (simp add: rotated_from_def)
  have split: "rev [1..<Suc n] = n # rev [1..<n]" using step.hyps by simp
  have neq: "rotated_from l n \<noteq> rotated l n" using step.hyps by (auto simp: rotated_from_def)
  obtain fs1 where fs1: "shift_files l (rev [1..<Suc n]) fs = shift_files l (rev [1..<n]) fs1" "becomes fs ?m fs1"
  proof (cases "fs_files fs (rotated_from l n)")
    case None
    then have "fs_files fs (rotated l n) = None" using step.prems(2) step.hyps by (simp add: gapless_def)
    then have "becomes fs ?m fs" using None step.prems(1) by (simp add: becomes_def fun_upd_idem)
    moreover have "shift_files l (rev [1..<Suc n]) fs = shift_files l (rev [1..<n]) fs"
      using None dirs unfolding split by (simp add: fs_exists_def)
    ultimately show ?thesis using that by blast
  next
    case (Some c)
    obtain fs0 where fs0: "(if fs_exists fs (rotated l n) \<and> fl_secure_delete l then secure_delete_file (rotated l n) fs
        else (Inr (), fs)) = (Inr (), fs0)" "healthy fs0" "fs_dirs fs0 = fs_dirs fs"
        "fs_files fs0 = (fs_files fs)(rotated l n := fs_files fs0 (rotated l n))"
    proof (cases "fs_exists fs (rotated l n) \<and> fl_secure_delete l")
      case True
      then obtain d where "fs_files fs (rotated l n) = Some d" using step.prems(3) by (auto simp: fs_exists_def)
      from healthy_secure_delete [OF step.prems(1) this] obtain fs0 where
        "secure_delete_file (rotated l n) fs = (Inr (), fs0)" "becomes fs ((fs_files fs)(rotated l n := None)) fs0" by blast
      with True that [of fs0] show ?thesis by (simp add: becomes_def)
    next
      case False
      from that [of fs] False step.prems(1) show ?thesis by simp
    qed
    have c: "fs_files fs0 (rotated_from l n) = Some c"
      using fs0(4) Some neq by (metis fun_upd_other)
    let ?fs1 = "fs0\<lparr>fs_ops := fs_ops fs0 + 1, fs_files := (fs_files fs0)(rotated_from l n := None, rotated l n := Some c)\<rparr>"
    have "shift_files l (rev [1..<Suc n]) fs = shift_files l (rev [1..<n]) ?fs1"
      using Some fs0(1) healthy_io(6) [OF fs0(2) c] unfolding split by (simp add: fs_exists_def)
    moreover have "becomes fs ?m ?fs1"
    proof -
      have "(fs_files fs0)(rotated_from l n := None, rotated l n := Some c) = ?m"
        using Some neq by (subst fs0(4)) (simp add: fun_upd_twist)
      then show ?thesis using fs0(2,3) by (simp add: becomes_def)
    qed
    ultimately show ?thesis by (rule that)
  qed
  have files: "fs_files fs1 = ?m" "fs_dirs fs1 = fs_dirs fs" "healthy fs1" using fs1(2) by (simp_all add: becomes_def)
  have "gapless l n (fs_files fs1)" unfolding files(1) by (rule gapless_Suc [OF step.prems(2) step.hyps(1)])
  from step.IH [OF files(3) this] step.prems(3,4) files(2) obtain fs' where
    "shift_files l (rev [1..<n]) fs1 = (Inr (), fs')" "becomes fs1 (shifted l n (fs_files fs1)) fs'" by auto
  then show ?case
    using fs1 files shifted_Suc [OF step.hyps(1), of l "fs_files fs"] by (simp add: becomes_def)
qed

subsection \<open>Logging without faults\<close>

lemma archived_current:
  assumes "archived to_json l m gens" and "m (fl_path l) \<noteq> None"
  shows "archived to_json l (m(fl_path l \<mapsto> c)) gens"
proof -
  have "gapless l n (m(fl_path l \<mapsto> c))" if "gapless l n m" for n
    using that assms(2) by (auto simp: gapless_def rotated_from_def split: if_splits)
  then show ?thesis using assms(1) by (simp add: archived_def)
qed

lemma archived_gens0: "archived to_json l m gens \<Longrightarrow> tl gens = tl gens' \<Longrightarrow> length gens = length gens' \<Longrightarrow> archived to_json l m gens'"
proof -
  assume a: "archived to_json l m gens" "tl gens = tl gens'" "length gens = length gens'"
  have "gens ! i = gens' ! i" if "i \<in> {1..<fl_max_files l}" for i
    using a(2,3) that by (cases i; cases gens; cases gens') auto
  with a(1) show ?thesis by (simp add: archived_def)
qed

lemma archived_shift:
  assumes "archived to_json l m gens" and "m (fl_path l) = Some (log_text to_json (gens ! 0))"
    and "length gens = fl_max_files l" and "2 \<le> fl_max_files l"
  shows "archived to_json l ((shifted l (fl_max_files l) m)(fl_path l \<mapsto> [])) ([] # butlast gens)"
  unfolding archived_def
proof (intro conjI ballI)
  let ?n = "fl_max_files l" and ?m = "(shifted l (fl_max_files l) m)(fl_path l \<mapsto> [])"
  have at: "?m (rotated l i) = m (rotated_from l i)" if "i \<in> {1..<?n}" for i
    using shifted_simps(2) [OF that] by simp
  show "?m (rotated l i) = Some (log_text to_json (([] # butlast gens) ! i)) \<or> ?m (rotated l i) = None \<and> ([] # butlast gens) ! i = []"
    if i: "i \<in> {1..<?n}" for i
  proof -
    have gen: "([] # butlast gens) ! i = gens ! (i - 1)"
      using i assms(3) by (cases i) (simp_all add: nth_butlast)
    show ?thesis
    proof (cases "i = 1")
      case True
      then show ?thesis using at [OF i] assms(2) gen by (simp add: rotated_from_def)
    next
      case False
      then have "i - 1 \<in> {1..<?n}" using i by auto
      then show ?thesis using at [OF i] gen False assms(1) by (simp add: archived_def rotated_from_def)
    qed
  qed
  show "gapless l ?n ?m"
    unfolding gapless_def
  proof (intro ballI impI)
    fix i assume i: "i \<in> {1..<?n}" and none: "?m (rotated_from l i) = None"
    then have "i \<noteq> 1" by (auto simp: rotated_from_def)
    then have i': "i - 1 \<in> {1..<?n}" "rotated_from l i = rotated l (i - 1)" using i by (auto simp: rotated_from_def)
    then have "m (rotated_from l (i - 1)) = None" using none at [OF i'(1)] by simp
    then have "m (rotated l (i - 1)) = None" using assms(1) i'(1) by (simp add: archived_def gapless_def)
    then show "?m (rotated l i) = None" using at [OF i] i'(2) by simp
  qed
  show "?m (rotated l ?n) = None" using assms(1) by (simp add: shifted_simps archived_def)
qed

definition same_setup :: "FileConnectionLogger \<Rightarrow> FileConnectionLogger \<Rightarrow> bool" where
  "same_setup l l' \<longleftrightarrow> fl_path l' = fl_path l \<and> fl_max_size l' = fl_max_size l \<and> fl_max_files l' = fl_max_files l"

lemma archived_setup: "same_setup l l' \<Longrightarrow> archived to_json l' = archived to_json l"
  by (simp add: same_setup_def archived_def gapless_def fun_eq_iff rotated_same_path [of l' l])

lemma open_file_holds:
  assumes "healthy fs" and "\<not> fs_dirs fs (fl_path l)"
  obtains fs' where "open_file (l, fs) = (Inr (), (l\<lparr>fl_writer := Some []\<rparr>, fs'))"
    "becomes fs ((fs_files fs)(fl_path l \<mapsto> (case fs_files fs (fl_path l) of Some c \<Rightarrow> c | None \<Rightarrow> []))) fs'"
proof (cases "fs_files fs (fl_path l)")
  case None
  have "open_file (l, fs) = (Inr (), (l\<lparr>fl_writer := Some []\<rparr>, fs\<lparr>fs_ops := fs_ops fs + 1, fs_files := (fs_files fs)(fl_path l \<mapsto> [])\<rparr>))"
    using assms None by (simp add: open_file_def fs_open_append_def healthy_op)
  from that [OF this] show ?thesis using assms None by (simp add: becomes_def)
next
  case (Some c)
  have "open_file (l, fs) = (Inr (), (l\<lparr>fl_writer := Some []\<rparr>, fs\<lparr>fs_ops := fs_ops fs + 1\<rparr>))"
    using assms Some by (simp add: open_file_def fs_open_append_def healthy_op)
  from that [OF this] show ?thesis using assms Some by (simp add: becomes_def fun_upd_idem)
qed

lemma holdsE:
  assumes "holds to_json gens (l, fs)"
  obtains c buf where "healthy fs" "0 < fl_max_size l" "1 \<le> fl_max_files l" "length gens = fl_max_files l"
    "\<not> fs_dirs fs (fl_path l)" "\<forall>i. \<not> fs_dirs fs (rotated l i)" "archived to_json l (fs_files fs) gens"
    "fs_files fs (fl_path l) = Some c" "fl_writer l = Some buf" "length buf \<le> 8192" "c @ buf = log_text to_json (gens ! 0)"
  using assms by (auto simp: holds_def)

text \<open>Rotation: nothing changes, or the files move up by one and the current file starts anew.\<close>

lemma rotate_holds:
  assumes "holds to_json gens (l, fs)"
  obtains l' fs' gens' c where "rotate_if_needed (l, fs) = (Inr (), (l', fs'))" "holds to_json gens' (l', fs')" "same_setup l l'"
    "gens' = gens \<or> 2 \<le> fl_max_files l \<and> gens' = [] # butlast gens \<and> fl_max_size l \<le> length (log_text to_json (gens ! 0))"
    "fs_files fs' (fl_path l) = Some c" "2 \<le> fl_max_files l \<longrightarrow> length c < fl_max_size l"
proof -
  let ?n = "fl_max_files l" and ?fs1 = "fs\<lparr>fs_ops := fs_ops fs + 1\<rparr>"
  from holdsE [OF assms] obtain c buf where h: "healthy fs" "0 < fl_max_size l" "1 \<le> ?n" "length gens = ?n"
    "\<not> fs_dirs fs (fl_path l)" "\<forall>i. \<not> fs_dirs fs (rotated l i)" "archived to_json l (fs_files fs) gens"
    "fs_files fs (fl_path l) = Some c" "fl_writer l = Some buf" "length buf \<le> 8192" "c @ buf = log_text to_json (gens ! 0)" .
  note len = healthy_io(3) [OF h(1,8)]
  show ?thesis
  proof (cases "length c < fl_max_size l")
    case True
    have "rotate_if_needed (l, fs) = (Inr (), (l, ?fs1))" using len True by (simp add: rotate_if_needed_def)
    moreover have "holds to_json gens (l, ?fs1)" using h by (auto simp: holds_def)
    ultimately show ?thesis using that [of l ?fs1 gens c] True h(8) by (simp add: same_setup_def)
  next
    case False
    let ?l2 = "l\<lparr>fl_writer := None\<rparr>" and ?l' = "l\<lparr>fl_writer := Some []\<rparr>"
    have same: "same_setup l ?l2" "same_setup l ?l'" by (simp_all add: same_setup_def)
    note rot = rotated_same_path [of ?l2 l] rotated_same_path [of ?l' l]
    have "healthy ?fs1" "fs_files ?fs1 (fl_path l) = Some c" using h by simp_all
    then obtain fs2 where fs2: "buf_flush (fl_path l) buf ?fs1 = (Inr (), [], fs2)"
      "becomes ?fs1 ((fs_files ?fs1)(fl_path l \<mapsto> c @ buf)) fs2" using healthy_buf_flush by blast
    let ?m2 = "(fs_files fs)(fl_path l \<mapsto> log_text to_json (gens ! 0))"
    have closed: "close_writer (l, ?fs1) = (Inr (), (?l2, fs2))" using h(9) fs2(1) by (simp add: close_writer_def)
    have m2: "fs_files fs2 = ?m2" "fs_dirs fs2 = fs_dirs fs" "healthy fs2" using fs2(2) h(11) by (simp_all add: becomes_def)
    have arch2: "archived to_json l ?m2 gens" by (rule archived_current) (use h in simp_all)
    then have "gapless ?l2 ?n (fs_files fs2)" unfolding m2 by (simp add: archived_def gapless_def rot)
    from healthy_shift [OF m2(3) this _ _ h(3)] h(5,6) m2(2) obtain fs3 where
      fs3: "shift_files ?l2 (rev [1..<?n]) fs2 = (Inr (), fs3)" "becomes fs2 (shifted ?l2 ?n ?m2) fs3"
      using m2(1) by (auto simp: rot)
    have same_shift: "shifted ?l2 = shifted l" by (simp add: shifted_def fun_eq_iff rot)
    have m3: "fs_files fs3 = shifted l ?n ?m2" "fs_dirs fs3 = fs_dirs fs" "healthy fs3"
      using fs3(2) m2 same_shift by (simp_all add: becomes_def)
    have "fs_files fs3 (rotated l ?n) = None" using arch2 by (simp add: m3 shifted_simps archived_def)
    then have oldest: "delete_oldest ?l2 fs3 = (Inr (), fs3)"
      using h(6) m3(2) by (simp add: delete_oldest_def fs_exists_def rot)
    obtain fs4 where fs4: "open_file (?l2, fs3) = (Inr (), (?l', fs4))"
      "becomes fs3 ((fs_files fs3)(fl_path l \<mapsto> (case fs_files fs3 (fl_path l) of Some c \<Rightarrow> c | None \<Rightarrow> []))) fs4"
      using open_file_holds [OF m3(3), of ?l2] h(5) m3(2) by auto
    have rotation: "rotate_if_needed (l, fs) = (Inr (), (?l', fs4))"
      using len False closed fs3(1) oldest fs4(1) by (simp add: rotate_if_needed_def on_fs_def)
    have dirs: "healthy fs4" "\<not> fs_dirs fs4 (fl_path l)" "\<forall>i. \<not> fs_dirs fs4 (rotated l i)"
      using fs4(2) m3(2) h(5,6) by (simp_all add: becomes_def)
    show ?thesis
    proof (cases "2 \<le> ?n")
      case True
      then have files: "fs_files fs4 = (shifted l ?n ?m2)(fl_path l \<mapsto> [])"
        using fs4(2) by (simp add: becomes_def m3 shifted_simps)
      then have "archived to_json l (fs_files fs4) ([] # butlast gens)"
        using archived_shift [OF arch2 _ h(4) True] by simp
      then have "holds to_json ([] # butlast gens) (?l', fs4)"
        using files dirs h(2-4) True by (simp add: holds_def archived_setup [OF same(2)] rot)
      moreover have "fl_max_size l \<le> length (log_text to_json (gens ! 0))"
        using \<open>\<not> length c < fl_max_size l\<close> h(11) by (metis length_append not_less trans_le_add1)
      ultimately show ?thesis using that [OF rotation _ same(2)] True files h(2) by simp
    next
      case False
      then have one: "?n = Suc 0" using h(3) by simp
      then have files: "fs_files fs4 = ?m2" using fs4(2) by (simp add: becomes_def m3 shifted_simps fun_upd_idem)
      then have "holds to_json gens (?l', fs4)"
        using arch2 dirs h(2-4) by (simp add: holds_def archived_setup [OF same(2)] rot)
      then show ?thesis using that [OF rotation _ same(2)] False files by simp
    qed
  qed
qed

lemma holds_same:
  "same_setup l l' \<Longrightarrow> fl_writer l' = fl_writer l \<Longrightarrow> holds to_json gens (l', fs) = holds to_json gens (l, fs)"
  using rotated_same_path [of l' l] by (simp add: holds_def archived_setup) (simp add: same_setup_def)

lemma same_setup_trans: "same_setup a b \<Longrightarrow> same_setup b c \<Longrightarrow> same_setup a c"
  by (simp add: same_setup_def)

text \<open>A change of the open file and its buffer.\<close>

lemma holds_current:
  assumes "holds to_json gens (l, fs)" and "becomes fs ((fs_files fs)(fl_path l \<mapsto> c)) fs'" and "length buf \<le> 8192"
    and "same_setup l l'" and "fl_writer l' = Some buf" and "c @ buf = log_text to_json es"
  shows "holds to_json (es # tl gens) (l', fs')"
proof -
  from assms(1) have arch: "archived to_json l (fs_files fs) gens" "fs_files fs (fl_path l) \<noteq> None" "length gens = fl_max_files l"
    "1 \<le> fl_max_files l" "0 < fl_max_size l" "\<not> fs_dirs fs (fl_path l)" "\<forall>i. \<not> fs_dirs fs (rotated l i)"
    by (auto simp: holds_def)
  have "archived to_json l ((fs_files fs)(fl_path l \<mapsto> c)) (es # tl gens)"
    by (rule archived_gens0 [OF archived_current [OF arch(1,2)]]) (use arch(3,4) in \<open>cases gens; simp\<close>)+
  moreover have "length (es # tl gens) = fl_max_files l" using arch(3,4) by (cases gens) auto
  ultimately show ?thesis
    using assms(2-) arch rotated_same_path [of l' l]
    by (simp add: holds_def archived_setup [OF assms(4)] becomes_def) (simp add: same_setup_def)
qed

lemma write_holds:
  assumes "json_laws to_json from_json" and "holds to_json gens (l, fs)"
  obtains l' fs' where "write_event to_json e (l, fs) = (Inr (), (l', fs'))"
    "holds to_json ((gens ! 0 @ [e]) # tl gens) (l', fs')" "same_setup l l'"
proof -
  note json = json_line_laws(1) [OF assms(1), of e]
  from holdsE [OF assms(2)] obtain c buf where h: "healthy fs" "fs_files fs (fl_path l) = Some c" "fl_writer l = Some buf"
    "length buf \<le> 8192" "c @ buf = log_text to_json (gens ! 0)" by blast
  from healthy_buf_write [OF h(1,2,4), of "json_line to_json e"] obtain fs1 c1 buf1 where
    w1: "buf_write_all 8192 (fl_path l) (json_line to_json e) buf fs = (Inr (), buf1, fs1)"
      "becomes fs ((fs_files fs)(fl_path l \<mapsto> c1)) fs1" "c1 @ buf1 = c @ buf @ json_line to_json e" "length buf1 \<le> 8192" .
  then have fs1: "healthy fs1" "fs_files fs1 (fl_path l) = Some c1" by (simp_all add: becomes_def)
  from healthy_buf_write [OF fs1 w1(4), of "[NL]"] obtain fs2 c2 buf2 where
    w2: "buf_write_all 8192 (fl_path l) [NL] buf1 fs1 = (Inr (), buf2, fs2)"
      "becomes fs1 ((fs_files fs1)(fl_path l \<mapsto> c2)) fs2" "c2 @ buf2 = c1 @ buf1 @ [NL]" "length buf2 \<le> 8192" .
  let ?l = "l\<lparr>fl_writer := Some buf2, fl_pending := fl_pending l + 1\<rparr>"
  have "write_event to_json e (l, fs) = (Inr (), (?l, fs2))"
    using h(3) json w1(1) w2(1) by (simp add: write_event_def)
  moreover have same: "same_setup l ?l" by (simp add: same_setup_def)
  moreover have "holds to_json ((gens ! 0 @ [e]) # tl gens) (?l, fs2)"
  proof (rule holds_current [OF assms(2) _ w2(4) same])
    show "becomes fs ((fs_files fs)(fl_path l \<mapsto> c2)) fs2" using w1(2) w2(2) by (simp add: becomes_def)
    have "c2 @ buf2 = (c @ buf) @ json_line to_json e @ [NL]" using w1(3) w2(3) by (metis append.assoc)
    then show "c2 @ buf2 = log_text to_json (gens ! 0 @ [e])" using h(5) by (simp add: log_text_snoc)
  qed simp
  ultimately show ?thesis using that by blast
qed

lemma flush_holds:
  assumes "holds to_json gens (l, fs)"
  obtains l' fs' where "file_flush (l, fs) = (Inr (), (l', fs'))" "holds to_json gens (l', fs')" "same_setup l l'"
    "fl_writer l' = Some []"
proof -
  from holdsE [OF assms] obtain c buf where h: "healthy fs" "fs_files fs (fl_path l) = Some c" "fl_writer l = Some buf"
    "length buf \<le> 8192" "c @ buf = log_text to_json (gens ! 0)" by blast
  obtain fs1 where w: "buf_flush (fl_path l) buf fs = (Inr (), [], fs1)"
      "becomes fs ((fs_files fs)(fl_path l \<mapsto> c @ buf)) fs1"
    using healthy_buf_flush [OF h(1,2)] by blast
  let ?l = "l\<lparr>fl_writer := Some [], fl_pending := 0\<rparr>"
  have gens: "gens = gens ! 0 # tl gens" using assms by (cases gens) (auto simp: holds_def)
  have same: "same_setup l ?l" by (simp add: same_setup_def)
  have "holds to_json (gens ! 0 # tl gens) (?l, fs1)"
    by (rule holds_current [OF assms w(2) _ same]) (simp_all add: h(5))
  then have "holds to_json gens (?l, fs1)" using gens by simp
  then show ?thesis using that [of ?l fs1] w(1) h(3) same by (simp add: file_flush_def)
qed

text \<open>What one logged event does to the generations.\<close>

definition grown ::
  "(ConnectionEvent \<Rightarrow> string + string) \<Rightarrow> FileConnectionLogger \<Rightarrow> ConnectionEvent \<Rightarrow> ConnectionEvent list list \<Rightarrow>
   ConnectionEvent list list \<Rightarrow> bool" where
  "grown to_json l e gens gens' \<longleftrightarrow>
     gens' = (gens ! 0 @ [e]) # tl gens \<or>
     2 \<le> fl_max_files l \<and> gens' = [e] # butlast gens \<and> fl_max_size l \<le> length (log_text to_json (gens ! 0))"

lemma log_holds:
  assumes "json_laws to_json from_json" and "holds to_json gens (l, fs)"
  obtains l' fs' gens' where "file_log to_json e (l, fs) = (Inr (), (l', fs'))" "holds to_json gens' (l', fs')" "same_setup l l'"
    "grown to_json l e gens gens'"
    "2 \<le> fl_max_files l \<longrightarrow> length (log_text to_json (gens' ! 0)) < fl_max_size l + 8192 + length (json_line to_json e) + 1"
proof -
  let ?l0 = "note_times (ev_timestamp e) l"
  have same0: "same_setup l ?l0" "fl_writer ?l0 = fl_writer l" by (simp_all add: note_times_def Let_def same_setup_def)
  then have "holds to_json gens (?l0, fs)" using assms(2) holds_same by blast
  then obtain l1 fs1 gens1 c where r: "rotate_if_needed (?l0, fs) = (Inr (), (l1, fs1))" "holds to_json gens1 (l1, fs1)"
    "same_setup ?l0 l1"
    "gens1 = gens \<or> 2 \<le> fl_max_files ?l0 \<and> gens1 = [] # butlast gens \<and> fl_max_size ?l0 \<le> length (log_text to_json (gens ! 0))"
    "fs_files fs1 (fl_path ?l0) = Some c" "2 \<le> fl_max_files ?l0 \<longrightarrow> length c < fl_max_size ?l0" by (rule rotate_holds)
  obtain l2 fs2 where w: "write_event to_json e (l1, fs1) = (Inr (), (l2, fs2))"
    "holds to_json ((gens1 ! 0 @ [e]) # tl gens1) (l2, fs2)" "same_setup l1 l2" by (rule write_holds [OF assms(1) r(2)])
  let ?gens = "(gens1 ! 0 @ [e]) # tl gens1" and ?l3 = "l2\<lparr>fl_total_logged := fl_total_logged l2 + 1\<rparr>"
  have "same_setup l2 ?l3" "fl_writer ?l3 = fl_writer l2" by (simp_all add: same_setup_def)
  then have h3: "holds to_json ?gens (?l3, fs2)" using w(2) holds_same by blast
  then obtain l4 fs4 where f: "file_flush (?l3, fs2) = (Inr (), (l4, fs4))" "holds to_json ?gens (l4, fs4)" "same_setup ?l3 l4"
    by (rule flush_holds)
  have same: "same_setup l ?l3" "same_setup l l4"
    using same0(1) r(3) w(3) f(3) by (simp_all add: same_setup_def)
  have grown: "grown to_json l e gens ?gens" using r(4) same0(1) by (auto simp: grown_def same_setup_def)
  have size: "length (log_text to_json (gens1 ! 0)) < fl_max_size l + 8192" if "2 \<le> fl_max_files l"
  proof -
    from holdsE [OF r(2)] obtain c' buf where "fs_files fs1 (fl_path l1) = Some c'" "length buf \<le> 8192"
      "c' @ buf = log_text to_json (gens1 ! 0)" by blast
    moreover have "c' = c" using calculation(1) r(3,5) by (simp add: same_setup_def)
    moreover have "length c < fl_max_size l" using that r(6) same0(1) by (simp add: same_setup_def)
    ultimately show ?thesis by (metis add_less_le_mono length_append)
  qed
  have run: "file_log to_json e (l, fs) = (if fl_pending ?l3 \<ge> 100 then file_flush (?l3, fs2) else (Inr (), (?l3, fs2)))"
    using r(1) w(1) by (simp add: file_log_def)
  have bound: "2 \<le> fl_max_files l \<longrightarrow> length (log_text to_json (?gens ! 0)) < fl_max_size l + 8192 + length (json_line to_json e) + 1"
    using size by (auto simp: log_text_snoc add.commute)
  show ?thesis
  proof (cases "fl_pending ?l3 \<ge> 100")
    case True
    then have "file_log to_json e (l, fs) = (Inr (), (l4, fs4))" using run f(1) by simp
    then show ?thesis using that f(2) same(2) grown bound by blast
  next
    case False
    then have "file_log to_json e (l, fs) = (Inr (), (?l3, fs2))" using run by simp
    then show ?thesis using that h3 same(1) grown bound by blast
  qed
qed

subsection \<open>What is kept\<close>

text \<open>
  Generations and history: the older generations are full files followed by empty ones, all together a
  suffix of the history, and the whole history as long as there is an empty one.
\<close>

definition tidy :: "(ConnectionEvent \<Rightarrow> string + string) \<Rightarrow> nat \<Rightarrow> ConnectionEvent list \<Rightarrow> ConnectionEvent list list \<Rightarrow> bool" where
  "tidy to_json M hist gens \<longleftrightarrow>
     (\<exists>g fulls k. gens = g # fulls @ replicate k [] \<and> (\<forall>f\<in>set fulls. M \<le> length (log_text to_json f)) \<and>
        suffix (concat (rev gens)) hist \<and> (0 < k \<or> fulls = [] \<longrightarrow> concat (rev gens) = hist))"

lemma log_text_append: "log_text to_json (xs @ ys) = log_text to_json xs @ log_text to_json ys"
  by (simp add: log_text_def)

lemma tidy_grow:
  assumes "tidy to_json M hist (g # rs)"
  shows "tidy to_json M (hist @ [e]) ((g @ [e]) # rs)"
proof -
  from assms obtain fulls k where t: "rs = fulls @ replicate k []" "\<forall>f\<in>set fulls. M \<le> length (log_text to_json f)"
    "suffix (concat (rev (g # rs))) hist" "0 < k \<or> fulls = [] \<longrightarrow> concat (rev (g # rs)) = hist"
    unfolding tidy_def by blast
  have "concat (rev ((g @ [e]) # rs)) = concat (rev (g # rs)) @ [e]" by simp
  with t show ?thesis unfolding tidy_def by (intro exI [of _ "g @ [e]"] exI [of _ fulls] exI [of _ k]) auto
qed

lemma tidy_rotate:
  assumes "tidy to_json M hist gens" and "2 \<le> length gens" and "M \<le> length (log_text to_json (gens ! 0))"
  shows "tidy to_json M hist ([] # butlast gens)"
proof -
  from assms(1) obtain g fulls k where t: "gens = g # fulls @ replicate k []" "\<forall>f\<in>set fulls. M \<le> length (log_text to_json f)"
    "suffix (concat (rev gens)) hist" "0 < k \<or> fulls = [] \<longrightarrow> concat (rev gens) = hist"
    unfolding tidy_def by blast
  show ?thesis
  proof (cases k)
    case (Suc k')
    have rs: "butlast gens = g # fulls @ replicate k' []"
      unfolding t(1) Suc by (simp add: butlast_append flip: replicate_append_same)
    then have "concat (rev ([] # butlast gens)) = concat (rev gens)" using t(1) Suc by simp
    with t Suc rs assms(3) show ?thesis
      unfolding tidy_def by (intro exI [of _ "[]"] exI [of _ "g # fulls"] exI [of _ k']) simp
  next
    case 0
    then obtain fs f where fulls: "fulls = fs @ [f]" using assms(2) t(1) by (cases fulls rule: rev_cases) auto
    have rs: "butlast gens = g # fs" unfolding t(1) fulls 0 by simp
    have "suffix (concat (rev ([] # butlast gens))) (concat (rev gens))"
      unfolding rs t(1) fulls 0 by (simp add: suffix_def)
    then have "suffix (concat (rev ([] # butlast gens))) hist" using t(3) by (rule suffix_order.trans)
    with t fulls rs assms(3) show ?thesis
      unfolding tidy_def by (intro exI [of _ "[]"] exI [of _ "g # fs"] exI [of _ 0]) simp
  qed
qed

lemma tidy_grown:
  assumes "tidy to_json (fl_max_size l) hist gens" and "length gens = fl_max_files l" and "1 \<le> fl_max_files l"
    and "grown to_json l e gens gens'"
  shows "tidy to_json (fl_max_size l) (hist @ [e]) gens'"
proof -
  from assms(2,3) obtain g rs where gens: "gens = g # rs" by (cases gens) auto
  from assms(4) consider "gens' = (g @ [e]) # rs"
    | "2 \<le> fl_max_files l" "gens' = [e] # butlast gens" "fl_max_size l \<le> length (log_text to_json (gens ! 0))"
    by (auto simp: grown_def gens)
  then show ?thesis
  proof cases
    case 1
    then show ?thesis using tidy_grow assms(1) gens by simp
  next
    case 2
    then have "tidy to_json (fl_max_size l) hist ([] # butlast gens)" using tidy_rotate [OF assms(1)] assms(2) by simp
    from tidy_grow [OF this, of e] show ?thesis using 2(2) by simp
  qed
qed

text \<open>Nothing is lost before all the rotated files are full.\<close>

lemma tidy_retention:
  assumes "tidy to_json M hist gens"
  shows "concat (rev gens) = hist \<or> (length gens - 1) * M \<le> length (log_text to_json (concat (rev gens)))"
proof -
  from assms obtain g fulls k where t: "gens = g # fulls @ replicate k []" "\<forall>f\<in>set fulls. M \<le> length (log_text to_json f)"
    "0 < k \<or> fulls = [] \<longrightarrow> concat (rev gens) = hist"
    unfolding tidy_def by blast
  have sum: "length fs * M \<le> length (log_text to_json (concat (rev fs)))" if "\<forall>f\<in>set fs. M \<le> length (log_text to_json f)" for fs
    using that by (induction fs) (auto simp: log_text_append)
  show ?thesis
  proof (cases "k = 0")
    case True
    then show ?thesis using t(1) sum [OF t(2)] by (simp add: log_text_append)
  qed (use t(3) in simp)
qed

definition file_text :: "file_log_state \<Rightarrow> nat \<Rightarrow> string" where
  "file_text s i =
     (let (l, fs) = s; content = (\<lambda>p. case fs_files fs p of Some c \<Rightarrow> c | None \<Rightarrow> []) in
      if i = 0 then content (fl_path l) @ (case fl_writer l of Some buf \<Rightarrow> buf | None \<Rightarrow> []) else content (rotated l i))"

definition file_kept :: "(string \<Rightarrow> ConnectionEvent option) \<Rightarrow> file_log_state \<Rightarrow> ConnectionEvent list" where
  "file_kept from_json s =
     concat (map (\<lambda>i. List.map_filter from_json (str_lines (file_text s i))) (rev [0..<fl_max_files (fst s)]))"

lemma file_text_holds:
  assumes "holds to_json gens s" and "i < fl_max_files (fst s)"
  shows "file_text s i = log_text to_json (gens ! i)"
proof (cases "i = 0")
  case True
  then show ?thesis using assms by (auto simp: holds_def file_text_def)
next
  case False
  then have "i \<in> {1..<fl_max_files (fst s)}" using assms(2) by simp
  moreover have "archived to_json (fst s) (fs_files (snd s)) gens" using assms(1) by (auto simp: holds_def)
  ultimately have "fs_files (snd s) (rotated (fst s) i) = Some (log_text to_json (gens ! i)) \<or>
      fs_files (snd s) (rotated (fst s) i) = None \<and> gens ! i = []" unfolding archived_def by blast
  then show ?thesis using False by (auto simp: file_text_def split_beta)
qed

lemma file_kept_holds:
  assumes "json_laws to_json from_json" and "holds to_json gens s"
  shows "file_kept from_json s = concat (rev gens)"
proof -
  have len: "length gens = fl_max_files (fst s)" using assms(2) by (auto simp: holds_def)
  have "map (\<lambda>i. List.map_filter from_json (str_lines (file_text s i))) [0..<length gens] = map ((!) gens) [0..<length gens]"
    using file_text_holds [OF assms(2)] len by (intro map_cong) (simp_all add: log_text_lines [OF assms(1)])
  also have "\<dots> = gens" by (rule map_nth)
  finally show ?thesis by (simp add: file_kept_def rev_map [symmetric] flip: len)
qed

text \<open>Every call keeps the files in order.\<close>

lemma call_holds:
  assumes "json_laws to_json from_json" and "holds to_json gens s" and "tidy to_json (fl_max_size (fst s)) hist gens"
  obtains gens' where "holds to_json gens' (file_call to_json c s)" "same_setup (fst s) (fst (file_call to_json c s))"
    "tidy to_json (fl_max_size (fst s)) (hist @ logged [c]) gens'"
    "gens' = gens \<or> gens' = [] # butlast gens \<or>
     (\<exists>now e. c = LogCall now e \<and> grown to_json (fst s) e gens gens' \<and>
        (2 \<le> fl_max_files (fst s) \<longrightarrow>
           length (log_text to_json (gens' ! 0)) < fl_max_size (fst s) + 8192 + length (json_line to_json e) + 1))"
proof -
  obtain l fs where s: "s = (l, fs)" by (cases s)
  have len: "length gens = fl_max_files l" "1 \<le> fl_max_files l" using assms(2) s by (auto simp: holds_def)
  show ?thesis
  proof (cases c)
    case (LogCall now e)
    obtain l' fs' gens' where "file_log to_json e (l, fs) = (Inr (), (l', fs'))" "holds to_json gens' (l', fs')" "same_setup l l'"
      "grown to_json l e gens gens'"
      "2 \<le> fl_max_files l \<longrightarrow> length (log_text to_json (gens' ! 0)) < fl_max_size l + 8192 + length (json_line to_json e) + 1"
      using log_holds [OF assms(1) assms(2) [unfolded s]] by metis
    then show ?thesis using that [of gens'] LogCall s tidy_grown [of to_json l hist gens e gens'] len assms(3) by simp
  next
    case FlushCall
    obtain l' fs' where "file_flush (l, fs) = (Inr (), (l', fs'))" "holds to_json gens (l', fs')" "same_setup l l'"
      using flush_holds [OF assms(2) [unfolded s]] by metis
    then show ?thesis using that [of gens] FlushCall s assms(3) by simp
  next
    case (CleanupCall now)
    obtain l' fs' gens' where r: "rotate_if_needed (l, fs) = (Inr (), (l', fs'))" "holds to_json gens' (l', fs')" "same_setup l l'"
      "gens' = gens \<or> 2 \<le> fl_max_files l \<and> gens' = [] # butlast gens \<and> fl_max_size l \<le> length (log_text to_json (gens ! 0))"
      using rotate_holds [OF assms(2) [unfolded s]] by metis
    have "tidy to_json (fl_max_size l) hist gens'"
      using r(4) tidy_rotate [of to_json "fl_max_size l" hist gens] len assms(3) s by auto
    then show ?thesis using that [of gens'] CleanupCall s r by (auto simp: file_cleanup_def)
  qed
qed

definition file_ok :: "(ConnectionEvent \<Rightarrow> string + string) \<Rightarrow> (string \<Rightarrow> ConnectionEvent option) \<Rightarrow> file_log_state \<Rightarrow> bool" where
  "file_ok to_json from_json s \<longleftrightarrow>
     json_laws to_json from_json \<and> (\<exists>gens. holds to_json gens s \<and> tidy to_json (fl_max_size (fst s)) (concat (rev gens)) gens)"

lemma suffix_subseq: "suffix xs ys \<Longrightarrow> subseq xs ys"
  by (auto simp: suffix_def)

lemma file_ok_call:
  assumes "file_ok to_json from_json s"
  shows "file_ok to_json from_json (file_call to_json c s)"
    "suffix (file_kept from_json (file_call to_json c s)) (file_kept from_json s @ logged [c])"
proof -
  from assms obtain gens where g: "json_laws to_json from_json" "holds to_json gens s"
    "tidy to_json (fl_max_size (fst s)) (concat (rev gens)) gens" by (auto simp: file_ok_def)
  from call_holds [OF this] obtain gens' where g': "holds to_json gens' (file_call to_json c s)"
    "same_setup (fst s) (fst (file_call to_json c s))" "tidy to_json (fl_max_size (fst s)) (concat (rev gens) @ logged [c]) gens'" by metis
  have "tidy to_json (fl_max_size (fst s)) (concat (rev gens')) gens'" using g'(3) by (auto simp: tidy_def)
  then show "file_ok to_json from_json (file_call to_json c s)" using g(1) g'(1,2) by (auto simp: file_ok_def same_setup_def)
  have "suffix (concat (rev gens')) (concat (rev gens) @ logged [c])" using g'(3) by (auto simp: tidy_def)
  then show "suffix (file_kept from_json (file_call to_json c s)) (file_kept from_json s @ logged [c])"
    using file_kept_holds [OF g(1) g(2)] file_kept_holds [OF g(1) g'(1)] by simp
qed

interpretation flog: event_log "file_call to_json" "file_kept from_json" id "file_ok to_json from_json" for to_json from_json
proof
  fix s :: file_log_state and c now e
  assume ok: "file_ok to_json from_json s"
  show "file_ok to_json from_json (file_call to_json c s)" by (rule file_ok_call [OF ok])
  show "subseq (file_kept from_json (file_call to_json (LogCall now e) s)) (file_kept from_json s @ [id e])"
    using suffix_subseq [OF file_ok_call(2) [OF ok, of "LogCall now e"]] by simp
  show "subseq (file_kept from_json (file_call to_json FlushCall s)) (file_kept from_json s)"
    using suffix_subseq [OF file_ok_call(2) [OF ok, of FlushCall]] by simp
  show "subseq (file_kept from_json (file_call to_json (CleanupCall now) s)) (file_kept from_json s)"
    using suffix_subseq [OF file_ok_call(2) [OF ok, of "CleanupCall now"]] by simp
qed

text \<open>A new logger where no log was.\<close>

definition fresh_log :: "path \<Rightarrow> fs \<Rightarrow> bool" where
  "fresh_log p fs \<longleftrightarrow>
     healthy fs \<and> fs_files fs p = None \<and> (\<forall>i. fs_files fs (with_extension p (''log.'' @ string_of_nat i)) = None) \<and>
     (\<forall>q. q = p \<or> (\<exists>i. q = with_extension p (''log.'' @ string_of_nat i)) \<longrightarrow>
        \<not> fs_dirs fs q \<and> (\<forall>d. path_parent p = Some d \<longrightarrow> \<not> path_starts_with d q))"

lemma new_holds:
  assumes "fresh_log p fs" and "FileConnectionLogger_new p max_size max_files secure fs = (Inr l, fs0)"
  shows "holds to_json (replicate (max max_files 1) []) (l, fs0)"
    and "fl_max_files l = max max_files 1" and "fl_max_size l = max max_size (1024 * 1024)" and "fl_path l = p"
proof -
  have h: "healthy fs" using assms(1) by (simp add: fresh_log_def)
  let ?l = "\<lparr>fl_path = p, fl_max_size = max max_size (1024 * 1024), fl_max_files = max max_files 1,
      fl_secure_delete = secure, fl_writer = None, fl_total_logged = 0, fl_pending = 0, fl_first_event = None, fl_last_event = None\<rparr>"
  obtain fs1 where fs1: "(case path_parent p of Some parent \<Rightarrow> io_err (\<lambda>_. ''Failed to create log directory'') (fs_create_dir_all parent fs)
      | None \<Rightarrow> (Inr (), fs)) = (Inr (), fs1)" "fs_files fs1 = fs_files fs" "healthy fs1"
      "\<forall>q. q = p \<or> (\<exists>i. q = with_extension p (''log.'' @ string_of_nat i)) \<longrightarrow> \<not> fs_dirs fs1 q"
  proof (cases "path_parent p")
    case None
    then show ?thesis using that [of fs] assms(1) by (auto simp: fresh_log_def)
  next
    case (Some d)
    then have ok: "fs_files fs d = None"
      using assms(2) h by (auto simp: FileConnectionLogger_new_def fs_create_dir_all_def healthy_op io_err_def lift_err_def split: if_splits)
    let ?fs1 = "fs\<lparr>fs_ops := fs_ops fs + 1, fs_dirs := \<lambda>q. fs_dirs fs q \<or> path_starts_with d q\<rparr>"
    have "fs_create_dir_all d fs = (Inr (), ?fs1)" using ok h by (simp add: fs_create_dir_all_def healthy_op)
    then show ?thesis using that [of ?fs1] Some assms(1) h by (auto simp: io_err_def lift_err_def fresh_log_def)
  qed
  have "\<not> fs_dirs fs1 (fl_path ?l)" using fs1(4) by simp
  from open_file_holds [OF fs1(3) this] obtain fs2 where
    fs2: "open_file (?l, fs1) = (Inr (), (?l\<lparr>fl_writer := Some []\<rparr>, fs2))" "becomes fs1 ((fs_files fs1)(p \<mapsto> [])) fs2"
    using assms(1) fs1(2) by (auto simp: fresh_log_def)
  have new: "l = ?l\<lparr>fl_writer := Some []\<rparr>" "fs0 = fs2"
    using assms(2) fs1(1) fs2(1) by (simp_all add: FileConnectionLogger_new_def Let_def)
  then show "fl_max_files l = max max_files 1" "fl_max_size l = max max_size (1024 * 1024)" "fl_path l = p" by simp_all
  have "\<forall>i. fs_files fs2 (rotated l i) = None" "\<forall>i. \<not> fs_dirs fs2 (rotated l i)" "\<not> fs_dirs fs2 p"
    using fs2(2) fs1(2,4) assms(1) with_extension_log_neq [of p] by (auto simp: becomes_def new rotated_def fresh_log_def)
  moreover have "fs_files fs2 p = Some []" "healthy fs2" using fs2(2) by (simp_all add: becomes_def)
  ultimately show "holds to_json (replicate (max max_files 1) []) (l, fs0)"
    by (simp add: new holds_def archived_def gapless_def)
qed

text \<open>A sequence of calls on a new logger.\<close>

lemma calls_hold:
  assumes "json_laws to_json from_json" and "fresh_log p fs"
    and "FileConnectionLogger_new p max_size max_files secure fs = (Inr l, fs0)"
    and "\<forall>e\<in>set (logged cs). length (json_line to_json e) < L"
  shows "\<exists>gens. holds to_json gens (fold (file_call to_json) cs (l, fs0)) \<and>
           same_setup l (fst (fold (file_call to_json) cs (l, fs0))) \<and> tidy to_json (fl_max_size l) (logged cs) gens \<and>
           (2 \<le> fl_max_files l \<longrightarrow> (\<forall>g\<in>set gens. length (log_text to_json g) < fl_max_size l + 8192 + L + 1))"
  using assms(4)
proof (induction cs rule: rev_induct)
  case Nil
  note new = new_holds [OF assms(2,3)]
  have "tidy to_json M [] (replicate n [])" if "1 \<le> n" for M n
  proof -
    have "replicate n [] = [] # [] @ replicate (n - 1) []" using that by (cases n) simp_all
    then show ?thesis unfolding tidy_def by (intro exI [of _ "[]"] exI [of _ "n - 1"]) simp
  qed
  then show ?case using new(1) by (intro exI [of _ "replicate (max max_files 1) []"]) (auto simp: same_setup_def)
next
  case (snoc c cs)
  let ?s = "fold (file_call to_json) cs (l, fs0)" and ?B = "fl_max_size l + 8192 + L + 1"
  from snoc obtain gens where g: "holds to_json gens ?s" "same_setup l (fst ?s)" "tidy to_json (fl_max_size l) (logged cs) gens"
    "2 \<le> fl_max_files l \<longrightarrow> (\<forall>g\<in>set gens. length (log_text to_json g) < ?B)" by auto
  have same: "fl_max_size (fst ?s) = fl_max_size l" "fl_max_files (fst ?s) = fl_max_files l" using g(2) by (simp_all add: same_setup_def)
  have len: "length gens = fl_max_files l" "1 \<le> fl_max_files l" using g(1) same by (auto simp: holds_def)
  from call_holds [OF assms(1) g(1), of "logged cs" c] g(3) same obtain gens' where
    c: "holds to_json gens' (file_call to_json c ?s)" "same_setup (fst ?s) (fst (file_call to_json c ?s))"
    "tidy to_json (fl_max_size l) (logged cs @ logged [c]) gens'"
    "gens' = gens \<or> gens' = [] # butlast gens \<or>
     (\<exists>now e. c = LogCall now e \<and> grown to_json (fst ?s) e gens gens' \<and>
        (2 \<le> fl_max_files l \<longrightarrow> length (log_text to_json (gens' ! 0)) < fl_max_size l + 8192 + length (json_line to_json e) + 1))"
    by metis
  have "\<forall>g\<in>set gens'. length (log_text to_json g) < ?B" if two: "2 \<le> fl_max_files l"
  proof
    fix x assume x: "x \<in> set gens'"
    have old: "\<forall>g\<in>set gens. length (log_text to_json g) < ?B" using g(4) two by blast
    from c(4) consider "gens' = gens" | "gens' = [] # butlast gens"
      | now e where "c = LogCall now e" "grown to_json (fst ?s) e gens gens'"
        "length (log_text to_json (gens' ! 0)) < fl_max_size l + 8192 + length (json_line to_json e) + 1" using two by blast
    then show "length (log_text to_json x) < ?B"
    proof cases
      case 3
      then have "length (json_line to_json e) < L" using snoc.prems by simp
      moreover have "x = gens' ! 0 \<or> x \<in> set gens"
        using x 3(2) list.set_sel(2) [of gens] by (cases gens) (auto simp: grown_def dest: in_set_butlastD split: if_splits)
      ultimately show ?thesis using 3(3) old by auto
    qed (use x old in \<open>auto dest: in_set_butlastD\<close>)
  qed
  moreover have "same_setup l (fst (file_call to_json c ?s))" using g(2) c(2) by (rule same_setup_trans)
  ultimately show ?case using c(1,3) by auto
qed

subsection \<open>An instance\<close>

text \<open>A coding of events as decimal numbers has the laws of the JSON coding.\<close>

instance word :: (len) countable
  by (rule countable_classI [of unat]) (simp add: word_unat_eq_iff)

instance IpAddr :: countable
  by countable_datatype

instance SocketAddr_ext :: (countable) countable
  by (rule countable_classI [of "\<lambda>r. to_nat (sa_ip r, sa_port r, SocketAddr.more r)"]) simp

instance TransferStats_ext :: (countable) countable
  by (rule countable_classI [of "\<lambda>r. to_nat (bytes_rx r, bytes_tx r, packets_rx r, packets_tx r, TransferStats.more r)"]) simp

instance AuthMethod :: countable
  by countable_datatype

instance AuthResult :: countable
  by countable_datatype

instance DisconnectReason :: countable
  by countable_datatype

instance ConnectionEvent :: countable
  by countable_datatype

definition sample_to_json :: "ConnectionEvent \<Rightarrow> string + string" where
  "sample_to_json e = Inr (string_of_nat (to_nat e))"

definition sample_from_json :: "string \<Rightarrow> ConnectionEvent option" where
  "sample_from_json j = Some (from_nat (digits_value j))"

lemma sample_json_laws: "json_laws sample_to_json sample_from_json"
proof -
  have "NL \<notin> set (string_of_nat n)" "CR \<notin> set (string_of_nat n)" for n
    using string_of_nat_chars [of NL n] string_of_nat_chars [of CR n] by (auto simp: is_digit_def)
  then show ?thesis
    by (simp add: json_laws_def sample_to_json_def sample_from_json_def string_of_nat_digits)
qed

definition empty_fs :: fs where
  "empty_fs = \<lparr>fs_files = Map.empty, fs_dirs = (\<lambda>_. False), fs_canon = Map.empty, fs_fault = (\<lambda>_. None), fs_ops = 0\<rparr>"

lemma sample_fresh: "fresh_log ''c.log'' empty_fs"
proof -
  have ext: "with_extension ''c.log'' e = CHR ''c'' # CHR ''.'' # e" for e
    by (simp add: with_extension_def file_stem_def)
  have parts: "split_on CHR ''/'' (CHR ''c'' # CHR ''.'' # s) = (CHR ''c'' # CHR ''.'' # hd (split_on CHR ''/'' s)) # tl (split_on CHR ''/'' s)" for s
    by (cases "split_on CHR ''/'' s") simp_all
  have some: "path_components (CHR ''c'' # CHR ''.'' # s) \<noteq> []" for s
    unfolding path_components_def parts by simp
  have none: "path_components [] = []" by (simp add: path_components_def)
  have "starts_with xs [] \<Longrightarrow> xs = []" for xs :: "string list" by (simp add: starts_with_def)
  then have "\<not> path_starts_with [] (CHR ''c'' # CHR ''.'' # s)" for s
    using some [of s] unfolding path_starts_with_def none by blast
  moreover have "path_parent ''c.log'' = Some []" by (simp add: path_parent_def)
  ultimately show ?thesis by (auto simp: fresh_log_def empty_fs_def healthy_def ext)
qed

definition sample_event :: ConnectionEvent where
  "sample_event = ConnectionAttempt 1 0 \<lparr>sa_ip = V4 0x7F000001, sa_port = 1\<rparr> None"

lemma sample_logger:
  obtains l fs0 where "FileConnectionLogger_new ''c.log'' 0 3 True empty_fs = (Inr l, fs0)"
  by (simp add: FileConnectionLogger_new_def path_parent_def fs_create_dir_all_def fs_op_def empty_fs_def io_err_def
      lift_err_def open_file_def fs_open_append_def path_starts_with_def path_is_absolute_def path_components_def starts_with_def)

section \<open>Properties\<close>

text \<open>
  C36. What the log files keep, on a file system without faults: whatever is called after a start without
  old logs, the events in the files and in the buffer are the last ones logged, in order, with none
  missing in between; events are given up only when all rotated files hold at least the size limit.
  With one file, nothing is ever given up: the file is not rotated at all.
\<close>

theorem file_log_retention:
  assumes "json_laws to_json from_json" and "fresh_log p fs"
    and "FileConnectionLogger_new p max_size max_files secure fs = (Inr l, fs0)"
  shows "let kept = file_kept from_json (fold (file_call to_json) cs (l, fs0)) in
         suffix kept (logged cs) \<and>
         (kept = logged cs \<or>
          2 \<le> max_files \<and> (max_files - 1) * max max_size (1024 * 1024) \<le> length (log_text to_json kept))"
proof -
  obtain L where "\<forall>e\<in>set (logged cs). length (json_line to_json e) < L"
    using finite_set [of "logged cs"] by (metis finite_imageI finite_nat_set_iff_bounded image_eqI)
  from calls_hold [OF assms this] obtain gens where g: "holds to_json gens (fold (file_call to_json) cs (l, fs0))"
    "same_setup l (fst (fold (file_call to_json) cs (l, fs0)))" "tidy to_json (fl_max_size l) (logged cs) gens" by blast
  have len: "length gens = max max_files 1"
    using g(1,2) new_holds(2) [OF assms(2,3)] by (auto simp: holds_def same_setup_def)
  have one: "concat (rev gens) = logged cs" if "\<not> 2 \<le> max_files"
    using g(3) len that by (auto simp: tidy_def)
  have "suffix (concat (rev gens)) (logged cs)" using g(3) by (auto simp: tidy_def)
  moreover have "concat (rev gens) = logged cs \<or>
      2 \<le> max_files \<and> (max_files - 1) * max max_size (1024 * 1024) \<le> length (log_text to_json (concat (rev gens)))"
    using tidy_retention [OF g(3)] one len new_holds(3) [OF assms(2,3)] by (cases "2 \<le> max_files") (auto simp: max_def split: if_splits)
  ultimately show ?thesis using file_kept_holds [OF assms(1) g(1)] by (simp add: Let_def)
qed

theorem file_log_retention_witness:
  "\<exists>l fs0. FileConnectionLogger_new ''c.log'' 0 3 True empty_fs = (Inr l, fs0) \<and>
     suffix (file_kept sample_from_json (fold (file_call sample_to_json) [LogCall 0 sample_event, CleanupCall 5] (l, fs0))) [sample_event]"
proof -
  obtain l fs0 where new: "FileConnectionLogger_new ''c.log'' 0 3 True empty_fs = (Inr l, fs0)" by (rule sample_logger)
  from file_log_retention [OF sample_json_laws sample_fresh new, of "[LogCall 0 sample_event, CleanupCall 5]"] new
  show ?thesis by (intro exI [of _ l] exI [of _ fs0]) (simp add: Let_def)
qed



end
