(* ===== verification/Db_Logger.thy ===== *)
theory Db_Logger
  imports File_Logger "HOL-Library.Multiset"
begin

text \<open>
  The logger that stores events in SQLite, the logger that combines it with the file logger, and the
  choice of a logger (\<open>crates/corevpn-server/src/connection_log/db_logger.rs\<close> and \<open>logger.rs\<close>).

  The statements the code sends are the datatype \<open>Statement\<close>, and the database of the crate \<open>sqlx\<close> is the
  argument \<open>sql\<close>, which takes its state and a statement; \<open>sqlite_laws\<close> says what a statement does to the
  table. The printing and reading of UUIDs and of RFC 3339 dates are the record \<open>text_forms\<close>.
\<close>

section \<open>Rows and statements\<close>

record event_row =
  row_connection_id :: string
  row_event_type :: string
  row_timestamp :: string
  row_client_addr :: "string option"
  row_username :: "string option"
  row_vpn_ip :: "string option"
  row_auth_method :: "string option"
  row_auth_result :: "string option"
  row_disconnect_reason :: "string option"
  row_duration_secs :: "int option"
  row_bytes_rx :: "int option"
  row_bytes_tx :: "int option"
  row_packets_rx :: "int option"
  row_packets_tx :: "int option"
  row_old_addr :: "string option"
  row_new_addr :: "string option"
  row_success :: "int option"
  row_protocol_version :: "string option"
  row_client_info :: "string option"
  row_details :: "string option"

datatype Statement =
  CreateTable
| CountRows
| MinTimestamp
| MaxTimestamp
| InsertRow event_row
| DeleteBefore string
| SelectRecent int
| SelectConnection string
| Vacuum

datatype Answer = Done nat | Number int | Text "string option" | Rows "event_row list"

type_synonym 'd database = "Statement \<Rightarrow> 'd \<Rightarrow> (string + Answer) \<times> 'd"

record text_forms =
  uuid_text :: "Uuid \<Rightarrow> string"
  uuid_parse :: "string \<Rightarrow> Uuid option"
  rfc3339_text :: "date_time \<Rightarrow> string"
  rfc3339_parse :: "string \<Rightarrow> date_time option"

section \<open>Printing addresses\<close>

text \<open>\<open>Display\<close> of IPv6 addresses: the first longest run of zero segments, if longer than one, is left out.\<close>

fun hex_show :: "nat \<Rightarrow> string" where
  "hex_show n = (if n < 16 then [hex_digit n] else hex_show (n div 16) @ [hex_digit (n mod 16)])"

declare hex_show.simps [simp del]

fun zero_run :: "nat list \<Rightarrow> nat \<Rightarrow> nat \<times> nat \<Rightarrow> nat \<times> nat \<Rightarrow> nat \<times> nat" where
  "zero_run [] i longest current = longest"
| "zero_run (g # gs) i longest current =
     (if g = 0 then
        let current = (if snd current = 0 then (i, 1) else (fst current, snd current + 1)) in
        zero_run gs (i + 1) (if snd current > snd longest then current else longest) current
      else zero_run gs (i + 1) longest (0, 0))"

definition show_segments :: "nat list \<Rightarrow> string" where
  "show_segments gs = join '':'' (map hex_show gs)"

definition show_ipv6 :: "u128 \<Rightarrow> string" where
  "show_ipv6 a =
     (let segments = map (v6_segment a) [0..<8]; zeroes = zero_run segments 0 (0, 0) (0, 0) in
      if drop_bit 32 a = 0xFFFF then ''::ffff:'' @ show_ipv4 (ucast a)
      else if snd zeroes > 1
      then show_segments (take (fst zeroes) segments) @ ''::'' @ show_segments (drop (fst zeroes + snd zeroes) segments)
      else show_segments segments)"

fun show_ip_addr :: "IpAddr \<Rightarrow> string" where
  "show_ip_addr (V4 a) = show_ipv4 a"
| "show_ip_addr (V6 a) = show_ipv6 a"

definition show_socket_addr :: "SocketAddr \<Rightarrow> string" where
  "show_socket_addr a =
     (case sa_ip a of
        V4 ip \<Rightarrow> show_ipv4 ip @ '':'' @ string_of_nat (unat (sa_port a))
      | V6 ip \<Rightarrow> ''['' @ show_ipv6 ip @ '']:'' @ string_of_nat (unat (sa_port a)))"

section \<open>Writing and reading rows\<close>

text \<open>The derived \<open>Debug\<close> of the enumerations.\<close>

fun AuthMethod_debug :: "AuthMethod \<Rightarrow> string" where
  "AuthMethod_debug Certificate = ''Certificate''"
| "AuthMethod_debug UsernamePassword = ''UsernamePassword''"
| "AuthMethod_debug OAuth2 = ''OAuth2''"
| "AuthMethod_debug Saml = ''Saml''"
| "AuthMethod_debug Psk = ''Psk''"
| "AuthMethod_debug UnknownMethod = ''Unknown''"

fun AuthResult_debug :: "AuthResult \<Rightarrow> string" where
  "AuthResult_debug Success = ''Success''"
| "AuthResult_debug InvalidCredentials = ''InvalidCredentials''"
| "AuthResult_debug Expired = ''Expired''"
| "AuthResult_debug NotAuthorized = ''NotAuthorized''"
| "AuthResult_debug RateLimited = ''RateLimited''"
| "AuthResult_debug ProviderError = ''ProviderError''"
| "AuthResult_debug Timeout = ''Timeout''"
| "AuthResult_debug UnknownResult = ''Unknown''"

fun DisconnectReason_debug :: "DisconnectReason \<Rightarrow> string" where
  "DisconnectReason_debug ClientDisconnect = ''ClientDisconnect''"
| "DisconnectReason_debug ServerDisconnect = ''ServerDisconnect''"
| "DisconnectReason_debug IdleTimeout = ''IdleTimeout''"
| "DisconnectReason_debug SessionTimeout = ''SessionTimeout''"
| "DisconnectReason_debug AuthFailure = ''AuthFailure''"
| "DisconnectReason_debug ProtocolError = ''ProtocolError''"
| "DisconnectReason_debug ConnectionReset = ''ConnectionReset''"
| "DisconnectReason_debug ServerShutdown = ''ServerShutdown''"
| "DisconnectReason_debug AdminTerminated = ''AdminTerminated''"
| "DisconnectReason_debug RenegotiationFailure = ''RenegotiationFailure''"
| "DisconnectReason_debug UnknownReason = ''Unknown''"

definition parse_auth_method :: "(string \<Rightarrow> string) \<Rightarrow> string \<Rightarrow> AuthMethod" where
  "parse_auth_method lower s =
     (let t = lower s in
      if t = ''certificate'' then Certificate
      else if t = ''usernamepassword'' then UsernamePassword
      else if t = ''oauth2'' then OAuth2
      else if t = ''saml'' then Saml
      else if t = ''psk'' then Psk
      else UnknownMethod)"

definition parse_auth_result :: "(string \<Rightarrow> string) \<Rightarrow> string \<Rightarrow> AuthResult" where
  "parse_auth_result lower s =
     (let t = lower s in
      if t = ''success'' then Success
      else if t = ''invalidcredentials'' then InvalidCredentials
      else if t = ''expired'' then Expired
      else if t = ''notauthorized'' then NotAuthorized
      else if t = ''ratelimited'' then RateLimited
      else if t = ''providererror'' then ProviderError
      else if t = ''timeout'' then Timeout
      else UnknownResult)"

definition parse_disconnect_reason :: "(string \<Rightarrow> string) \<Rightarrow> string \<Rightarrow> DisconnectReason" where
  "parse_disconnect_reason lower s =
     (let t = lower s in
      if t = ''clientdisconnect'' then ClientDisconnect
      else if t = ''serverdisconnect'' then ServerDisconnect
      else if t = ''idletimeout'' then IdleTimeout
      else if t = ''sessiontimeout'' then SessionTimeout
      else if t = ''authfailure'' then AuthFailure
      else if t = ''protocolerror'' then ProtocolError
      else if t = ''connectionreset'' then ConnectionReset
      else if t = ''servershutdown'' then ServerShutdown
      else if t = ''adminterminated'' then AdminTerminated
      else if t = ''renegotiationfailure'' then RenegotiationFailure
      else UnknownReason)"

definition blank_row :: "text_forms \<Rightarrow> ConnectionId \<Rightarrow> string \<Rightarrow> date_time \<Rightarrow> event_row" where
  "blank_row F i event t =
     \<lparr>row_connection_id = uuid_text F i, row_event_type = event, row_timestamp = rfc3339_text F t, row_client_addr = None,
      row_username = None, row_vpn_ip = None, row_auth_method = None, row_auth_result = None, row_disconnect_reason = None,
      row_duration_secs = None, row_bytes_rx = None, row_bytes_tx = None, row_packets_rx = None, row_packets_tx = None,
      row_old_addr = None, row_new_addr = None, row_success = None, row_protocol_version = None, row_client_info = None,
      row_details = None\<rparr>"

text \<open>The values each \<open>INSERT\<close> binds; columns it does not name are null. \<open>u64 as i64\<close> reads the word as signed.\<close>

fun event_values :: "text_forms \<Rightarrow> ConnectionEvent \<Rightarrow> event_row" where
  "event_values F (ConnectionAttempt i t a v) =
     (blank_row F i ''connection_attempt'' t)\<lparr>row_client_addr := Some (show_socket_addr a), row_protocol_version := v\<rparr>"
| "event_values F (Authentication i t a u m r d) =
     (blank_row F i ''authentication'' t)\<lparr>row_client_addr := Some (show_socket_addr a), row_username := u,
        row_auth_method := Some (AuthMethod_debug m), row_auth_result := Some (AuthResult_debug r), row_details := d\<rparr>"
| "event_values F (Connected i t a u ip m c) =
     (blank_row F i ''connected'' t)\<lparr>row_client_addr := Some (show_socket_addr a), row_username := u,
        row_vpn_ip := Some (show_ip_addr ip), row_auth_method := Some (AuthMethod_debug m), row_client_info := c\<rparr>"
| "event_values F (Disconnected i t a u r d s) =
     (blank_row F i ''disconnected'' t)\<lparr>row_client_addr := Some (show_socket_addr a), row_username := u,
        row_disconnect_reason := Some (DisconnectReason_debug r), row_duration_secs := Some (i64 (int (d div 1000000000))),
        row_bytes_rx := map_option (\<lambda>s. sint (bytes_rx s)) s, row_bytes_tx := map_option (\<lambda>s. sint (bytes_tx s)) s,
        row_packets_rx := map_option (\<lambda>s. sint (packets_rx s)) s, row_packets_tx := map_option (\<lambda>s. sint (packets_tx s)) s\<rparr>"
| "event_values F (IpChange i t a b u) =
     (blank_row F i ''ip_change'' t)\<lparr>row_old_addr := Some (show_socket_addr a), row_new_addr := Some (show_socket_addr b),
        row_username := u\<rparr>"
| "event_values F (Renegotiation i t a ok) =
     (blank_row F i ''renegotiation'' t)\<lparr>row_client_addr := Some (show_socket_addr a), row_success := Some (if ok then 1 else 0)\<rparr>"

definition parse_event_row :: "text_forms \<Rightarrow> (string \<Rightarrow> string) \<Rightarrow> event_row \<Rightarrow> ConnectionEvent option" where
  "parse_event_row F lower row =
     Option.bind (uuid_parse F (row_connection_id row)) (\<lambda>i.
     Option.bind (rfc3339_parse F (row_timestamp row)) (\<lambda>t.
     let addr = Option.bind (row_client_addr row) parse_socket_addr;
         text = (\<lambda>x. case x of Some s \<Rightarrow> s | None \<Rightarrow> []);
         number = (\<lambda>x. case x of Some n \<Rightarrow> n | None \<Rightarrow> 0) in
     if row_event_type row = ''connection_attempt'' then
       map_option (\<lambda>a. ConnectionAttempt i t a (row_protocol_version row)) addr
     else if row_event_type row = ''authentication'' then
       map_option (\<lambda>a. Authentication i t a (row_username row) (parse_auth_method lower (text (row_auth_method row)))
         (parse_auth_result lower (text (row_auth_result row))) (row_details row)) addr
     else if row_event_type row = ''connected'' then
       Option.bind addr (\<lambda>a. map_option (\<lambda>ip. Connected i t a (row_username row) ip
         (parse_auth_method lower (text (row_auth_method row))) (row_client_info row))
         (Option.bind (row_vpn_ip row) parse_ip_addr))
     else if row_event_type row = ''disconnected'' then
       map_option (\<lambda>a.
         let stats = (if row_bytes_rx row \<noteq> None \<or> row_bytes_tx row \<noteq> None
                      then Some \<lparr>bytes_rx = of_int (number (row_bytes_rx row)), bytes_tx = of_int (number (row_bytes_tx row)),
                                 packets_rx = of_int (number (row_packets_rx row)), packets_tx = of_int (number (row_packets_tx row))\<rparr>
                      else None) in
         Disconnected i t a (row_username row) (parse_disconnect_reason lower (text (row_disconnect_reason row)))
           (from_secs (unat (of_int (number (row_duration_secs row)) :: u64))) stats) addr
     else if row_event_type row = ''ip_change'' then
       Option.bind (Option.bind (row_old_addr row) parse_socket_addr) (\<lambda>a. map_option (\<lambda>b. IpChange i t a b (row_username row))
         (Option.bind (row_new_addr row) parse_socket_addr))
     else if row_event_type row = ''renegotiation'' then
       map_option (\<lambda>a. Renegotiation i t a (number (row_success row) \<noteq> 0)) addr
     else None))"

section \<open>The database logger\<close>

record DatabaseConnectionLogger =
  dl_retention_days :: u32
  dl_auto_purge :: bool
  dl_total_logged :: u64
  dl_first_event :: "date_time option"
  dl_last_event :: "date_time option"

type_synonym 'd db_log_state = "DatabaseConnectionLogger \<times> 'd"

text \<open>A statement on the state of the logger.\<close>

definition run_sql :: "'d database \<Rightarrow> Statement \<Rightarrow> (string \<Rightarrow> string) \<Rightarrow> 'd db_log_state \<Rightarrow> (string, Answer) res \<times> 'd db_log_state" where
  "run_sql sql q context s = (let (l, d) = s; (r, d') = sql q d in (lift_err context r, (l, d')))"

definition init_schema :: "'d database \<Rightarrow> 'd db_log_state \<Rightarrow> (string, unit) res \<times> 'd db_log_state" where
  "init_schema sql s = io_bind (run_sql sql CreateTable (\<lambda>_. ''Failed to create schema'') s) (\<lambda>_ s. (Inr (), s))"

definition load_time :: "text_forms \<Rightarrow> Answer \<Rightarrow> date_time option" where
  "load_time F a = (case a of Text (Some ts) \<Rightarrow> rfc3339_parse F ts | _ \<Rightarrow> None)"

definition load_stats :: "'d database \<Rightarrow> text_forms \<Rightarrow> 'd db_log_state \<Rightarrow> (string, unit) res \<times> 'd db_log_state" where
  "load_stats sql F s =
     io_bind (run_sql sql CountRows id s) (\<lambda>count (l, d).
     let l = l\<lparr>dl_total_logged := (case count of Number n \<Rightarrow> of_int n | _ \<Rightarrow> dl_total_logged l)\<rparr> in
     io_bind (run_sql sql MinTimestamp id (l, d)) (\<lambda>first (l, d).
     let l = (case load_time F first of Some t \<Rightarrow> l\<lparr>dl_first_event := Some t\<rparr> | None \<Rightarrow> l) in
     io_bind (run_sql sql MaxTimestamp id (l, d)) (\<lambda>final (l, d).
     let l = (case load_time F final of Some t \<Rightarrow> l\<lparr>dl_last_event := Some t\<rparr> | None \<Rightarrow> l) in
     (Inr (), (l, d)))))"

definition DatabaseConnectionLogger_new ::
  "(path \<Rightarrow> string + 'd) \<Rightarrow> 'd database \<Rightarrow> text_forms \<Rightarrow> path \<Rightarrow> u32 \<Rightarrow> bool \<Rightarrow> fs \<Rightarrow>
   (string, 'd db_log_state) res \<times> fs" where
  "DatabaseConnectionLogger_new connect sql F p retention_days purge fs =
     io_bind (case path_parent p of
        Some parent \<Rightarrow> io_err (\<lambda>_. ''Failed to create database directory'') (fs_create_dir_all parent fs)
      | None \<Rightarrow> (Inr (), fs)) (\<lambda>_ fs.
     (and_then (lift_err (\<lambda>_. ''Failed to connect to database'') (connect p)) (\<lambda>d.
      let s = (\<lparr>dl_retention_days = retention_days, dl_auto_purge = purge, dl_total_logged = 0,
                dl_first_event = None, dl_last_event = None\<rparr>, d);
          (r, s) = io_bind (init_schema sql s) (\<lambda>_ s. load_stats sql F s) in
      and_then r (\<lambda>_. Inr s)), fs))"

definition insert_event ::
  "'d database \<Rightarrow> text_forms \<Rightarrow> ConnectionEvent \<Rightarrow> 'd db_log_state \<Rightarrow> (string, unit) res \<times> 'd db_log_state" where
  "insert_event sql F e s = io_bind (run_sql sql (InsertRow (event_values F e)) id s) (\<lambda>_ s. (Inr (), s))"

text \<open>The subtraction of the retention period panics when the date is out of range.\<close>

definition purge_old_events ::
  "'d database \<Rightarrow> text_forms \<Rightarrow> chrono \<Rightarrow> date_time \<Rightarrow> 'd db_log_state \<Rightarrow> (string, nat) res \<times> 'd db_log_state" where
  "purge_old_events sql F C now s =
     (if dl_retention_days (fst s) = 0 then (Inr 0, s)
      else
        case ch_add C now (- (int (unat (dl_retention_days (fst s))) * DAY)) of
          None \<Rightarrow> (Inl Panic, s)
        | Some cutoff \<Rightarrow>
            io_bind (run_sql sql (DeleteBefore (rfc3339_text F cutoff)) id s) (\<lambda>a s.
            (Inr (case a of Done n \<Rightarrow> n | _ \<Rightarrow> 0), s)))"

definition db_note_times :: "date_time \<Rightarrow> DatabaseConnectionLogger \<Rightarrow> DatabaseConnectionLogger" where
  "db_note_times t l =
     (let l = (if dl_first_event l = None then l\<lparr>dl_first_event := Some t\<rparr> else l) in l\<lparr>dl_last_event := Some t\<rparr>)"

definition db_log ::
  "'d database \<Rightarrow> text_forms \<Rightarrow> chrono \<Rightarrow> date_time \<Rightarrow> ConnectionEvent \<Rightarrow> 'd db_log_state \<Rightarrow> (string, unit) res \<times> 'd db_log_state" where
  "db_log sql F C now e s =
     io_bind (insert_event sql F e (db_note_times (ev_timestamp e) (fst s), snd s)) (\<lambda>_ (l, d).
     let l = l\<lparr>dl_total_logged := dl_total_logged l + 1\<rparr> in
     if dl_auto_purge l \<and> dl_total_logged l mod 1000 = 0
     then io_bind (purge_old_events sql F C now (l, d)) (\<lambda>_ s. (Inr (), s))
     else (Inr (), (l, d)))"

definition db_query ::
  "'d database \<Rightarrow> text_forms \<Rightarrow> (string \<Rightarrow> string) \<Rightarrow> Statement \<Rightarrow> 'd db_log_state \<Rightarrow>
   (string, ConnectionEvent list option) res \<times> 'd db_log_state" where
  "db_query sql F lower q s =
     io_bind (run_sql sql q id s) (\<lambda>a s.
     (Inr (Some (List.map_filter (parse_event_row F lower) (case a of Rows rows \<Rightarrow> rows | _ \<Rightarrow> []))), s))"

definition db_query_recent ::
  "'d database \<Rightarrow> text_forms \<Rightarrow> (string \<Rightarrow> string) \<Rightarrow> nat \<Rightarrow> 'd db_log_state \<Rightarrow>
   (string, ConnectionEvent list option) res \<times> 'd db_log_state" where
  "db_query_recent sql F lower limit = db_query sql F lower (SelectRecent (i64 (int limit)))"

definition db_query_connection ::
  "'d database \<Rightarrow> text_forms \<Rightarrow> (string \<Rightarrow> string) \<Rightarrow> ConnectionId \<Rightarrow> 'd db_log_state \<Rightarrow>
   (string, ConnectionEvent list option) res \<times> 'd db_log_state" where
  "db_query_connection sql F lower i = db_query sql F lower (SelectConnection (uuid_text F i))"

definition db_flush :: "'d db_log_state \<Rightarrow> (string, unit) res \<times> 'd db_log_state" where
  "db_flush s = (Inr (), s)"

definition db_cleanup ::
  "'d database \<Rightarrow> text_forms \<Rightarrow> chrono \<Rightarrow> date_time \<Rightarrow> 'd db_log_state \<Rightarrow> (string, unit) res \<times> 'd db_log_state" where
  "db_cleanup sql F C now s =
     io_bind (purge_old_events sql F C now s) (\<lambda>_ (l, d). (Inr (), (l, snd (sql Vacuum d))))"

definition db_stats :: "'d db_log_state \<Rightarrow> LoggerStats" where
  "db_stats s =
     \<lparr>events_logged = dl_total_logged (fst s), pending_events = 0, storage_bytes = None,
      oldest_event = dl_first_event (fst s), newest_event = dl_last_event (fst s)\<rparr>"

fun db_call :: "'d database \<Rightarrow> text_forms \<Rightarrow> chrono \<Rightarrow> log_call \<Rightarrow> 'd db_log_state \<Rightarrow> 'd db_log_state" where
  "db_call sql F C (LogCall now e) s = snd (db_log sql F C now e s)"
| "db_call sql F C FlushCall s = snd (db_flush s)"
| "db_call sql F C (CleanupCall now) s = snd (db_cleanup sql F C now s)"

section \<open>Both loggers\<close>

type_synonym 'd both_log_state = "file_log_state \<times> 'd db_log_state"

text \<open>An error is returned only if both loggers fail; a panic of either ends the call.\<close>

definition composite_log ::
  "(ConnectionEvent \<Rightarrow> string + string) \<Rightarrow> 'd database \<Rightarrow> text_forms \<Rightarrow> chrono \<Rightarrow> date_time \<Rightarrow> ConnectionEvent \<Rightarrow>
   'd both_log_state \<Rightarrow> (string, unit) res \<times> 'd both_log_state" where
  "composite_log to_json sql F C now e s =
     (let (file_result, f) = file_log to_json e (fst s) in
      if file_result = Inl Panic then (Inl Panic, (f, snd s))
      else
        let (db_result, d) = db_log sql F C now e (snd s) in
        if db_result = Inl Panic then (Inl Panic, (f, d))
        else if isl file_result \<and> isl db_result then (file_result, (f, d))
        else (Inr (), (f, d)))"

definition composite_query_recent ::
  "'d database \<Rightarrow> text_forms \<Rightarrow> (string \<Rightarrow> string) \<Rightarrow> nat \<Rightarrow> 'd both_log_state \<Rightarrow>
   (string, ConnectionEvent list option) res \<times> 'd both_log_state" where
  "composite_query_recent sql F lower limit s = (let (r, d) = db_query_recent sql F lower limit (snd s) in (r, (fst s, d)))"

definition composite_query_connection ::
  "'d database \<Rightarrow> text_forms \<Rightarrow> (string \<Rightarrow> string) \<Rightarrow> ConnectionId \<Rightarrow> 'd both_log_state \<Rightarrow>
   (string, ConnectionEvent list option) res \<times> 'd both_log_state" where
  "composite_query_connection sql F lower i s = (let (r, d) = db_query_connection sql F lower i (snd s) in (r, (fst s, d)))"

definition composite_flush :: "'d both_log_state \<Rightarrow> (string, unit) res \<times> 'd both_log_state" where
  "composite_flush s =
     (let (r, f) = file_flush (fst s) in
      io_bind (r, (f, snd s)) (\<lambda>_ (f, d). let (r, d) = db_flush d in (r, (f, d))))"

definition composite_cleanup ::
  "'d database \<Rightarrow> text_forms \<Rightarrow> chrono \<Rightarrow> date_time \<Rightarrow> 'd both_log_state \<Rightarrow> (string, unit) res \<times> 'd both_log_state" where
  "composite_cleanup sql F C now s =
     (let (r, f) = file_cleanup (fst s) in
      io_bind (r, (f, snd s)) (\<lambda>_ (f, d). let (r, d) = db_cleanup sql F C now d in (r, (f, d))))"

definition merge_options :: "('a \<Rightarrow> 'a \<Rightarrow> 'a) \<Rightarrow> 'a option \<Rightarrow> 'a option \<Rightarrow> 'a option" where
  "merge_options f x y =
     (case (x, y) of
        (Some a, Some b) \<Rightarrow> Some (f a b) | (Some a, None) \<Rightarrow> Some a | (None, Some b) \<Rightarrow> Some b | (None, None) \<Rightarrow> None)"

definition composite_stats :: "'d both_log_state \<Rightarrow> LoggerStats" where
  "composite_stats s =
     (let file_stats = file_stats (fst s); db_stats = db_stats (snd s) in
      \<lparr>events_logged = max (events_logged file_stats) (events_logged db_stats),
       pending_events = pending_events file_stats + pending_events db_stats,
       storage_bytes = merge_options (+) (storage_bytes file_stats) (storage_bytes db_stats),
       oldest_event = merge_options min (oldest_event file_stats) (oldest_event db_stats),
       newest_event = merge_options max (newest_event file_stats) (newest_event db_stats)\<rparr>)"

section \<open>Choosing a logger\<close>

datatype 'd logger =
  NullLogger NullConnectionLogger
| MemoryLogger MemoryConnectionLogger
| FileLogger FileConnectionLogger
| DatabaseLogger "'d db_log_state"
| CompositeLogger FileConnectionLogger "'d db_log_state"

definition create_logger ::
  "(path \<Rightarrow> string + 'd) \<Rightarrow> 'd database \<Rightarrow> text_forms \<Rightarrow> LoggingSettings \<Rightarrow> fs \<Rightarrow> (string, 'd logger) res \<times> fs" where
  "create_logger connect sql F settings fs =
     (let r = retention settings;
          file_path = (case connection_log_file settings of Some p \<Rightarrow> p | None \<Rightarrow> ''/var/log/corevpn/connections.log'');
          db_path = (case connection_log_db settings of Some p \<Rightarrow> p | None \<Rightarrow> ''/var/lib/corevpn/connections.db'');
          file_logger = FileConnectionLogger_new file_path (unat (max_file_size_mb r) * 1024 * 1024) (unat (ret_max_files r)) (secure_delete r);
          db_logger = DatabaseConnectionLogger_new connect sql F db_path (ret_days r) (auto_purge r) in
      case connection_mode settings of
        LogNone \<Rightarrow> (Inr (NullLogger NullConnectionLogger_new), fs)
      | LogMemory \<Rightarrow> (Inr (MemoryLogger (MemoryConnectionLogger_new (unat (ret_days r) * 24 * 60))), fs)
      | LogFile \<Rightarrow> io_bind (file_logger fs) (\<lambda>l fs. (Inr (FileLogger l), fs))
      | LogDatabase \<Rightarrow> io_bind (db_logger fs) (\<lambda>s fs. (Inr (DatabaseLogger s), fs))
      | LogBoth \<Rightarrow> io_bind (file_logger fs) (\<lambda>l fs. io_bind (db_logger fs) (\<lambda>s fs. (Inr (CompositeLogger l s), fs))))"

section \<open>Laws\<close>

definition lower_ascii_char :: "char \<Rightarrow> char" where
  "lower_ascii_char c = (if 65 \<le> code c \<and> code c \<le> 90 then char_of (code c + 32) else c)"

definition form_laws :: "text_forms \<Rightarrow> (string \<Rightarrow> string) \<Rightarrow> bool" where
  "form_laws F lower \<longleftrightarrow>
     (\<forall>i. uuid_parse F (uuid_text F i) = Some i) \<and> (\<forall>t. rfc3339_parse F (rfc3339_text F t) = Some t) \<and>
     (\<forall>s. (\<forall>c\<in>set s. code c < 128) \<longrightarrow> lower s = map lower_ascii_char s)"

text \<open>Texts are compared byte by byte.\<close>

fun text_less :: "string \<Rightarrow> string \<Rightarrow> bool" where
  "text_less _ [] \<longleftrightarrow> False"
| "text_less [] (c # t) \<longleftrightarrow> True"
| "text_less (b # s) (c # t) \<longleftrightarrow> code b < code c \<or> b = c \<and> text_less s t"

text \<open>What a statement that succeeds does to the rows of the table and what it answers; one that fails does nothing.\<close>

fun statement_effect :: "Statement \<Rightarrow> event_row list \<Rightarrow> Answer \<Rightarrow> event_row list \<Rightarrow> bool" where
  "statement_effect (InsertRow r) rows a rows' \<longleftrightarrow> rows' = rows @ [r]"
| "statement_effect (DeleteBefore cutoff) rows a rows' \<longleftrightarrow>
     rows' = filter (\<lambda>r. \<not> text_less (row_timestamp r) cutoff) rows \<and> a = Done (length rows - length rows')"
| "statement_effect (SelectConnection i) rows a rows' \<longleftrightarrow>
     rows' = rows \<and> (\<exists>rs. a = Rows rs \<and> mset rs = mset (filter (\<lambda>r. row_connection_id r = i) rows) \<and>
       sorted_wrt (\<lambda>r r'. \<not> text_less (row_timestamp r') (row_timestamp r)) rs)"
| "statement_effect (SelectRecent n) rows a rows' \<longleftrightarrow>
     rows' = rows \<and> (\<exists>rs. a = Rows (if n < 0 then rs else take (nat n) rs) \<and> mset rs = mset rows \<and>
       sorted_wrt (\<lambda>r r'. \<not> text_less (row_timestamp r) (row_timestamp r')) rs)"
| "statement_effect CountRows rows a rows' \<longleftrightarrow> rows' = rows \<and> a = Number (int (length rows))"
| "statement_effect _ rows a rows' \<longleftrightarrow> rows' = rows"

definition sqlite_laws :: "'d database \<Rightarrow> ('d \<Rightarrow> event_row list) \<Rightarrow> bool" where
  "sqlite_laws sql rows \<longleftrightarrow>
     (\<forall>q d e d'. sql q d = (Inl e, d') \<longrightarrow> rows d' = rows d) \<and>
     (\<forall>q d a d'. sql q d = (Inr a, d') \<longrightarrow> statement_effect q (rows d) a (rows d'))"

section \<open>Lemmas\<close>

subsection \<open>Rows\<close>

definition v4_addr :: "SocketAddr \<Rightarrow> bool" where
  "v4_addr a \<longleftrightarrow> (\<exists>ip. sa_ip a = V4 ip)"

fun v4_event :: "ConnectionEvent \<Rightarrow> bool" where
  "v4_event (ConnectionAttempt i t a v) \<longleftrightarrow> v4_addr a"
| "v4_event (Authentication i t a u m r d) \<longleftrightarrow> v4_addr a"
| "v4_event (Connected i t a u ip m c) \<longleftrightarrow> v4_addr a \<and> (\<exists>v4. ip = V4 v4)"
| "v4_event (Disconnected i t a u r d s) \<longleftrightarrow> v4_addr a \<and> d div 1000000000 < 2 ^ 64"
| "v4_event (IpChange i t a b u) \<longleftrightarrow> v4_addr a \<and> v4_addr b"
| "v4_event (Renegotiation i t a ok) \<longleftrightarrow> v4_addr a"

fun whole_seconds :: "ConnectionEvent \<Rightarrow> ConnectionEvent" where
  "whole_seconds (Disconnected i t a u r d s) = Disconnected i t a u r (from_secs (d div 1000000000)) s"
| "whole_seconds e = e"

lemma parse_show_v4: "v4_addr a \<Longrightarrow> parse_socket_addr (show_socket_addr a) = Some a"
proof -
  assume "v4_addr a"
  then obtain ip where ip: "sa_ip a = V4 ip" by (auto simp: v4_addr_def)
  have "unat (sa_port a) < 65536" using unat_bound [of "sa_port a"] by simp
  from parse_socket_addr_show [OF this, of ip] show ?thesis using ip by (simp add: show_socket_addr_def)
qed

lemma parse_ip_addr_show: "parse_ip_addr (show_ipv4 ip) = Some (V4 ip)"
  using read_ipv4_show [of "[]" ip] by (simp add: parse_ip_addr_def parse_all_def read_ip_addr_def)

lemma lower_ascii: "form_laws F lower \<Longrightarrow> \<forall>c\<in>set s. code c < 128 \<Longrightarrow> lower s = map lower_ascii_char s"
  by (simp add: form_laws_def)

lemma parse_debug:
  assumes "form_laws F lower"
  shows "parse_auth_method lower (AuthMethod_debug m) = m"
    "parse_auth_result lower (AuthResult_debug r) = r"
    "parse_disconnect_reason lower (DisconnectReason_debug d) = d"
proof -
  show "parse_auth_method lower (AuthMethod_debug m) = m"
    by (cases m) (simp_all add: parse_auth_method_def lower_ascii [OF assms] lower_ascii_char_def char_of_def bit_0 Let_def)
  show "parse_auth_result lower (AuthResult_debug r) = r"
    by (cases r) (simp_all add: parse_auth_result_def lower_ascii [OF assms] lower_ascii_char_def char_of_def bit_0 Let_def)
  show "parse_disconnect_reason lower (DisconnectReason_debug d) = d"
    by (cases d) (simp_all add: parse_disconnect_reason_def lower_ascii [OF assms] lower_ascii_char_def char_of_def bit_0 Let_def)
qed

lemma i64_word: "(of_int (i64 n) :: u64) = of_int n"
proof -
  have "i64 n = n - 2 ^ 64 * ((n + 2 ^ 63) div 2 ^ 64)"
    unfolding i64_def by (simp add: minus_mult_div_eq_mod [symmetric])
  then have "(of_int (i64 n) :: u64) = of_int n - of_int (2 ^ 64) * of_int ((n + 2 ^ 63) div 2 ^ 64)"
    by (simp only: of_int_diff of_int_mult)
  also have "(of_int (2 ^ 64) :: u64) = 0" by simp
  finally show ?thesis by simp
qed

lemma row_seconds: "d < 2 ^ 64 \<Longrightarrow> unat (of_int (i64 (int d)) :: u64) = d"
  by (simp add: i64_word unsigned_of_nat take_bit_nat_eq_self)

lemma event_row_roundtrip:
  assumes "form_laws F lower" and "v4_event e"
  shows "parse_event_row F lower (event_values F e) = Some (whole_seconds e)"
proof -
  have uuid: "uuid_parse F (uuid_text F i) = Some i" and date: "rfc3339_parse F (rfc3339_text F t) = Some t" for i t
    using assms(1) by (simp_all add: form_laws_def)
  note simps = parse_event_row_def blank_row_def Let_def uuid date parse_show_v4 parse_debug [OF assms(1)]
  show ?thesis
  proof (cases e)
    case (ConnectionAttempt i t a v)
    with assms(2) show ?thesis by (simp add: simps)
  next
    case (Authentication i t a u m r d)
    with assms(2) show ?thesis by (simp add: simps)
  next
    case (Connected i t a u ip m c)
    with assms(2) obtain v4 where "ip = V4 v4" "v4_addr a" by auto
    with Connected show ?thesis by (simp add: simps parse_ip_addr_show)
  next
    case (Disconnected i t a u r d s)
    with assms(2) have a: "v4_addr a" "d div 1000000000 < 2 ^ 64" by simp_all
    then show ?thesis using Disconnected row_seconds [OF a(2)] by (cases s) (simp_all add: simps)
  next
    case (IpChange i t a b u)
    with assms(2) show ?thesis by (simp add: simps)
  next
    case (Renegotiation i t a ok)
    with assms(2) show ?thesis by (simp add: simps)
  qed
qed

subsection \<open>The table\<close>

lemma sql_effect:
  assumes "sqlite_laws sql rows"
  shows "sql q d = (Inl e, d') \<Longrightarrow> rows d' = rows d" "sql q d = (Inr a, d') \<Longrightarrow> statement_effect q (rows d) a (rows d')"
  using assms unfolding sqlite_laws_def by blast+

lemma run_sql_cases:
  obtains e d' where "sql q (snd s) = (Inl e, d')" "run_sql sql q f s = (Inl (Err (f e)), (fst s, d'))"
    | a d' where "sql q (snd s) = (Inr a, d')" "run_sql sql q f s = (Inr a, (fst s, d'))"
proof -
  obtain r d' where sql: "sql q (snd s) = (r, d')" by (cases "sql q (snd s)")
  then have run: "run_sql sql q f s = (lift_err f r, (fst s, d'))" by (simp add: run_sql_def split_beta)
  show thesis
  proof (cases r)
    case (Inl e)
    then show thesis using that(1) sql run by (simp add: lift_err_def)
  next
    case (Inr a)
    then show thesis using that(2) sql run by (simp add: lift_err_def)
  qed
qed

lemma io_bind_cases:
  obtains e where "fst m = Inl e" "io_bind m f = (Inl e, snd m)" | x where "fst m = Inr x" "io_bind m f = f x (snd m)"
  by (cases m; cases "fst m") (auto simp: io_bind_def)

lemma insert_rows:
  assumes "sqlite_laws sql rows"
  shows "rows (snd (snd (insert_event sql F e s))) =
           (if isl (fst (insert_event sql F e s)) then rows (snd s) else rows (snd s) @ [event_values F e]) \<and>
         fst (snd (insert_event sql F e s)) = fst s"
proof (rule run_sql_cases [of sql "InsertRow (event_values F e)" s id])
  fix err d' assume "sql (InsertRow (event_values F e)) (snd s) = (Inl err, d')"
    "run_sql sql (InsertRow (event_values F e)) id s = (Inl (Err (id err)), (fst s, d'))"
  then show ?thesis using sql_effect(1) [OF assms] by (simp add: insert_event_def)
next
  fix a d' assume *: "sql (InsertRow (event_values F e)) (snd s) = (Inr a, d')"
    "run_sql sql (InsertRow (event_values F e)) id s = (Inr a, (fst s, d'))"
  show ?thesis using sql_effect(2) [OF assms *(1)] *(2) by (simp add: insert_event_def)
qed

lemma purge_rows:
  assumes "sqlite_laws sql rows"
  shows "subseq (rows (snd (snd (purge_old_events sql F C now s)))) (rows (snd s)) \<and>
         fst (snd (purge_old_events sql F C now s)) = fst s"
proof (cases "dl_retention_days (fst s) = 0 \<or> ch_add C now (- (int (unat (dl_retention_days (fst s))) * DAY)) = None")
  case True
  then show ?thesis by (auto simp: purge_old_events_def)
next
  case False
  then obtain cutoff where "ch_add C now (- (int (unat (dl_retention_days (fst s))) * DAY)) = Some cutoff" by auto
  with False have purge: "purge_old_events sql F C now s =
      io_bind (run_sql sql (DeleteBefore (rfc3339_text F cutoff)) id s) (\<lambda>a s. (Inr (case a of Done n \<Rightarrow> n | _ \<Rightarrow> 0), s))"
    by (simp add: purge_old_events_def)
  show ?thesis
  proof (rule run_sql_cases [of sql "DeleteBefore (rfc3339_text F cutoff)" s id])
    fix err d' assume "sql (DeleteBefore (rfc3339_text F cutoff)) (snd s) = (Inl err, d')"
      "run_sql sql (DeleteBefore (rfc3339_text F cutoff)) id s = (Inl (Err (id err)), (fst s, d'))"
    then show ?thesis using sql_effect(1) [OF assms] by (simp add: purge)
  next
    fix a d' assume *: "sql (DeleteBefore (rfc3339_text F cutoff)) (snd s) = (Inr a, d')"
      "run_sql sql (DeleteBefore (rfc3339_text F cutoff)) id s = (Inr a, (fst s, d'))"
    show ?thesis using sql_effect(2) [OF assms *(1)] *(2) by (simp add: purge subseq_filter_left)
  qed
qed

lemma purge_forever: "dl_retention_days (fst s) = 0 \<Longrightarrow> purge_old_events sql F C now s = (Inr 0, s)"
  by (simp add: purge_old_events_def)

lemma db_log_rows:
  fixes s :: "'d db_log_state" and e :: ConnectionEvent and F :: text_forms
  assumes "sqlite_laws sql rows"
  defines "i \<equiv> insert_event sql F e (db_note_times (ev_timestamp e) (fst s), snd s)"
  shows "subseq (rows (snd (snd (db_log sql F C now e s)))) (rows (snd (snd i)))"
    and "dl_retention_days (fst s) = 0 \<Longrightarrow> rows (snd (snd (db_log sql F C now e s))) = rows (snd (snd i))"
    and "dl_retention_days (fst (snd (db_log sql F C now e s))) = dl_retention_days (fst s)"
proof -
  have days: "dl_retention_days (fst (snd i)) = dl_retention_days (fst s)"
    using insert_rows [OF assms(1)] by (simp add: i_def db_note_times_def Let_def)
  obtain r l d where i: "i = (r, (l, d))" by (cases i) auto
  let ?l = "l\<lparr>dl_total_logged := dl_total_logged l + 1\<rparr>"
  let ?p = "purge_old_events sql F C now (?l, d)"
  have p: "subseq (rows (snd (snd ?p))) (rows d)" "fst (snd ?p) = ?l"
    "dl_retention_days ?l = 0 \<longrightarrow> ?p = (Inr 0, (?l, d))"
    using purge_rows [OF assms(1), of F C now "(?l, d)"] purge_forever [of "(?l, d)" sql F C now] by simp_all
  have log: "db_log sql F C now e s = (case r of Inl x \<Rightarrow> (Inl x, (l, d)) | Inr _ \<Rightarrow>
      if dl_auto_purge ?l \<and> dl_total_logged ?l mod 1000 = 0 then io_bind ?p (\<lambda>_ s. (Inr (), s)) else (Inr (), (?l, d)))"
    using i [unfolded i_def] by (cases r) (simp_all add: db_log_def Let_def)
  have tail: "snd (io_bind ?p (\<lambda>_ s. (Inr (), s))) = snd ?p" by (rule io_bind_cases [of ?p "\<lambda>_ s. (Inr (), s)"]) simp_all
  show "subseq (rows (snd (snd (db_log sql F C now e s)))) (rows (snd (snd i)))"
    using p(1) tail i by (cases r) (simp_all add: log)
  show "dl_retention_days (fst s) = 0 \<Longrightarrow> rows (snd (snd (db_log sql F C now e s))) = rows (snd (snd i))"
    using p(3) tail i days by (cases r) (simp_all add: log)
  show "dl_retention_days (fst (snd (db_log sql F C now e s))) = dl_retention_days (fst s)"
    using p(2) tail i days by (cases r) (simp_all add: log)
qed

lemma db_cleanup_rows:
  assumes "sqlite_laws sql rows"
  shows "subseq (rows (snd (snd (db_cleanup sql F C now s)))) (rows (snd s))"
    and "dl_retention_days (fst s) = 0 \<Longrightarrow> rows (snd (snd (db_cleanup sql F C now s))) = rows (snd s)"
    and "dl_retention_days (fst (snd (db_cleanup sql F C now s))) = dl_retention_days (fst s)"
proof -
  obtain r l d where p: "purge_old_events sql F C now s = (r, (l, d))" by (cases "purge_old_events sql F C now s") auto
  have vacuum: "rows (snd (sql Vacuum d)) = rows d"
    using sql_effect [OF assms, of Vacuum d] by (cases "sql Vacuum d"; cases "fst (sql Vacuum d)") auto
  note purge = purge_rows [OF assms, of F C now s]
  show "subseq (rows (snd (snd (db_cleanup sql F C now s)))) (rows (snd s))"
    using purge p vacuum by (cases r) (simp_all add: db_cleanup_def)
  show "dl_retention_days (fst s) = 0 \<Longrightarrow> rows (snd (snd (db_cleanup sql F C now s))) = rows (snd s)"
    using purge_forever [of s sql F C now] p vacuum by (cases r) (auto simp: db_cleanup_def)
  show "dl_retention_days (fst (snd (db_cleanup sql F C now s))) = dl_retention_days (fst s)"
    using purge p by (cases r) (simp_all add: db_cleanup_def)
qed

interpretation dlog: event_log "db_call sql F C" "\<lambda>s. rows (snd s)" "event_values F" "\<lambda>_. sqlite_laws sql rows"
  for sql :: "'d database" and F C rows
proof
  fix s :: "'d db_log_state" and now e
  assume laws: "sqlite_laws sql rows"
  let ?i = "insert_event sql F e (db_note_times (ev_timestamp e) (fst s), snd s)"
  have "subseq (rows (snd (snd ?i))) (rows (snd s) @ [event_values F e])"
    using insert_rows [OF laws, of F e "(db_note_times (ev_timestamp e) (fst s), snd s)"]
    by (simp add: prefix_imp_subseq)
  with db_log_rows(1) [OF laws] have "subseq (rows (snd (snd (db_log sql F C now e s)))) (rows (snd s) @ [event_values F e])"
    by (rule subseq_order.order_trans)
  then show "subseq (rows (snd (db_call sql F C (LogCall now e) s))) (rows (snd s) @ [event_values F e])" by simp
  show "subseq (rows (snd (db_call sql F C FlushCall s))) (rows (snd s))" by (simp add: db_flush_def)
  show "subseq (rows (snd (db_call sql F C (CleanupCall now) s))) (rows (snd s))"
    using db_cleanup_rows(1) [OF laws] by simp
qed

lemma mset_map_filter: "mset xs = mset ys \<Longrightarrow> mset (List.map_filter f xs) = mset (List.map_filter f ys)"
proof -
  have "mset (List.map_filter f zs) = image_mset (the \<circ> f) (filter_mset (\<lambda>x. f x \<noteq> None) (mset zs))" for zs
    by (simp add: List.map_filter_def)
  then show "mset xs = mset ys \<Longrightarrow> ?thesis" by simp
qed

definition reliable :: "'d database \<Rightarrow> bool" where
  "reliable sql \<longleftrightarrow> (\<forall>q d. \<not> isl (fst (sql q d)))"

lemma reliable_run: "reliable sql \<Longrightarrow> \<exists>a d'. sql q d = (Inr a, d')"
  by (cases "sql q d"; cases "fst (sql q d)") (auto simp: reliable_def dest!: spec [of _ q] spec [of _ d])

lemma db_rows_complete:
  assumes "sqlite_laws sql rows" and "reliable sql" and "dl_retention_days l = 0"
  shows "rows (snd (fold (db_call sql F C) cs (l, d))) = rows d @ map (event_values F) (logged cs) \<and>
         dl_retention_days (fst (fold (db_call sql F C) cs (l, d))) = 0"
proof (induction cs rule: rev_induct)
  case (snoc c cs)
  let ?s = "fold (db_call sql F C) cs (l, d)"
  show ?case
  proof (cases c)
    case (LogCall now e)
    let ?i = "insert_event sql F e (db_note_times (ev_timestamp e) (fst ?s), snd ?s)"
    have "\<not> isl (fst ?i)"
      using reliable_run [OF assms(2), of "InsertRow (event_values F e)" "snd ?s"] by (auto simp: insert_event_def run_sql_def lift_err_def)
    then have "rows (snd (snd ?i)) = rows (snd ?s) @ [event_values F e]"
      using insert_rows [OF assms(1), of F e "(db_note_times (ev_timestamp e) (fst ?s), snd ?s)"] by simp
    then show ?thesis using snoc LogCall db_log_rows(2,3) [OF assms(1), where s = ?s and F = F and C = C and now = now and e = e] by simp
  next
    case FlushCall
    then show ?thesis using snoc by (simp add: db_flush_def)
  next
    case (CleanupCall now)
    then show ?thesis using snoc db_cleanup_rows(2,3) [OF assms(1), where s = ?s and F = F and C = C and now = now] by simp
  qed
qed (simp add: assms(3))

lemma uuid_text_inj:
  assumes "form_laws F lower"
  shows "uuid_text F i = uuid_text F j \<longleftrightarrow> i = j"
proof
  assume eq: "uuid_text F i = uuid_text F j"
  have "uuid_parse F (uuid_text F k) = Some k" for k
    using assms unfolding form_laws_def by (elim conjE) (rule spec)
  from this [of i] this [of j] have "Some i = Some j" unfolding eq by (rule trans [OF sym])
  then show "i = j" by (rule option.inject [THEN iffD1])
qed (rule arg_cong)

lemma event_values_id: "row_connection_id (event_values F e) = uuid_text F (ev_connection_id e)"
  by (cases e) (simp_all add: blank_row_def)

subsection \<open>An instance\<close>

text \<open>A database whose state is its table; sorting by the text of the timestamp.\<close>

fun insert_by_time :: "event_row \<Rightarrow> event_row list \<Rightarrow> event_row list" where
  "insert_by_time r [] = [r]"
| "insert_by_time r (r' # rs) =
     (if text_less (row_timestamp r') (row_timestamp r) then r' # insert_by_time r rs else r # r' # rs)"

fun sort_by_time :: "event_row list \<Rightarrow> event_row list" where
  "sort_by_time [] = []"
| "sort_by_time (r # rs) = insert_by_time r (sort_by_time rs)"

fun list_database :: "event_row list database" where
  "list_database (InsertRow r) d = (Inr (Done 1), d @ [r])"
| "list_database (DeleteBefore cutoff) d =
     (let d' = filter (\<lambda>r. \<not> text_less (row_timestamp r) cutoff) d in (Inr (Done (length d - length d')), d'))"
| "list_database (SelectConnection i) d = (Inr (Rows (sort_by_time (filter (\<lambda>r. row_connection_id r = i) d))), d)"
| "list_database (SelectRecent n) d =
     (let rs = rev (sort_by_time d) in (Inr (Rows (if n < 0 then rs else take (nat n) rs)), d))"
| "list_database CountRows d = (Inr (Number (int (length d))), d)"
| "list_database q d = (Inr (Done 0), d)"

lemma text_less_lexord: "text_less s t \<longleftrightarrow> (map code s, map code t) \<in> lexord less_than"
  by (induction s t rule: text_less.induct) simp_all

lemma text_not_less_trans:
  assumes "\<not> text_less b a" and "\<not> text_less c b"
  shows "\<not> text_less c a"
proof -
  have total: "(map code x, map code y) \<in> lexord less_than \<or> map code x = map code y \<or> (map code y, map code x) \<in> lexord less_than" for x y
    by (rule lexord_linear) auto
  have trans: "trans (lexord less_than)" by (rule lexord_transI) (rule trans_less_than)
  have "(map code a, map code b) \<in> lexord less_than \<or> map code a = map code b"
    "(map code b, map code c) \<in> lexord less_than \<or> map code b = map code c"
    using total [of a b] total [of b c] assms unfolding text_less_lexord by blast+
  then have "(map code a, map code c) \<in> lexord less_than \<or> map code a = map code c"
    using trans unfolding trans_def by metis
  moreover have "(map code x, map code x) \<notin> lexord less_than" for x by (rule lexord_irreflexive) simp
  ultimately show ?thesis unfolding text_less_lexord using trans unfolding trans_def by metis
qed

lemma text_less_antisym: "text_less a b \<Longrightarrow> \<not> text_less b a"
  by (induction a b rule: text_less.induct) auto

lemma mset_sort_by_time: "mset (sort_by_time rs) = mset rs"
proof -
  have "mset (insert_by_time r xs) = add_mset r (mset xs)" for r xs by (induction xs) auto
  then show ?thesis by (induction rs) simp_all
qed

lemma sorted_by_time:
  "sorted_wrt (\<lambda>r r'. \<not> text_less (row_timestamp r') (row_timestamp r)) (sort_by_time rs)"
proof -
  have keep: "set (insert_by_time r xs) = insert r (set xs)" for r xs by (induction xs) auto
  have "sorted_wrt (\<lambda>r r'. \<not> text_less (row_timestamp r') (row_timestamp r)) (insert_by_time r xs)"
    if "sorted_wrt (\<lambda>r r'. \<not> text_less (row_timestamp r') (row_timestamp r)) xs" for r xs
    using that
  proof (induction xs)
    case (Cons x xs)
    show ?case
    proof (cases "text_less (row_timestamp x) (row_timestamp r)")
      case True
      then show ?thesis using Cons text_less_antisym by (simp add: keep)
    next
      case False
      then have "\<not> text_less (row_timestamp y) (row_timestamp r)" if "y \<in> set xs" for y
        using Cons.prems that text_not_less_trans [of "row_timestamp x" "row_timestamp r" "row_timestamp y"] by simp
      then show ?thesis using False Cons.prems by simp
    qed
  qed simp
  then show ?thesis by (induction rs) simp_all
qed

lemma list_database_laws: "sqlite_laws list_database (\<lambda>d. d)" "reliable list_database"
proof -
  have "statement_effect q d a d'" if "list_database q d = (Inr a, d')" for q d a d'
    using that
  proof (cases q)
    case (SelectConnection i)
    with that show ?thesis using mset_sort_by_time sorted_by_time by auto
  next
    case (SelectRecent n)
    have "sorted_wrt (\<lambda>r r'. \<not> text_less (row_timestamp r) (row_timestamp r')) (rev (sort_by_time d))"
      using sorted_by_time [of d] by (simp add: sorted_wrt_rev)
    moreover have "mset (rev (sort_by_time d)) = mset d" by (simp add: mset_sort_by_time)
    ultimately show ?thesis using that SelectRecent by (auto simp: Let_def)
  qed (auto simp: Let_def)
  moreover have "\<not> isl (fst (list_database q d))" for q d by (cases q) (simp_all add: Let_def)
  moreover have "list_database q d \<noteq> (Inl e, d')" for q d e d' by (cases q) (simp_all add: Let_def)
  ultimately show "sqlite_laws list_database (\<lambda>d. d)" "reliable list_database" by (simp_all add: sqlite_laws_def reliable_def)
qed

definition sample_forms :: text_forms where
  "sample_forms = \<lparr>uuid_text = (\<lambda>i. string_of_nat (unat i)), uuid_parse = (\<lambda>s. Some (of_nat (digits_value s))),
     rfc3339_text = (\<lambda>t. (if t < 0 then ''-'' else ''+'') @ string_of_nat (nat \<bar>t\<bar>)),
     rfc3339_parse = (\<lambda>s. Some ((if hd s = CHR ''-'' then - 1 else 1) * int (digits_value (tl s))))\<rparr>"

lemma sample_form_laws: "form_laws sample_forms (map lower_ascii_char)"
  by (simp add: form_laws_def sample_forms_def string_of_nat_digits)

section \<open>Properties\<close>

text \<open>
  C38. What the database gives back: with unlimited retention, a query for a connection returns, after any
  sequence of calls, exactly the logged events of this connection, each as it was logged except for
  the fraction of a second of a duration. It is supposed that no statement fails, that the text forms
  of UUIDs and dates are read back, and that the addresses are IPv4.
\<close>

theorem database_log_roundtrip:
  assumes "sqlite_laws sql rows" and "reliable sql" and "form_laws F lower" and "rows d = []" and "dl_retention_days l = 0"
    and "\<forall>e\<in>set (logged cs). v4_event e"
  shows "\<exists>es. fst (db_query_connection sql F lower i (fold (db_call sql F C) cs (l, d))) = Inr (Some es) \<and>
           mset es = mset (map whole_seconds (filter (\<lambda>e. ev_connection_id e = i) (logged cs)))"
proof -
  let ?s = "fold (db_call sql F C) cs (l, d)" and ?q = "SelectConnection (uuid_text F i)"
  have table: "rows (snd ?s) = map (event_values F) (logged cs)" using db_rows_complete [OF assms(1,2,5)] assms(4) by simp
  obtain a d' where run: "sql ?q (snd ?s) = (Inr a, d')" using reliable_run [OF assms(2)] by blast
  from sql_effect(2) [OF assms(1) this] obtain rs where
    rs: "a = Rows rs" "mset rs = mset (filter (\<lambda>r. row_connection_id r = uuid_text F i) (rows (snd ?s)))" by auto
  have "fst (db_query_connection sql F lower i ?s) = Inr (Some (List.map_filter (parse_event_row F lower) rs))"
    using run rs(1) by (cases ?s) (simp add: db_query_connection_def db_query_def run_sql_def lift_err_def)
  moreover have "mset (List.map_filter (parse_event_row F lower) rs) =
      mset (map whole_seconds (filter (\<lambda>e. ev_connection_id e = i) (logged cs)))"
  proof -
    have "filter (\<lambda>r. row_connection_id r = uuid_text F i) (rows (snd ?s)) =
        map (event_values F) (filter (\<lambda>e. ev_connection_id e = i) (logged cs))"
      unfolding table by (simp add: filter_map o_def event_values_id uuid_text_inj [OF assms(3)])
    moreover have "List.map_filter (parse_event_row F lower) (map (event_values F) es) = map whole_seconds es"
      if "\<forall>e\<in>set es. v4_event e" for es
      using that by (induction es) (simp_all add: List.map_filter_def event_row_roundtrip [OF assms(3)])
    ultimately show ?thesis using mset_map_filter [OF rs(2), of "parse_event_row F lower"] assms(6) by simp
  qed
  ultimately show ?thesis by blast
qed

theorem database_log_roundtrip_witness:
  "\<exists>es. fst (db_query_connection list_database sample_forms (map lower_ascii_char) 1
       (fold (db_call list_database sample_forms \<lparr>ch_from_std = (\<lambda>_. None), ch_seconds = (\<lambda>_. None), ch_add = (\<lambda>_ _. None)\<rparr>)
         [LogCall 0 sample_event, CleanupCall 7]
         (\<lparr>dl_retention_days = 0, dl_auto_purge = True, dl_total_logged = 0, dl_first_event = None, dl_last_event = None\<rparr>, []))) =
     Inr (Some es) \<and> mset es = {#sample_event#}"
  using database_log_roundtrip [OF list_database_laws sample_form_laws,
      of "[]" "\<lparr>dl_retention_days = 0, dl_auto_purge = True, dl_total_logged = 0, dl_first_event = None, dl_last_event = None\<rparr>"
        "[LogCall 0 sample_event, CleanupCall 7]" 1 "\<lparr>ch_from_std = (\<lambda>_. None), ch_seconds = (\<lambda>_. None), ch_add = (\<lambda>_ _. None)\<rparr>"]
  by (simp add: sample_event_def v4_addr_def)

end
