(* ===== verification/Spec2Isabelle.thy ===== *)
theory Spec2Isabelle
  imports CoreVPN_Prelude Errors Opcode Packet Replay_Window Packet_Cipher Hmac_Auth Kdf Data_Channel Reliable
    Tls_Records Protocol_Session Control_Delivery Std_Text Control_Messages Address_Pool
    Users Core_Sessions Rate_Limiter
    Auth_Externals Auth_Tokens Auth_Provider Auth_Flow Auth_Sessions
    Std_Search Std_Net Std_Fs Std_Files Certificates Config_Server Config_Client Ovpn_Profile
    Connection_Events Connection_Loggers File_Logger Db_Logger
begin

text \<open>
  A verification library for CoreVPN, an OpenVPN-compatible VPN server in Rust (\<open>src/crates\<close>).

  \<^bold>\<open>The program.\<close> A client and the server exchange datagrams. The first byte is the opcode; control packets
  carry a TLS stream over a reliable transport, optionally authenticated with a pre-shared key
  (tls-auth), and data packets carry encrypted IP packets. A protocol session ties these together. Inside
  TLS the peers exchange key material, credentials and the pushed configuration. The server hands out
  addresses from a pool, keeps a table of sessions, authenticates users with OAuth, writes profiles
  for clients, and logs connections.

  \<^bold>\<open>Conventions\<close> (\<open>CoreVPN_Prelude\<close>). Integers of a fixed width are words, \<open>usize\<close> is \<open>nat\<close>, a \<open>str\<close> is the list
  of its UTF-8 bytes, instants and durations are nanoseconds. A fallible operation returns
  \<open>('e, 'a) res\<close>: \<open>Inl (Err e)\<close> is an error value, \<open>Inl Panic\<close> a panic (an index out of range, a failed \<open>unwrap\<close>,
  a slice inside a character), \<open>Inr\<close> the result. An operation on \<open>&mut self\<close> returns the new state beside
  the result, also when it fails. Maps are association lists with the laws of the locale \<open>map_store\<close>;
  sequences of operations are runs of the locale \<open>stepper\<close>. Locks make an operation one step.
  Foreign code (ciphers, HMAC, hashes, X.509, HTTP, JSON, SQLite, the Unicode tables, the clock and
  random values) is an argument, and a law predicate such as \<open>pki_laws\<close> or \<open>sqlite_laws\<close> says what is supposed
  of it; each has an instance that satisfies it.

  \<^bold>\<open>Protocol and cryptography.\<close>
  \<^item> \<open>Opcode\<close>, \<open>Packet\<close> (\<open>corevpn-protocol/src/opcode.rs\<close>, \<open>packet.rs\<close>): the wire format. Parsing and
    serialising are inverse to each other on well-formed packets, and no datagram panics the parser.
  \<^item> \<open>Replay_Window\<close>: the contract of a sliding window, a locale that both windows of the program
    interpret; they decide like the set of ids seen.
  \<^item> \<open>Packet_Cipher\<close>, \<open>Data_Channel\<close> (\<open>corevpn-crypto/src/cipher.rs\<close>, \<open>corevpn-protocol/src/data.rs\<close>): nonces
    are never used twice, no packet is delivered twice, and what one channel encrypts the other delivers.
  \<^item> \<open>Hmac_Auth\<close>, \<open>Kdf\<close> (\<open>hmac_auth.rs\<close>, \<open>kdf.rs\<close>): both ends of a tls-auth key agree; the key expansion,
    whose loop may not end and is a \<open>partial_function\<close>, returns and is the PRF of TLS 1.0.
  \<^item> \<open>Reliable\<close>, \<open>Tls_Records\<close> (\<open>reliable.rs\<close>): bounds in every reachable state, ordered delivery at most once,
    bounded retransmission, and records that do not depend on how the stream is cut.
  \<^item> \<open>Protocol_Session\<close>, \<open>Control_Delivery\<close> (\<open>session.rs\<close>): no datagram panics a session, forged and repeated
    control packets have no effect, and a stream and IP packets arrive at the session of the peer.
  \<^item> \<open>Control_Messages\<close> (\<open>control.rs\<close>): round trips and totality of the parsers of the messages inside TLS.

  \<^bold>\<open>Server state\<close> (\<open>corevpn-core\<close>).
  \<^item> \<open>Address_Pool\<close> (\<open>network.rs\<close>): no address is leased twice; the lowest free address is chosen. The networks
    of the crate \<open>ipnet\<close> are an argument.
  \<^item> \<open>Users\<close>, \<open>Core_Sessions\<close> (\<open>user.rs\<close>, \<open>session.rs\<close>): the indexes agree with the tables, a session is active
    only after authentication, and the limit on sessions is exact.

  \<^bold>\<open>Authentication\<close> (\<open>corevpn-auth\<close>). \<open>Auth_Externals\<close> has the network and the calendar as arguments.
  \<open>Auth_Tokens\<close>, \<open>Auth_Provider\<close>, \<open>Auth_Flow\<close>, \<open>Auth_Sessions\<close> and \<open>Rate_Limiter\<close> model \<open>token.rs\<close>, \<open>provider.rs\<close>,
  \<open>flow.rs\<close> and \<open>session.rs\<close>: which tokens and claims are accepted, which addresses discovery contacts,
  that a request is read back as it was written, and how many attempts the limiter lets through.

  \<^bold>\<open>Certificates, configuration and profiles.\<close>
  \<^item> \<open>Certificates\<close> (\<open>corevpn-crypto/src/cert.rs\<close>): when an issued certificate is valid, and that an authority
    loaded from its files breaks the chain.
  \<^item> \<open>Config_Server\<close>, \<open>Config_Client\<close> (\<open>corevpn-config\<close>): validation accepts exactly the well-formed
    configurations; a saved profile stays in its directory.
  \<^item> \<open>Ovpn_Profile\<close> (\<open>corevpn-cli/src/ovpn.rs\<close>): the profile generated for an IPv4 server is read back.

  \<^bold>\<open>Connection log\<close> (\<open>corevpn-server/src/connection_log\<close>).
  \<^item> \<open>Connection_Events\<close> (\<open>events.rs\<close>, \<open>anonymizer.rs\<close>): two events give the same entry exactly when they agree
    on what the configuration keeps.
  \<^item> \<open>Connection_Loggers\<close> (\<open>logger.rs\<close>, \<open>null_logger.rs\<close>, \<open>memory_logger.rs\<close>): the trait is the locale \<open>event_log\<close>,
    which the null, memory, file and database loggers interpret; the memory logger keeps exactly the
    last events.
  \<^item> \<open>File_Logger\<close> (\<open>file_logger.rs\<close>): buffering, rotation and secure deletion. Every call of the file
    system may fail in the model; retention and size bounds are shown without faults.
  \<^item> \<open>Db_Logger\<close> (\<open>db_logger.rs\<close>, \<open>logger.rs\<close>): what is logged is returned by a query, for IPv4 addresses and
    unlimited retention; the composite logger and the choice of a logger.

  \<^bold>\<open>The standard library\<close> is modelled as far as it is used: \<open>Std_Text\<close>, \<open>Std_Search\<close> (strings), \<open>Std_Net\<close>
  (reading addresses), \<open>Std_Fs\<close>, \<open>Std_Files\<close> (paths, files and \<open>BufWriter\<close>).

  \<^bold>\<open>Bounds and fuel.\<close> No definition takes fuel. Loops are structural or have a measure; the only
  loop that may run forever is that of the key expansion, with a hash whose output is empty, and it is
  shown to return for every other. Reading an IPv6 address takes at most eight groups, as in the
  standard library.

  \<^bold>\<open>Not modelled.\<close> Not yet, although the code would allow it: the handlers of the server
  (\<open>corevpn-server/src/server.rs\<close>), the TLS handlers over \<open>rustls\<close> (\<open>tls.rs\<close>), the key types (\<open>keys.rs\<close>), the
  audit events and their encoders (\<open>audit\<close>), the access checks of the web interface (\<open>webui/auth.rs\<close>,
  \<open>webui/csrf.rs\<close>) and the handshake of the command line client (\<open>corevpn-cli/src/client.rs\<close>). Left out because they
  are input and output or text: the audit sinks, the pages of the web interface, the command
  line and setup dialogue, the NetworkManager plugin and the desktop application. Serialisation by
  derive macros, timing and memory (zeroising, constant-time comparison) are not visible in the model.
\<close>

end
